(* ===== verification/Prelude.thy ===== *)
theory Prelude
  imports Main "HOL-Library.Word"
begin

unbundle bit_operations_syntax

text \<open>
  Shared vocabulary of the development: the machine integers of the Rust sources, the
  result type of fallible code, the compilation target (width of \<open>usize\<close>, overflow
  checks), checked arithmetic and the little-endian byte codec, with the lemmas and
  collections every component uses.
\<close>

named_theorems res_simps \<open>evaluation of results and their binds\<close>
named_theorems le_simps \<open>little-endian byte sequences\<close>

section \<open>Machine integers\<close>

type_synonym u8 = "8 word"
type_synonym u16 = "16 word"
type_synonym u32 = "32 word"
type_synonym u64 = "64 word"
type_synonym u128 = "128 word"

section \<open>Results\<close>

text \<open>
  Rust code stops in one of three ways: it returns an \<open>Err\<close> value (\<open>Fault\<close>), it
  panics (\<open>Panic\<close>: slice or array index out of range, overflow with overflow checks on,
  \<open>unwrap\<close>, capacity overflow), or an \<open>unsafe\<close> block dereferences a pointer outside
  the object it points into (\<open>Undefined\<close>), which the development proves not to happen.
\<close>

datatype 'e stop = Fault 'e | Panic | Undefined

type_synonym ('e, 'a) res = "'e stop + 'a"

definition bind_res :: "('e, 'a) res \<Rightarrow> ('a \<Rightarrow> ('e, 'b) res) \<Rightarrow> ('e, 'b) res" where
  "bind_res r f = (case r of Inl e \<Rightarrow> Inl e | Inr a \<Rightarrow> f a)"

definition ok_or :: "'e \<Rightarrow> 'a option \<Rightarrow> ('e, 'a) res" where
  "ok_or e x = (case x of None \<Rightarrow> Inl (Fault e) | Some a \<Rightarrow> Inr a)"

definition require :: "bool \<Rightarrow> 'e \<Rightarrow> ('e, unit) res" where
  "require b e = (if b then Inr () else Inl (Fault e))"

definition unwrap_or :: "'a \<Rightarrow> 'a option \<Rightarrow> 'a" where
  "unwrap_or d x = (case x of None \<Rightarrow> d | Some a \<Rightarrow> a)"

lemma bind_res_simps [simp, res_simps]:
  "bind_res (Inl e) f = Inl e"
  "bind_res (Inr a) f = f a"
  by (simp_all add: bind_res_def)

lemma ok_or_simps [simp, res_simps]:
  "ok_or e None = Inl (Fault e)"
  "ok_or e (Some a) = Inr a"
  by (simp_all add: ok_or_def)

lemma require_simps [simp, res_simps]:
  "require True e = Inr ()"
  "require False e = Inl (Fault e)"
  by (simp_all add: require_def)

lemma unwrap_or_simps [simp, res_simps]:
  "unwrap_or d None = d"
  "unwrap_or d (Some a) = a"
  by (simp_all add: unwrap_or_def)

lemma bind_res_Inr_iff:
  "bind_res r f = Inr b \<longleftrightarrow> (\<exists>a. r = Inr a \<and> f a = Inr b)"
  by (cases r) simp_all

lemma bind_res_Inl_iff:
  "bind_res r f = Inl e \<longleftrightarrow> r = Inl e \<or> (\<exists>a. r = Inr a \<and> f a = Inl e)"
  by (cases r) simp_all

lemma bind_res_assoc:
  "bind_res (bind_res r f) g = bind_res r (\<lambda>a. bind_res (f a) g)"
  by (cases r) simp_all

lemma ok_or_Inr_iff [simp]: "ok_or e x = Inr a \<longleftrightarrow> x = Some a"
  by (cases x) simp_all

lemma ok_or_Inl_iff [simp]: "ok_or e x = Inl s \<longleftrightarrow> x = None \<and> s = Fault e"
  by (cases x) auto

lemma require_Inr_iff [simp]: "require b e = Inr u \<longleftrightarrow> b"
  by (simp add: require_def)

lemma require_Inl_iff [simp]: "require b e = Inl s \<longleftrightarrow> \<not> b \<and> s = Fault e"
  by (auto simp: require_def)

lemma bind_res_cong [fundef_cong]:
  assumes "r = r'" and "\<And>a. r' = Inr a \<Longrightarrow> f a = f' a"
  shows "bind_res r f = bind_res r' f'"
  using assms by (cases r') simp_all

text \<open>\<open>Result::map_err\<close>, and \<open>unwrap\<close> of an \<open>Option\<close> and of a \<open>Result\<close>.\<close>

definition map_error :: "('e \<Rightarrow> 'd) \<Rightarrow> ('e, 'a) res \<Rightarrow> ('d, 'a) res" where
  "map_error f r = (case r of
     Inr a \<Rightarrow> Inr a | Inl (Fault e) \<Rightarrow> Inl (Fault (f e)) | Inl Panic \<Rightarrow> Inl Panic | Inl Undefined \<Rightarrow> Inl Undefined)"

definition unwrap :: "'a option \<Rightarrow> ('e, 'a) res" where
  "unwrap x = (case x of None \<Rightarrow> Inl Panic | Some a \<Rightarrow> Inr a)"

definition unwrap_result :: "('e, 'a) res \<Rightarrow> ('d, 'a) res" where
  "unwrap_result r = (case r of
     Inr a \<Rightarrow> Inr a | Inl (Fault e) \<Rightarrow> Inl Panic | Inl Panic \<Rightarrow> Inl Panic | Inl Undefined \<Rightarrow> Inl Undefined)"

lemma map_error_simps [simp]:
  "map_error f (Inr a) = Inr a" "map_error f (Inl (Fault e)) = Inl (Fault (f e))"
  "map_error f r = Inr a \<longleftrightarrow> r = Inr a" "map_error f r = Inl Panic \<longleftrightarrow> r = Inl Panic"
  "(case map_error f r of Inl e \<Rightarrow> w | Inr w' \<Rightarrow> g w') = (case r of Inl e \<Rightarrow> w | Inr w' \<Rightarrow> g w')"
  by (auto simp: map_error_def split: sum.splits stop.splits)

lemma map_error_Inl:
  "map_error f r = Inl e \<longleftrightarrow> (\<exists>x. r = Inl (Fault x) \<and> e = Fault (f x)) \<or>
     r = Inl Panic \<and> e = Panic \<or> r = Inl Undefined \<and> e = Undefined"
  by (auto simp: map_error_def split: sum.splits stop.splits)

lemma unwrap_Inr_iff [simp]: "unwrap x = Inr a \<longleftrightarrow> x = Some a"
  by (cases x) (simp_all add: unwrap_def)

lemma unwrap_result_simps [simp]:
  "unwrap_result (Inr a) = Inr a" "unwrap_result (Inl (Fault e)) = Inl Panic"
  "unwrap_result r = Inr a \<longleftrightarrow> r = Inr a"
  by (auto simp: unwrap_result_def split: sum.splits stop.splits)

text \<open>Results of code that returns no \<open>Err\<close> and has no undefined behaviour.\<close>

definition only_panics :: "('e, 'a) res \<Rightarrow> bool" where
  "only_panics r \<longleftrightarrow> (\<forall>e. r = Inl e \<longrightarrow> e = Panic)"

lemma only_panics_simps [simp]:
  "only_panics (Inr a)" "only_panics (Inl e) \<longleftrightarrow> e = Panic"
  by (simp_all add: only_panics_def)

lemma only_panics_bind:
  "only_panics r \<Longrightarrow> (\<And>a. r = Inr a \<Longrightarrow> only_panics (f a)) \<Longrightarrow> only_panics (bind_res r f)"
  by (cases r) simp_all

text \<open>
  Code with effects on a state \<open>'s\<close>: a step that fails ends the code, and what was done to the
  state before stays done.
\<close>

definition then_do :: "('e, 'a) res \<times> 's \<Rightarrow> ('a \<Rightarrow> 's \<Rightarrow> ('e, 'b) res \<times> 's) \<Rightarrow> ('e, 'b) res \<times> 's" where
  "then_do p f = (case p of (Inl e, s) \<Rightarrow> (Inl e, s) | (Inr x, s) \<Rightarrow> f x s)"

lemma then_do_simps [simp, res_simps]:
  "then_do (Inr x, s) f = f x s" "then_do (Inl e, s) f = (Inl e, s)"
  by (simp_all add: then_do_def)

lemma then_do_Inr_iff: "then_do p f = (Inr y, s') \<longleftrightarrow> (\<exists>x s. p = (Inr x, s) \<and> f x s = (Inr y, s'))"
  by (cases p) (auto simp: then_do_def split: sum.splits)

text \<open>A relation that every step keeps relates the first state to the last.\<close>

lemma then_do_keeps:
  assumes "R (snd p)" "\<And>x s. p = (Inr x, s) \<Longrightarrow> R s \<Longrightarrow> R (snd (f x s))"
  shows "R (snd (then_do p f))"
  using assms by (cases p) (auto simp: then_do_def split: sum.splits)

section \<open>The compilation target and its arithmetic\<close>

text \<open>
  The interpreter is compiled for the host (64-bit \<open>usize\<close>) and for the zkVM guest
  (32-bit \<open>usize\<close>), with overflow checks (debug profile) or without (release profile).
  The definitions take the target as a parameter; \<open>target_ok\<close> holds for every target the
  sources are built for.
\<close>

record target =
  usize_bits :: nat
  overflow_checks :: bool

definition target_ok :: "target \<Rightarrow> bool" where
  "target_ok t \<longleftrightarrow> usize_bits t = 32 \<or> usize_bits t = 64"

definition as_usize :: "target \<Rightarrow> 'a::len word \<Rightarrow> nat" where
  "as_usize t w = unat w mod 2 ^ usize_bits t"

definition add_u64 :: "target \<Rightarrow> u64 \<Rightarrow> u64 \<Rightarrow> ('e, u64) res" where
  "add_u64 t a b =
     (if overflow_checks t \<and> 2 ^ 64 \<le> unat a + unat b then Inl Panic else Inr (a + b))"

definition usize_wrap :: "target \<Rightarrow> nat \<Rightarrow> ('e, nat) res" where
  "usize_wrap t n =
     (if n < 2 ^ usize_bits t then Inr n
      else if overflow_checks t then Inl Panic
      else Inr (n mod 2 ^ usize_bits t))"

text \<open>
  Collecting an iterator of known length \<open>n\<close> into a \<open>Vec<u8>\<close> reserves \<open>n\<close>
  bytes first, which panics (capacity overflow) beyond \<open>isize::MAX\<close>.
\<close>

definition with_capacity :: "target \<Rightarrow> nat \<Rightarrow> ('e, unit) res" where
  "with_capacity t n = (if n < 2 ^ (usize_bits t - 1) then Inr () else Inl Panic)"

text \<open>
  \<open>usize\<close> sums and products of a source go through \<open>usize_wrap\<close>: they panic on overflow
  with overflow checks and wrap without.
\<close>

definition usize_add :: "target \<Rightarrow> nat \<Rightarrow> nat \<Rightarrow> ('e, nat) res" where
  "usize_add t a b = usize_wrap t (a + b)"

definition usize_mul :: "target \<Rightarrow> nat \<Rightarrow> nat \<Rightarrow> ('e, nat) res" where
  "usize_mul t a b = usize_wrap t (a * b)"

lemma usize_ops [simp]:
  "a + b < 2 ^ usize_bits t \<Longrightarrow> usize_add t a b = Inr (a + b)"
  "a * b < 2 ^ usize_bits t \<Longrightarrow> usize_mul t a b = Inr (a * b)"
  by (simp_all add: usize_add_def usize_mul_def usize_wrap_def)

lemma add_u64_no_overflow [simp]:
  "unat a + unat b < 2 ^ 64 \<Longrightarrow> add_u64 t a b = Inr (a + b)"
  by (simp add: add_u64_def)

lemma add_u64_Inr_iff:
  "add_u64 t a b = Inr c \<longleftrightarrow> c = a + b \<and> \<not> (overflow_checks t \<and> 2 ^ 64 \<le> unat a + unat b)"
  by (auto simp: add_u64_def)

lemma only_panics_arith [simp]:
  "only_panics (add_u64 t a b)" "only_panics (usize_wrap t n)" "only_panics (with_capacity t n)"
  by (simp_all add: only_panics_def add_u64_def usize_wrap_def with_capacity_def)

lemma unat_u64_less: "unat (a :: u64) < 2 ^ 64"
  using unsigned_less [of a] by simp

lemma unat_add_u64_lt:
  fixes a b :: u64
  assumes "unat a + unat b < 2 ^ 64"
  shows "unat (a + b) = unat a + unat b"
  using assms by (simp add: unat_word_ariths)

section \<open>Little-endian bytes\<close>

primrec to_le :: "nat \<Rightarrow> 'a::len word \<Rightarrow> u8 list" where
  "to_le 0 w = []"
| "to_le (Suc n) w = ucast w # to_le n (drop_bit 8 w)"

primrec from_le :: "u8 list \<Rightarrow> 'a::len word" where
  "from_le [] = 0"
| "from_le (b # bs) = ucast b OR push_bit 8 (from_le bs)"

lemma to_le_numeral:
  "to_le (numeral k) w = ucast w # to_le (pred_numeral k) (drop_bit 8 w)"
  by (simp add: numeral_eq_Suc)

lemma replicate_numeral: "replicate (numeral k) x = x # replicate (pred_numeral k) x"
  by (simp add: numeral_eq_Suc)

lemma length_to_le [simp, le_simps]: "length (to_le n w) = n"
  by (induction n arbitrary: w) simp_all

lemma from_le_to_le [le_simps]: "from_le (to_le n w) = take_bit (8 * n) w"
proof (induction n arbitrary: w)
  case 0
  then show ?case by simp
next
  case (Suc n)
  then show ?case
    by (auto intro!: bit_word_eqI simp: bit_simps)
qed

lemma from_le_to_le_full [simp, le_simps]:
  "from_le (to_le 1 (w8 :: u8)) = w8"
  "from_le (to_le 2 (w16 :: u16)) = w16"
  "from_le (to_le 4 (w32 :: u32)) = w32"
  "from_le (to_le 8 (w64 :: u64)) = w64"
  by (simp_all add: from_le_to_le take_bit_word_eq_self)

lemma bit_from_le:
  "bit (from_le bs :: 'a::len word) n \<longleftrightarrow>
     n < LENGTH('a) \<and> n div 8 < length bs \<and> bit (bs ! (n div 8)) (n mod 8)"
proof (induction bs arbitrary: n)
  case Nil
  then show ?case by simp
next
  case (Cons b bs)
  show ?case
  proof (cases "n < 8")
    case True
    then show ?thesis by (auto simp: bit_simps)
  next
    case False
    then have n: "n div 8 = Suc ((n - 8) div 8)" "n mod 8 = (n - 8) mod 8"
      by (simp_all add: le_div_geq le_mod_geq)
    have "\<not> bit b n" using False by (auto simp: bit_imp_le_length dest: bit_imp_le_length)
    then show ?thesis using False Cons.IH [of "n - 8"] n
      by (auto simp: bit_simps)
  qed
qed

lemma to_le_from_le [le_simps]:
  "8 * length bs \<le> LENGTH('a) \<Longrightarrow> to_le (length bs) (from_le bs :: 'a::len word) = bs"
proof (induction bs)
  case Nil
  then show ?case by simp
next
  case (Cons b bs)
  have hd: "ucast (from_le (b # bs) :: 'a word) = b"
    using Cons.prems by (auto intro!: bit_word_eqI simp: bit_simps)
  have tl: "drop_bit 8 (from_le (b # bs) :: 'a word) = from_le bs"
  proof (rule bit_word_eqI)
    fix n
    assume n: "n < LENGTH('a)"
    have "bit (from_le bs :: 'a word) n \<longleftrightarrow> bit (from_le (b # bs) :: 'a word) (8 + n)"
      using Cons.prems n by (auto simp: bit_from_le div_add_self1 simp del: from_le.simps)
    then show "bit (drop_bit 8 (from_le (b # bs) :: 'a word)) n \<longleftrightarrow> bit (from_le bs :: 'a word) n"
      by (simp only: bit_drop_bit_eq comp_def)
  qed
  show ?case using hd tl Cons by simp
qed

lemma nth_to_le: "k < n \<Longrightarrow> to_le n w ! k = ucast (drop_bit (8 * k) w)"
proof (induction n arbitrary: w k)
  case (Suc n)
  then show ?case by (cases k) (simp_all add: add.commute)
qed simp

lemma to_le_ucast:
  fixes w :: "'a::len word"
  assumes "8 * n \<le> LENGTH('b)"
  shows "to_le n (ucast w :: 'b::len word) = to_le n w"
  using assms by (intro nth_equalityI) (auto intro!: bit_word_eqI simp: nth_to_le bit_simps)

section \<open>Lists and slices\<close>

text \<open>The slice \<open>xs[a..b]\<close>, which panics unless \<open>a \<le> b \<le> xs.len()\<close>.\<close>

definition slice :: "'a list \<Rightarrow> nat \<Rightarrow> nat \<Rightarrow> ('e, 'a list) res" where
  "slice xs a b = (if a \<le> b \<and> b \<le> length xs then Inr (take (b - a) (drop a xs)) else Inl Panic)"

lemma slice_Inr_iff:
  "slice xs a b = Inr ys \<longleftrightarrow> a \<le> b \<and> b \<le> length xs \<and> ys = take (b - a) (drop a xs)"
  by (auto simp: slice_def)

definition splice :: "nat \<Rightarrow> 'a list \<Rightarrow> 'a list \<Rightarrow> 'a list" where
  "splice off ys xs = take off xs @ ys @ drop (off + length ys) xs"

lemma length_splice [simp]:
  "off + length ys \<le> length xs \<Longrightarrow> length (splice off ys xs) = length xs"
  by (simp add: splice_def)

lemma nth_splice:
  assumes "off + length ys \<le> length xs" and "k < length xs"
  shows "splice off ys xs ! k =
     (if off \<le> k \<and> k < off + length ys then ys ! (k - off) else xs ! k)"
  using assms by (auto simp: splice_def nth_append min_def)

end
