(* ===== verification/Byte_Store.thy ===== *)
theory Byte_Store
  imports Prelude
begin

text \<open>
  The interface through which the syscalls and the harnesses use the interpreter's memory:
  reading and writing one byte at an address. The loops of the client code are written over
  the two operations; the locale states what the memory promises (a partial map \<open>view\<close>
  from addresses to bytes that a write updates) and proves the loops correct once.
\<close>

section \<open>The loops\<close>

text \<open>\<open>(0..n).map(|i| mem.read_u8(src + i).unwrap_or(0)).collect()\<close>, from index \<open>i\<close> on.\<close>

primrec fetch_bytes ::
  "('m \<Rightarrow> u64 \<Rightarrow> ('e, u8 option) res) \<Rightarrow> target \<Rightarrow> 'm \<Rightarrow> u64 \<Rightarrow> nat \<Rightarrow> nat \<Rightarrow> ('e, u8 list) res"
where
  "fetch_bytes rd t m src 0 i = Inr []"
| "fetch_bytes rd t m src (Suc k) i =
     bind_res (add_u64 t src (of_nat i)) (\<lambda>a.
     bind_res (rd m a) (\<lambda>b.
     bind_res (fetch_bytes rd t m src k (Suc i)) (\<lambda>bs. Inr (unwrap_or 0 b # bs))))"

text \<open>\<open>for (i, b) in bytes.enumerate() { let _ = mem.write_u8(dst + i as u64, b); }\<close>\<close>

primrec store_bytes ::
  "('m \<Rightarrow> u64 \<Rightarrow> u8 \<Rightarrow> ('e, 'm option) res) \<Rightarrow> target \<Rightarrow> u64 \<Rightarrow> u8 list \<Rightarrow> nat \<Rightarrow> 'm \<Rightarrow> ('e, 'm) res"
where
  "store_bytes wr t dst [] i m = Inr m"
| "store_bytes wr t dst (b # bs) i m =
     bind_res (add_u64 t dst (of_nat i)) (\<lambda>a.
     bind_res (wr m a b) (\<lambda>w. store_bytes wr t dst bs (Suc i) (unwrap_or m w)))"

text \<open>\<open>for i in 0..n { let _ = mem.write_u8(dst + i, val); }\<close>\<close>

primrec fill_bytes ::
  "('m \<Rightarrow> u64 \<Rightarrow> u8 \<Rightarrow> ('e, 'm option) res) \<Rightarrow> target \<Rightarrow> u64 \<Rightarrow> u8 \<Rightarrow> nat \<Rightarrow> nat \<Rightarrow> 'm \<Rightarrow> ('e, 'm) res"
where
  "fill_bytes wr t dst v 0 i m = Inr m"
| "fill_bytes wr t dst v (Suc k) i m =
     bind_res (add_u64 t dst (of_nat i)) (\<lambda>a.
     bind_res (wr m a v) (\<lambda>w. fill_bytes wr t dst v k (Suc i) (unwrap_or m w)))"

text \<open>
  \<open>for i in 0..n { let b = mem.read_u8(src + i).unwrap_or(0); let _ = mem.write_u8(dst + i, b); }\<close>
\<close>

primrec copy_bytes ::
  "('m \<Rightarrow> u64 \<Rightarrow> ('e, u8 option) res) \<Rightarrow> ('m \<Rightarrow> u64 \<Rightarrow> u8 \<Rightarrow> ('e, 'm option) res) \<Rightarrow>
   target \<Rightarrow> u64 \<Rightarrow> u64 \<Rightarrow> nat \<Rightarrow> nat \<Rightarrow> 'm \<Rightarrow> ('e, 'm) res"
where
  "copy_bytes rd wr t dst src 0 i m = Inr m"
| "copy_bytes rd wr t dst src (Suc k) i m =
     bind_res (add_u64 t src (of_nat i)) (\<lambda>s.
     bind_res (rd m s) (\<lambda>b.
     bind_res (add_u64 t dst (of_nat i)) (\<lambda>d.
     bind_res (wr m d (unwrap_or 0 b)) (\<lambda>w.
       copy_bytes rd wr t dst src k (Suc i) (unwrap_or m w)))))"

lemma fill_bytes_eq_store:
  "fill_bytes wr t dst v k i m = store_bytes wr t dst (replicate k v) i m"
  by (induction k arbitrary: i m) simp_all

section \<open>The abstract effect of a run of writes\<close>

text \<open>
  Overwriting a partial map from address \<open>d\<close> on: mapped addresses get the new bytes,
  unmapped ones stay unmapped (the write is refused and its result discarded).
\<close>

definition overlay :: "(nat \<rightharpoonup> u8) \<Rightarrow> nat \<Rightarrow> u8 list \<Rightarrow> (nat \<rightharpoonup> u8)" where
  "overlay f d bs = (\<lambda>a. if d \<le> a \<and> a < d + length bs \<and> f a \<noteq> None
                         then Some (bs ! (a - d)) else f a)"

definition view_bytes :: "(nat \<rightharpoonup> u8) \<Rightarrow> nat \<Rightarrow> nat \<Rightarrow> u8 list" where
  "view_bytes f s n = map (\<lambda>i. unwrap_or 0 (f (s + i))) [0..<n]"

definition mapped :: "(nat \<rightharpoonup> u8) \<Rightarrow> nat \<Rightarrow> nat \<Rightarrow> bool" where
  "mapped f a n \<longleftrightarrow> (\<forall>i<n. f (a + i) \<noteq> None)"

lemma mapped_1 [simp]: "mapped f a 1 \<longleftrightarrow> f a \<noteq> None" "mapped f a (Suc 0) \<longleftrightarrow> f a \<noteq> None"
  by (auto simp: mapped_def)

lemma mapped_overlay [simp]: "mapped (overlay f d bs) a n = mapped f a n"
  by (auto simp: mapped_def overlay_def)

lemma overlay_Nil [simp]: "overlay f d [] = f"
  by (auto simp: overlay_def fun_eq_iff)

lemma overlay_single: "overlay f d [b] = (if f d = None then f else f(d \<mapsto> b))"
  by (auto simp: overlay_def fun_eq_iff less_Suc_eq dest: le_antisym)

lemma overlay_Cons:
  "overlay f d (b # bs) = overlay (overlay f d [b]) (Suc d) bs"
  by (auto simp: overlay_def fun_eq_iff nth_Cons')

lemma overlay_mapped_iff [simp]: "(overlay f d bs a = None) = (f a = None)"
  by (simp add: overlay_def)

lemma length_view_bytes [simp]: "length (view_bytes f s n) = n"
  by (simp add: view_bytes_def)

lemma view_bytes_Suc: "view_bytes f s (Suc n) = unwrap_or 0 (f s) # view_bytes f (Suc s) n"
  by (simp add: view_bytes_def upt_conv_Cons map_Suc_upt [symmetric] del: upt_Suc)

lemma nth_view_bytes [simp]: "i < n \<Longrightarrow> view_bytes f s n ! i = unwrap_or 0 (f (s + i))"
  by (simp add: view_bytes_def)

lemma view_bytes_overlay_disjoint:
  "s + n \<le> d \<or> d + length bs \<le> s \<Longrightarrow> view_bytes (overlay f d bs) s n = view_bytes f s n"
  by (auto simp: view_bytes_def overlay_def)

lemma view_bytes_overlay_same:
  "mapped f d (length bs) \<Longrightarrow> view_bytes (overlay f d bs) d (length bs) = bs"
  by (rule nth_equalityI) (auto simp: overlay_def mapped_def)

section \<open>The contract\<close>

locale byte_store =
  fixes rd :: "'m \<Rightarrow> u64 \<Rightarrow> ('e, u8 option) res"
    and wr :: "'m \<Rightarrow> u64 \<Rightarrow> u8 \<Rightarrow> ('e, 'm option) res"
    and view :: "'m \<Rightarrow> nat \<Rightarrow> u8 option"
    and ok :: "'m \<Rightarrow> bool"
  assumes rd_view: "ok m \<Longrightarrow> unat a + 1 < 2 ^ 64 \<Longrightarrow> rd m a = Inr (view m (unat a))"
    and wr_mapped: "ok m \<Longrightarrow> unat a + 1 < 2 ^ 64 \<Longrightarrow> view m (unat a) \<noteq> None \<Longrightarrow>
          \<exists>m'. wr m a v = Inr (Some m') \<and> ok m' \<and> view m' = (view m)(unat a \<mapsto> v)"
    and wr_unmapped: "ok m \<Longrightarrow> unat a + 1 < 2 ^ 64 \<Longrightarrow> view m (unat a) = None \<Longrightarrow>
          wr m a v = Inr None"
begin

lemma wr_overlay:
  assumes "ok m" "unat a + 1 < 2 ^ 64"
  shows "\<exists>w. wr m a v = Inr w \<and> ok (unwrap_or m w) \<and>
     view (unwrap_or m w) = overlay (view m) (unat a) [v]"
proof (cases "view m (unat a) = None")
  case True
  then show ?thesis using wr_unmapped [OF assms] assms by (simp add: overlay_single)
next
  case False
  then show ?thesis using wr_mapped [OF assms False, of v] by (force simp: overlay_single)
qed

lemma add_index:
  assumes "unat d + i < 2 ^ 64"
  shows "add_u64 t d (of_nat i) = Inr (d + of_nat i)" "unat (d + of_nat i) = unat d + i"
proof -
  have "unat (of_nat i :: u64) = i" using assms by (simp add: unat_of_nat)
  then show "add_u64 t d (of_nat i) = Inr (d + of_nat i)" "unat (d + of_nat i) = unat d + i"
    using assms by (simp_all add: unat_add_u64_lt)
qed

lemma fetch_bytes_view:
  assumes "ok m" "unat src + i + k < 2 ^ 64"
  shows "fetch_bytes rd t m src k i = Inr (view_bytes (view m) (unat src + i) k)"
  using assms
proof (induction k arbitrary: i)
  case 0
  then show ?case by (simp add: view_bytes_def)
next
  case (Suc k)
  then show ?case by (simp add: add_index rd_view view_bytes_Suc)
qed

lemma store_bytes_overlay:
  assumes "ok m" "unat dst + i + length bs < 2 ^ 64"
  shows "\<exists>m'. store_bytes wr t dst bs i m = Inr m' \<and> ok m' \<and>
     view m' = overlay (view m) (unat dst + i) bs"
  using assms
proof (induction bs arbitrary: i m)
  case Nil
  then show ?case by simp
next
  case (Cons b bs)
  from Cons.prems have i: "unat dst + i < 2 ^ 64" by simp
  obtain w where w: "wr m (dst + of_nat i) b = Inr w" "ok (unwrap_or m w)"
      "view (unwrap_or m w) = overlay (view m) (unat dst + i) [b]"
    using wr_overlay [of m "dst + of_nat i" b] Cons.prems add_index [OF i] by auto
  from Cons.IH [of "unwrap_or m w" "Suc i"] Cons.prems w i
  show ?case by (auto simp: add_index overlay_Cons [of _ _ b bs])
qed

lemma fill_bytes_overlay:
  assumes "ok m" "unat dst + k < 2 ^ 64"
  shows "\<exists>m'. fill_bytes wr t dst v k 0 m = Inr m' \<and> ok m' \<and>
     view m' = overlay (view m) (unat dst) (replicate k v)"
  using store_bytes_overlay [of m dst 0 "replicate k v" t] assms
  by (simp add: fill_bytes_eq_store)

text \<open>
  The byte-by-byte copy: on ranges where no byte is read after it has been overwritten
  (the destination starts at or before the source, or after its end), it copies.
\<close>

lemma copy_bytes_overlay:
  assumes "ok m" "unat dst + i + k < 2 ^ 64" "unat src + i + k < 2 ^ 64"
    and "unat dst \<le> unat src \<or> unat src + k \<le> unat dst"
  shows "\<exists>m'. copy_bytes rd wr t dst src k i m = Inr m' \<and> ok m' \<and>
     view m' = overlay (view m) (unat dst + i) (view_bytes (view m) (unat src + i) k)"
  using assms
proof (induction k arbitrary: i m)
  case 0
  then show ?case by (simp add: view_bytes_def)
next
  case (Suc k)
  let ?b = "unwrap_or 0 (view m (unat src + i))"
  have i: "unat dst + i < 2 ^ 64" "unat src + i < 2 ^ 64" using Suc.prems by simp_all
  obtain w where w: "wr m (dst + of_nat i) ?b = Inr w" "ok (unwrap_or m w)"
      "view (unwrap_or m w) = overlay (view m) (unat dst + i) [?b]"
    using wr_overlay [of m "dst + of_nat i" ?b] Suc.prems add_index(2) [OF i(1)] by auto
  have keep: "view_bytes (view (unwrap_or m w)) (unat src + Suc i) k =
      view_bytes (view m) (unat src + Suc i) k"
    unfolding w(3) using Suc.prems(4) by (intro view_bytes_overlay_disjoint) auto
  have "\<exists>m'. copy_bytes rd wr t dst src k (Suc i) (unwrap_or m w) = Inr m' \<and> ok m' \<and>
      view m' = overlay (view (unwrap_or m w)) (unat dst + Suc i)
        (view_bytes (view (unwrap_or m w)) (unat src + Suc i) k)"
    using Suc.prems by (intro Suc.IH w(2)) auto
  then obtain m' where m': "copy_bytes rd wr t dst src k (Suc i) (unwrap_or m w) = Inr m'" "ok m'"
      "view m' = overlay (overlay (view m) (unat dst + i) [?b]) (unat dst + Suc i)
         (view_bytes (view m) (unat src + Suc i) k)"
    unfolding keep unfolding w(3) by blast
  have "rd m (src + of_nat i) = Inr (view m (unat src + i))"
    using Suc.prems add_index(2) [OF i(2)] by (subst rd_view) auto
  then have run: "copy_bytes rd wr t dst src (Suc k) i m = Inr m'"
    by (simp add: add_index(1) [OF i(1)] add_index(1) [OF i(2)] w(1) m'(1))
  have "view m' = overlay (view m) (unat dst + i) (view_bytes (view m) (unat src + i) (Suc k))"
    unfolding m'(3) view_bytes_Suc
    by (simp add: overlay_Cons [of "view m" _ ?b "view_bytes (view m) (Suc (unat src + i)) k"])
  with run m'(2) show ?case by blast
qed

text \<open>
  Copying a range to the address after its start reads each byte after it has been
  overwritten: the first byte is smeared over the range.
\<close>

lemma copy_bytes_smear:
  assumes "ok m" "unat src + i + k + 1 < 2 ^ 64" "view m (unat src + i) = Some b"
    and "\<forall>j<k. view m (unat src + i + 1 + j) \<noteq> None"
  shows "\<exists>m'. copy_bytes rd wr t (src + 1) src k i m = Inr m' \<and> ok m' \<and>
     view m' = overlay (view m) (unat src + 1 + i) (replicate k b)"
  using assms
proof (induction k arbitrary: i m)
  case 0
  then show ?case by simp
next
  case (Suc k)
  have dst: "unat (src + 1) = unat src + 1"
    using Suc.prems(2) unat_add_u64_lt [of src 1] by simp
  have i: "unat (src + 1) + i < 2 ^ 64" "unat src + i < 2 ^ 64" using Suc.prems(2) dst by simp_all
  obtain w where w: "wr m (src + 1 + of_nat i) b = Inr w" "ok (unwrap_or m w)"
      "view (unwrap_or m w) = overlay (view m) (unat (src + 1) + i) [b]"
    using wr_overlay [of m "src + 1 + of_nat i" b] Suc.prems add_index(2) [OF i(1)] dst by auto
  have "view m (unat src + i + 1 + 0) \<noteq> None"
    using Suc.prems(4) by (elim allE [of _ 0]) simp
  then have here: "view (unwrap_or m w) (unat src + Suc i) = Some b"
    unfolding w(3) by (simp add: overlay_def dst)
  have rest: "\<forall>j<k. view (unwrap_or m w) (unat src + Suc i + 1 + j) \<noteq> None"
  proof (intro allI impI)
    fix j
    assume "j < k"
    then have "view m (unat src + i + 1 + Suc j) \<noteq> None"
      using Suc.prems(4) by (elim allE [of _ "Suc j"]) simp
    then show "view (unwrap_or m w) (unat src + Suc i + 1 + j) \<noteq> None"
      unfolding w(3) by simp
  qed
  obtain m' where m': "copy_bytes rd wr t (src + 1) src k (Suc i) (unwrap_or m w) = Inr m'" "ok m'"
      "view m' = overlay (view (unwrap_or m w)) (unat src + 1 + Suc i) (replicate k b)"
    using Suc.IH [OF w(2) _ here rest] Suc.prems(2) by auto
  have "rd m (src + of_nat i) = Inr (Some b)"
    using Suc.prems add_index(2) [OF i(2)] by (subst rd_view) auto
  then have run: "copy_bytes rd wr t (src + 1) src (Suc k) i m = Inr m'"
    by (simp add: add_index(1) [OF i(1)] add_index(1) [OF i(2)] w(1) m'(1))
  have "view m' = overlay (view m) (unat src + 1 + i) (replicate (Suc k) b)"
    unfolding m'(3) w(3)
    using overlay_Cons [of "view m" "unat src + 1 + i" b "replicate k b"] by (simp add: dst)
  with run m'(2) show ?case by blast
qed

end

end
