(* ===== verification/Sbpf_Memory.thy ===== *)
theory Sbpf_Memory
  imports Byte_Store
begin

text \<open>
  The memory of the sBPF interpreter (\<open>struct Memory\<close> of
  \<open>m6-interpreter/interpreter/src/lib.rs\<close>): two byte vectors, the stack and the heap, at
  two virtual base addresses. Every access resolves a virtual address to a pointer into one
  of the vectors and dereferences it in an \<open>unsafe\<close> block. The lemmas characterise
  \<open>resolve\<close>, show the dereferences in bounds, and relate the accesses to an abstract view
  of memory as a partial map from addresses to bytes.
\<close>

section \<open>The code\<close>

datatype sbpf_error =
    UnknownOpcode u8
  | OutOfBounds nat
  | DivisionByZero
  | InvalidMemoryAccess u64 nat
  | CallStackOverflow
  | BadExit

record memory =
  heap :: "u8 list"
  stack :: "u8 list"
  stack_base :: u64
  heap_base :: u64

definition Memory_new :: "nat \<Rightarrow> nat \<Rightarrow> memory" where
  "Memory_new heap_size stack_size =
     \<lparr>heap = replicate heap_size 0, stack = replicate stack_size 0,
      stack_base = 0x100000000, heap_base = 0x300000000\<rparr>"

text \<open>The guard \<open>addr >= base && addr + size as u64 <= base + len\<close>, evaluated left to right.\<close>

definition in_range :: "target \<Rightarrow> u64 \<Rightarrow> nat \<Rightarrow> u64 \<Rightarrow> u64 \<Rightarrow> ('e, bool) res" where
  "in_range t addr sz base len =
     (if base \<le> addr
      then bind_res (add_u64 t addr (of_nat sz)) (\<lambda>e.
           bind_res (add_u64 t base len) (\<lambda>l. Inr (e \<le> l)))
      else Inr False)"

text \<open>
  A pointer is an offset into one of the two vectors; the flag, as in the source, tells
  the heap (\<open>True\<close>) from the stack. Taking \<open>v[off..]\<close> panics when \<open>off\<close> is beyond the
  end of \<open>v\<close>.
\<close>

type_synonym pointer = "nat \<times> bool"

definition offset_in :: "target \<Rightarrow> u64 \<Rightarrow> u64 \<Rightarrow> u8 list \<Rightarrow> ('e, nat) res" where
  "offset_in t addr base v =
     (let off = as_usize t (addr - base) in if off \<le> length v then Inr off else Inl Panic)"

definition resolve :: "target \<Rightarrow> memory \<Rightarrow> u64 \<Rightarrow> nat \<Rightarrow> ('e, pointer option) res" where
  "resolve t m addr sz =
     (let sb = stack_base m; ss = of_nat (length (stack m));
          hb = heap_base m; hs = of_nat (length (heap m))
      in bind_res (in_range t addr sz sb ss) (\<lambda>in_stack.
         if in_stack then bind_res (offset_in t addr sb (stack m)) (\<lambda>off. Inr (Some (off, False)))
         else bind_res (in_range t addr sz hb hs) (\<lambda>in_heap.
              if in_heap then bind_res (offset_in t addr hb (heap m)) (\<lambda>off. Inr (Some (off, True)))
              else Inr None)))"

text \<open>\<open>resolve_mut\<close> repeats the body of \<open>resolve\<close> with mutable pointers.\<close>

definition resolve_mut :: "target \<Rightarrow> memory \<Rightarrow> u64 \<Rightarrow> nat \<Rightarrow> ('e, pointer option) res" where
  "resolve_mut t m addr sz =
     (let sb = stack_base m; ss = of_nat (length (stack m));
          hb = heap_base m; hs = of_nat (length (heap m))
      in bind_res (in_range t addr sz sb ss) (\<lambda>in_stack.
         if in_stack then bind_res (offset_in t addr sb (stack m)) (\<lambda>off. Inr (Some (off, False)))
         else bind_res (in_range t addr sz hb hs) (\<lambda>in_heap.
              if in_heap then bind_res (offset_in t addr hb (heap m)) (\<lambda>off. Inr (Some (off, True)))
              else Inr None)))"

text \<open>
  The dereferences of the \<open>unsafe\<close> blocks: \<open>n\<close> bytes read or written at a pointer.
  Outside the vector they are undefined behaviour.
\<close>

definition deref :: "memory \<Rightarrow> pointer \<Rightarrow> nat \<Rightarrow> ('e, u8 list) res" where
  "deref m p n =
     (let v = (if snd p then heap m else stack m)
      in if fst p + n \<le> length v then Inr (take n (drop (fst p) v)) else Inl Undefined)"

definition store :: "memory \<Rightarrow> pointer \<Rightarrow> u8 list \<Rightarrow> ('e, memory) res" where
  "store m p bs =
     (let v = (if snd p then heap m else stack m)
      in if fst p + length bs \<le> length v
         then Inr (if snd p then m\<lparr>heap := splice (fst p) bs v\<rparr>
                   else m\<lparr>stack := splice (fst p) bs v\<rparr>)
         else Inl Undefined)"

definition read_le :: "nat \<Rightarrow> target \<Rightarrow> memory \<Rightarrow> u64 \<Rightarrow> ('e, 'a::len word option) res" where
  "read_le n t m addr =
     bind_res (resolve t m addr n) (\<lambda>r.
       case r of None \<Rightarrow> Inr None
       | Some p \<Rightarrow> bind_res (deref m p n) (\<lambda>bs. Inr (Some (from_le bs))))"

definition write_le :: "nat \<Rightarrow> target \<Rightarrow> memory \<Rightarrow> u64 \<Rightarrow> 'a::len word \<Rightarrow> ('e, memory option) res" where
  "write_le n t m addr v =
     bind_res (resolve_mut t m addr n) (\<lambda>r.
       case r of None \<Rightarrow> Inr None
       | Some p \<Rightarrow> bind_res (store m p (to_le n v)) (\<lambda>m'. Inr (Some m')))"

definition read_u8 :: "target \<Rightarrow> memory \<Rightarrow> u64 \<Rightarrow> ('e, u8 option) res" where
  "read_u8 t m addr = read_le 1 t m addr"

definition read_u16 :: "target \<Rightarrow> memory \<Rightarrow> u64 \<Rightarrow> ('e, u16 option) res" where
  "read_u16 t m addr = read_le 2 t m addr"

definition read_u32 :: "target \<Rightarrow> memory \<Rightarrow> u64 \<Rightarrow> ('e, u32 option) res" where
  "read_u32 t m addr = read_le 4 t m addr"

definition read_u64 :: "target \<Rightarrow> memory \<Rightarrow> u64 \<Rightarrow> ('e, u64 option) res" where
  "read_u64 t m addr = read_le 8 t m addr"

definition write_u8 :: "target \<Rightarrow> memory \<Rightarrow> u64 \<Rightarrow> u8 \<Rightarrow> ('e, memory option) res" where
  "write_u8 t m addr v = write_le 1 t m addr v"

definition write_u16 :: "target \<Rightarrow> memory \<Rightarrow> u64 \<Rightarrow> u16 \<Rightarrow> ('e, memory option) res" where
  "write_u16 t m addr v = write_le 2 t m addr v"

definition write_u32 :: "target \<Rightarrow> memory \<Rightarrow> u64 \<Rightarrow> u32 \<Rightarrow> ('e, memory option) res" where
  "write_u32 t m addr v = write_le 4 t m addr v"

definition write_u64 :: "target \<Rightarrow> memory \<Rightarrow> u64 \<Rightarrow> u64 \<Rightarrow> ('e, memory option) res" where
  "write_u64 t m addr v = write_le 8 t m addr v"

lemmas access_defs =
  read_u8_def read_u16_def read_u32_def read_u64_def
  write_u8_def write_u16_def write_u32_def write_u64_def

section \<open>Where an access lands\<close>

text \<open>
  Memories built by \<open>Memory::new\<close> with sizes that fit a vector on both targets. Every
  operation keeps the bases and the lengths, so \<open>mem_ok\<close> is an invariant.
\<close>

definition mem_ok :: "target \<Rightarrow> memory \<Rightarrow> bool" where
  "mem_ok t m \<longleftrightarrow> target_ok t \<and> stack_base m = 0x100000000 \<and> heap_base m = 0x300000000 \<and>
     length (stack m) < 2 ^ 31 \<and> length (heap m) < 2 ^ 31"

definition same_shape :: "memory \<Rightarrow> memory \<Rightarrow> bool" where
  "same_shape m m' \<longleftrightarrow> stack_base m' = stack_base m \<and> heap_base m' = heap_base m \<and>
     length (stack m') = length (stack m) \<and> length (heap m') = length (heap m)"

lemma same_shape_refl [simp, intro]: "same_shape m m"
  by (simp add: same_shape_def)

lemma same_shape_trans: "same_shape a b \<Longrightarrow> same_shape b c \<Longrightarrow> same_shape a c"
  by (simp add: same_shape_def)

lemma mem_ok_same_shape: "mem_ok t m \<Longrightarrow> same_shape m m' \<Longrightarrow> mem_ok t m'"
  by (simp add: mem_ok_def same_shape_def)

lemma mem_ok_new: "target_ok t \<Longrightarrow> hs < 2 ^ 31 \<Longrightarrow> ss < 2 ^ 31 \<Longrightarrow> mem_ok t (Memory_new hs ss)"
  by (simp add: mem_ok_def Memory_new_def)

text \<open>The pointer an access of \<open>n\<close> bytes at address \<open>a\<close> should get, on naturals.\<close>

definition locate :: "memory \<Rightarrow> nat \<Rightarrow> nat \<Rightarrow> pointer option" where
  "locate m a n =
     (if 0x100000000 \<le> a \<and> a + n \<le> 0x100000000 + length (stack m) then Some (a - 0x100000000, False)
      else if 0x300000000 \<le> a \<and> a + n \<le> 0x300000000 + length (heap m) then Some (a - 0x300000000, True)
      else None)"

lemma resolve_mut_eq: "resolve_mut = resolve"
  by (intro ext) (simp add: resolve_def resolve_mut_def)

lemma in_range_no_overflow:
  assumes "unat a + n < 2 ^ 64" and "unat b + k < 2 ^ 64" 
  shows "in_range t a n b (of_nat k) = Inr (unat b \<le> unat a \<and> unat a + n \<le> unat b + k)"
  using assms
  by (auto simp: in_range_def add_u64_def word_le_nat_alt unat_of_nat unat_add_u64_lt)

lemma in_range_overflow:
  assumes "2 ^ 64 \<le> unat a + n" "n \<le> 8" "8 \<le> unat b" "unat b + k < 2 ^ 64" "b \<le> a"
  shows "in_range t a n b (of_nat k) = (if overflow_checks t then Inl Panic else Inr True)"
proof -
  have w: "unat (a + of_nat n) = unat a + n - 2 ^ 64"
    using assms(1,2) unat_u64_less [of a] by (simp add: unat_word_ariths unat_of_nat mod_if)
  then have "unat (a + of_nat n) \<le> unat (b + of_nat k)"
    using assms unat_u64_less [of a] by (simp add: unat_add_u64_lt unat_of_nat)
  then show ?thesis
    using assms by (auto simp: in_range_def add_u64_def word_le_nat_alt unat_of_nat)
qed

lemma offset_in_ok:
  assumes "target_ok t" "unat b \<le> unat a" "unat a \<le> unat b + length v" "length v < 2 ^ 31"
  shows "offset_in t a b v = Inr (unat a - unat b)"
proof -
  have "unat (a - b) = unat a - unat b"
    using assms(2) by (simp add: unat_sub word_le_nat_alt)
  then show ?thesis
    using assms by (auto simp: offset_in_def as_usize_def target_ok_def Let_def)
qed

lemma offset_in_beyond:
  assumes "target_ok t" "2 ^ 64 - 8 \<le> unat a" "unat b = 0x100000000" "length v < 2 ^ 31"
  shows "offset_in t a b v = Inl Panic"
proof -
  have "unat (a - b) = unat a - 0x100000000"
    using assms(2,3) by (simp add: unat_sub word_le_nat_alt)
  moreover have "unat a < 2 ^ 64" using unat_u64_less [of a] by simp
  moreover define d where "d = unat a - (2 ^ 64 - 8)"
  ultimately have "unat (a - b) = 2 ^ 64 - 8 + d - 0x100000000" "d < 8"
    using assms(2) by auto
  moreover have "(2 ^ 64 - 8 + d - 0x100000000) mod 2 ^ 32 = 2 ^ 32 - 8 + d" if "d < 8" for d :: nat
  proof -
    have "2 ^ 64 - 8 + d - 0x100000000 = (2 ^ 32 - 8 + d) + (2 ^ 32 - 2) * 2 ^ 32" by simp
    then have "(2 ^ 64 - 8 + d - 0x100000000) mod 2 ^ 32 = (2 ^ 32 - 8 + d) mod 2 ^ 32"
      by (simp only: mod_mult_self1)
    then show ?thesis using that by simp
  qed
  ultimately show ?thesis
    using assms(1,4) by (auto simp: offset_in_def as_usize_def target_ok_def Let_def)
qed

lemma resolve_char:
  assumes "mem_ok t m" "1 \<le> n" "n \<le> 8"
  shows "(resolve t m a n :: ('b, pointer option) res) =
     (if 2 ^ 64 \<le> unat a + n then Inl Panic else Inr (locate m (unat a) n))"
proof (cases "2 ^ 64 \<le> unat a + n")
  case True
  have "in_range t a n (stack_base m) (of_nat (length (stack m))) =
      (if overflow_checks t then Inl Panic else Inr True :: ('b, bool) res)"
    using assms True by (intro in_range_overflow) (auto simp: mem_ok_def word_le_nat_alt)
  moreover have "offset_in t a (stack_base m) (stack m) = (Inl Panic :: ('b, nat) res)"
    using assms True by (intro offset_in_beyond) (auto simp: mem_ok_def)
  ultimately show ?thesis using True by (auto simp: resolve_def Let_def)
next
  case False
  then have r: "in_range t a n b (of_nat (length v)) =
      Inr (unat b \<le> unat a \<and> unat a + n \<le> unat b + length v)"
    if "unat b + length v < 2 ^ 64" for b and v :: "u8 list"
    using that by (intro in_range_no_overflow) auto
  show ?thesis
    using assms False
    by (auto simp: resolve_def Let_def r mem_ok_def locate_def offset_in_ok)
qed

text \<open>The two regions, by the flag of a pointer.\<close>

definition region :: "memory \<Rightarrow> bool \<Rightarrow> u8 list" where
  "region m h = (if h then heap m else stack m)"

definition region_base :: "bool \<Rightarrow> nat" where
  "region_base h = (if h then 0x300000000 else 0x100000000)"

lemma locate_Some_iff:
  assumes "mem_ok t m" "1 \<le> n"
  shows "locate m a n = Some p \<longleftrightarrow>
     a = region_base (snd p) + fst p \<and> fst p + n \<le> length (region m (snd p))"
  using assms by (cases p) (auto simp: locate_def mem_ok_def region_def region_base_def)

section \<open>Memory as a partial map\<close>

definition mem_view :: "memory \<Rightarrow> nat \<Rightarrow> u8 option" where
  "mem_view m a = map_option (\<lambda>p. region m (snd p) ! fst p) (locate m a 1)"

lemma mem_view_Some_iff:
  assumes "mem_ok t m"
  shows "mem_view m a = Some b \<longleftrightarrow>
     (\<exists>h off. a = region_base h + off \<and> off < length (region m h) \<and> b = region m h ! off)"
  using assms by (auto simp: mem_view_def locate_Some_iff Suc_le_eq)

lemma mem_view_at:
  assumes "mem_ok t m" "off < length (region m h)"
  shows "mem_view m (region_base h + off) = Some (region m h ! off)"
  using assms by (auto simp: mem_view_Some_iff)

lemma region_base_inj:
  assumes "mem_ok t m" "off < length (region m h)" "off' < length (region m h')"
    and "region_base h + off = region_base h' + off'"
  shows "h' = h" "off' = off"
  using assms by (auto simp: mem_ok_def region_def region_base_def split: if_splits)

lemma mem_view_bound: "mem_ok t m \<Longrightarrow> mem_view m a \<noteq> None \<Longrightarrow> a < 0x400000000"
  by (auto simp: mem_view_Some_iff mem_ok_def region_def region_base_def)

text \<open>
  The two regions are apart (\<open>mem_ok\<close> keeps the stack below the heap base), so \<open>n\<close>
  consecutive addresses are in one region as soon as each of them is mapped.
\<close>

lemma locate_mapped:
  assumes "mem_ok t m" "1 \<le> n" "locate m a n = Some p"
  shows "mapped (mem_view m) a n"
    and "i < n \<Longrightarrow> mem_view m (a + i) = Some (region m (snd p) ! (fst p + i))"
proof -
  from assms have p: "a = region_base (snd p) + fst p" "fst p + n \<le> length (region m (snd p))"
    by (simp_all add: locate_Some_iff)
  then have v: "mem_view m (a + i) = Some (region m (snd p) ! (fst p + i))" if "i < n" for i
    using that mem_view_at [OF assms(1), of "fst p + i" "snd p"] by (simp add: add.assoc)
  then show "mapped (mem_view m) a n" by (simp add: mapped_def)
  show "i < n \<Longrightarrow> mem_view m (a + i) = Some (region m (snd p) ! (fst p + i))" by (rule v)
qed

lemma mapped_locate:
  assumes "mem_ok t m" "1 \<le> n" "n \<le> 8" "mapped (mem_view m) a n"
  shows "\<exists>p. locate m a n = Some p"
proof -
  have "0 < n" "n - 1 < n" using assms(2) by simp_all
  then have "mem_view m (a + 0) \<noteq> None" "mem_view m (a + (n - 1)) \<noteq> None"
    using assms(4) unfolding mapped_def by blast+
  then obtain h off h' off' where "a = region_base h + off" "off < length (region m h)"
      "a + (n - 1) = region_base h' + off'" "off' < length (region m h')"
    using assms(1) by (auto simp: mem_view_Some_iff)
  then have "locate m a n = Some (off, h)"
    using assms(1-3) by (auto simp: locate_Some_iff mem_ok_def region_def region_base_def split: if_splits)
  then show ?thesis ..
qed

lemma deref_view:
  assumes "mem_ok t m" "1 \<le> n" "locate m a n = Some p"
  shows "deref m p n = Inr (view_bytes (mem_view m) a n)"
proof -
  have b: "fst p + n \<le> length (region m (snd p))"
    using assms by (simp add: locate_Some_iff)
  have "take n (drop (fst p) (region m (snd p))) = view_bytes (mem_view m) a n"
    using b by (intro nth_equalityI) (auto simp: locate_mapped(2) [OF assms])
  then show ?thesis using b by (simp add: deref_def Let_def region_def)
qed

lemma read_le_char:
  assumes "mem_ok t m" "1 \<le> n" "n \<le> 8"
  shows "read_le n t m a =
     (if 2 ^ 64 \<le> unat a + n then Inl Panic
      else if mapped (mem_view m) (unat a) n
      then Inr (Some (from_le (view_bytes (mem_view m) (unat a) n)))
      else Inr None)"
proof (cases "locate m (unat a) n")
  case None
  then have "\<not> mapped (mem_view m) (unat a) n"
    using mapped_locate [OF assms, of "unat a"] by auto
  then show ?thesis using None by (simp add: read_le_def resolve_char [OF assms])
next
  case (Some p)
  then show ?thesis
    using locate_mapped(1) [OF assms(1,2) Some]
    by (simp add: read_le_def resolve_char [OF assms] deref_view [OF assms(1,2)])
qed

definition set_region :: "memory \<Rightarrow> bool \<Rightarrow> u8 list \<Rightarrow> memory" where
  "set_region m h v = (if h then m\<lparr>heap := v\<rparr> else m\<lparr>stack := v\<rparr>)"

lemma region_set_region [simp]:
  "region (set_region m h v) h' = (if h' = h then v else region m h')"
  by (simp add: region_def set_region_def)

lemma set_region_same_shape:
  "length v = length (region m h) \<Longrightarrow> same_shape m (set_region m h v)"
  by (auto simp: same_shape_def set_region_def region_def)

lemma mem_view_splice:
  assumes ok: "mem_ok t m" and b: "off + length bs \<le> length (region m h)"
  defines "m' \<equiv> set_region m h (splice off bs (region m h))"
  shows "mem_view m' = overlay (mem_view m) (region_base h + off) bs"
proof
  fix a
  have sh: "same_shape m m'" unfolding m'_def by (rule set_region_same_shape) (simp add: b)
  then have ok': "mem_ok t m'" by (rule mem_ok_same_shape [OF ok])
  have len: "length (region m' k) = length (region m k)" for k
    using b by (simp add: m'_def)
  show "mem_view m' a = overlay (mem_view m) (region_base h + off) bs a"
  proof (cases "\<exists>k o'. a = region_base k + o' \<and> o' < length (region m k)")
    case True
    then obtain k o' where a: "a = region_base k + o'" "o' < length (region m k)" by blast
    have l: "mem_view m' a = Some (region m' k ! o')"
      unfolding a(1) by (rule mem_view_at [OF ok']) (simp add: a len)
    have r: "mem_view m a = Some (region m k ! o')"
      unfolding a(1) by (rule mem_view_at [OF ok]) (rule a(2))
    have in_iff: "region_base h + off \<le> a \<and> a < region_base h + off + length bs \<longleftrightarrow>
        k = h \<and> off \<le> o' \<and> o' < off + length bs"
      using a b ok by (auto simp: mem_ok_def region_def region_base_def split: if_splits)
    show ?thesis
      using l r in_iff a b by (auto simp: overlay_def m'_def nth_splice)
  next
    case False
    then have "mem_view m' a = None" "mem_view m a = None"
      using mem_view_Some_iff [OF ok', of a] mem_view_Some_iff [OF ok, of a] len
      by (metis not_None_eq)+
    then show ?thesis by (simp add: overlay_def)
  qed
qed

lemma store_view:
  assumes "mem_ok t m" "bs \<noteq> []" "locate m a (length bs) = Some p"
  shows "\<exists>m'. store m p bs = Inr m' \<and> same_shape m m' \<and> mem_view m' = overlay (mem_view m) a bs"
proof -
  have p: "a = region_base (snd p) + fst p" "fst p + length bs \<le> length (region m (snd p))"
    using assms by (simp_all add: locate_Some_iff Suc_le_eq)
  let ?m' = "set_region m (snd p) (splice (fst p) bs (region m (snd p)))"
  have "store m p bs = Inr ?m'"
    using p(2) by (auto simp: store_def Let_def region_def set_region_def)
  moreover have "same_shape m ?m'" by (rule set_region_same_shape) (simp add: p)
  moreover have "mem_view ?m' = overlay (mem_view m) a bs"
    unfolding p(1) by (rule mem_view_splice [OF assms(1) p(2)])
  ultimately show ?thesis by blast
qed

lemma write_le_char:
  fixes v :: "'a::len word"
  assumes "mem_ok t m" "1 \<le> n" "n \<le> 8"
  shows "2 ^ 64 \<le> unat a + n \<Longrightarrow> (write_le n t m a v :: ('e, memory option) res) = Inl Panic"
    and "unat a + n < 2 ^ 64 \<Longrightarrow> mapped (mem_view m) (unat a) n \<Longrightarrow>
       \<exists>m'. (write_le n t m a v :: ('e, memory option) res) = Inr (Some m') \<and> same_shape m m' \<and>
            mem_view m' = overlay (mem_view m) (unat a) (to_le n v)"
    and "unat a + n < 2 ^ 64 \<Longrightarrow> \<not> mapped (mem_view m) (unat a) n \<Longrightarrow>
       (write_le n t m a v :: ('e, memory option) res) = Inr None"
proof -
  note w = write_le_def resolve_mut_eq resolve_char [OF assms]
  show "2 ^ 64 \<le> unat a + n \<Longrightarrow> (write_le n t m a v :: ('e, memory option) res) = Inl Panic"
    by (simp add: w)
  show "\<exists>m'. (write_le n t m a v :: ('e, memory option) res) = Inr (Some m') \<and> same_shape m m' \<and>
      mem_view m' = overlay (mem_view m) (unat a) (to_le n v)"
    if lt: "unat a + n < 2 ^ 64" and mp: "mapped (mem_view m) (unat a) n"
  proof -
    obtain p where p: "locate m (unat a) n = Some p"
      using mapped_locate [OF assms mp] by blast
    have "to_le n v \<noteq> []" using assms(2) by (metis length_to_le list.size(3) not_one_le_zero)
    then obtain m' where "store m p (to_le n v) = (Inr m' :: ('e, memory) res)" "same_shape m m'"
        "mem_view m' = overlay (mem_view m) (unat a) (to_le n v)"
      using store_view [OF assms(1), of "to_le n v" "unat a" p] p by auto
    then show ?thesis using lt p by (simp add: w)
  qed
  show "unat a + n < 2 ^ 64 \<Longrightarrow> \<not> mapped (mem_view m) (unat a) n \<Longrightarrow>
      (write_le n t m a v :: ('e, memory option) res) = Inr None"
    using locate_mapped(1) [OF assms(1,2), of "unat a"]
    by (cases "locate m (unat a) n") (auto simp: w)
qed

text \<open>The same in terms of regions and offsets, for symbolic execution of concrete programs.\<close>

lemma read_le_at:
  assumes "mem_ok t m" "1 \<le> n" "n \<le> 8" "unat a = region_base h + k"
    "k + n \<le> length (region m h)"
  shows "read_le n t m a = Inr (Some (from_le (take n (drop k (region m h)))))"
proof -
  have l: "locate m (unat a) n = Some (k, h)"
    using assms by (simp add: locate_Some_iff [OF assms(1,2)])
  have lt: "unat a + n < 2 ^ 64"
    using assms by (auto simp: mem_ok_def region_def region_base_def split: if_splits)
  show ?thesis
    using lt assms(5) by (simp add: read_le_def resolve_char [OF assms(1-3)] l deref_def region_def)
qed

lemma write_le_at:
  assumes "mem_ok t m" "1 \<le> n" "n \<le> 8" "unat a = region_base h + k"
    "k + n \<le> length (region m h)"
  shows "write_le n t m a v = Inr (Some (set_region m h (splice k (to_le n v) (region m h))))"
proof -
  have l: "locate m (unat a) n = Some (k, h)"
    using assms by (simp add: locate_Some_iff [OF assms(1,2)])
  have lt: "unat a + n < 2 ^ 64"
    using assms by (auto simp: mem_ok_def region_def region_base_def split: if_splits)
  show ?thesis
    using lt assms(5) by (simp add: write_le_def resolve_mut_eq resolve_char [OF assms(1-3)] l
        store_def region_def set_region_def)
qed

text \<open>The interpreter's memory is a byte store.\<close>

interpretation vm_mem: byte_store "read_u8 t" "write_u8 t" mem_view "mem_ok t" for t
proof unfold_locales
  fix m and a :: u64
  assume "mem_ok t m" "unat a + 1 < 2 ^ 64"
  then show "read_u8 t m a = Inr (mem_view m (unat a))"
    by (cases "mem_view m (unat a)") (auto simp: read_u8_def read_le_char view_bytes_def)
next
  fix m and a :: u64 and v
  assume "mem_ok t m" "unat a + 1 < 2 ^ 64" "mem_view m (unat a) \<noteq> None"
  then show "\<exists>m'. write_u8 t m a v = Inr (Some m') \<and> mem_ok t m' \<and>
      mem_view m' = (mem_view m)(unat a \<mapsto> v)"
    using write_le_char(2) [of t m 1 a v] unfolding write_u8_def
    by (auto simp: overlay_single intro: mem_ok_same_shape)
next
  fix m and a :: u64 and v
  assume "mem_ok t m" "unat a + 1 < 2 ^ 64" "mem_view m (unat a) = None"
  then show "write_u8 t m a v = Inr None"
    using write_le_char(3) [of t m 1 a v] unfolding write_u8_def by auto
qed

section \<open>What the interpreter needs of an access\<close>

lemma store_same_shape: "store m p bs = Inr m' \<Longrightarrow> same_shape m m'"
  by (auto simp: store_def Let_def same_shape_def split: if_splits)

lemma write_le_same_shape:
  assumes "write_le n t m a v = Inr (Some m')"
  shows "same_shape m m'"
  using assms by (fastforce simp: write_le_def bind_res_Inr_iff intro: store_same_shape split: option.splits)

lemma read_le_safe:
  assumes "mem_ok t m" "1 \<le> n" "n \<le> 8"
  shows "only_panics (read_le n t m a)"
  by (simp add: read_le_char [OF assms])

lemma write_le_cases:
  fixes v :: "'a::len word" and w :: "('e, memory option) res"
  assumes "mem_ok t m" "1 \<le> n" "n \<le> 8" "write_le n t m a v = w"
  obtains (panic) "2 ^ 64 \<le> unat a + n" "w = Inl Panic"
  | (written) m' where "unat a + n < 2 ^ 64" "mapped (mem_view m) (unat a) n" "w = Inr (Some m')"
      "same_shape m m'" "mem_view m' = overlay (mem_view m) (unat a) (to_le n v)"
  | (refused) "unat a + n < 2 ^ 64" "\<not> mapped (mem_view m) (unat a) n" "w = Inr None"
proof (cases "2 ^ 64 \<le> unat a + n")
  case True
  then have "w = Inl Panic"
    unfolding assms(4) [symmetric] by (rule write_le_char(1) [OF assms(1-3)])
  with True show ?thesis by (rule panic)
next
  case False
  then have lt: "unat a + n < 2 ^ 64" by simp
  show ?thesis
  proof (cases "mapped (mem_view m) (unat a) n")
    case True
    have "\<exists>m'. w = Inr (Some m') \<and> same_shape m m' \<and>
        mem_view m' = overlay (mem_view m) (unat a) (to_le n v)"
      unfolding assms(4) [symmetric] by (rule write_le_char(2) [OF assms(1-3) lt True])
    then obtain m' where "w = Inr (Some m')" "same_shape m m'"
        "mem_view m' = overlay (mem_view m) (unat a) (to_le n v)" by blast
    with lt True show ?thesis by (rule written)
  next
    case False
    then have "w = Inr None"
      unfolding assms(4) [symmetric] by (rule write_le_char(3) [OF assms(1-3) lt])
    with lt False show ?thesis by (rule refused)
  qed
qed

lemma write_le_safe:
  assumes "mem_ok t m" "1 \<le> n" "n \<le> 8"
  shows "only_panics (write_le n t m a v)"
proof -
  have "only_panics w" if "write_le n t m a v = w" for w :: "('c, memory option) res"
    using that by (rule write_le_cases [OF assms]) simp_all
  then show ?thesis by blast
qed

lemma write_le_mem_ok:
  assumes "mem_ok t m" "write_le n t m a v = Inr w"
  shows "mem_ok t (unwrap_or m w)"
  using assms by (cases w) (auto intro: mem_ok_same_shape write_le_same_shape)

text \<open>Reading back what was written, and what lies outside it.\<close>

lemma read_write_le:
  fixes v :: "'a::len word"
  assumes "mem_ok t m" "1 \<le> n" "n \<le> 8" "write_le n t m a v = Inr (Some m')"
  shows "read_le n t m' a = Inr (Some (take_bit (8 * n) v))"
proof (rule write_le_cases [OF assms])
  fix m''
  assume w: "unat a + n < 2 ^ 64" "mapped (mem_view m) (unat a) n" "Inr (Some m') = Inr (Some m'')"
    "same_shape m m''" "mem_view m'' = overlay (mem_view m) (unat a) (to_le n v)"
  then have ok': "mem_ok t m'" and v: "mem_view m' = overlay (mem_view m) (unat a) (to_le n v)"
    using mem_ok_same_shape [OF assms(1)] by simp_all
  have "view_bytes (mem_view m') (unat a) n = to_le n v"
    using view_bytes_overlay_same [of "mem_view m" "unat a" "to_le n v"] w(2) v by simp
  moreover have "mapped (mem_view m') (unat a) n" using w(2) v by simp
  ultimately show ?thesis
    using w(1) by (simp add: read_le_char [OF ok' assms(2,3)] from_le_to_le)
qed simp_all

lemma read_le_other:
  fixes v :: "'a::len word"
  assumes "mem_ok t m" "1 \<le> n" "n \<le> 8" "write_le n t m a v = Inr (Some m')"
    and "1 \<le> k" "k \<le> 8" "unat b + k \<le> unat a \<or> unat a + n \<le> unat b"
  shows "read_le k t m' b = read_le k t m b"
proof (rule write_le_cases [OF assms(1-4)])
  fix m''
  assume w: "unat a + n < 2 ^ 64" "mapped (mem_view m) (unat a) n" "Inr (Some m') = Inr (Some m'')"
    "same_shape m m''" "mem_view m'' = overlay (mem_view m) (unat a) (to_le n v)"
  then have ok': "mem_ok t m'" and v: "mem_view m' = overlay (mem_view m) (unat a) (to_le n v)"
    using mem_ok_same_shape [OF assms(1)] by simp_all
  show ?thesis
    using assms(7) by (simp add: read_le_char [OF ok' assms(5,6)]
        read_le_char [OF assms(1,5,6)] view_bytes_overlay_disjoint v)
qed simp_all

end
