(* ===== verification/Sbpf_Syscalls.thy ===== *)
theory Sbpf_Syscalls
  imports Sbpf_Memory
begin

text \<open>
  The syscall surface of the interpreter (\<open>trait Syscalls\<close>) and its two implementations:
  \<open>GuestSyscalls\<close> of \<open>m6-interpreter/zkvm-guest/src/main.rs\<close> and
  \<open>StubSyscalls\<close> of \<open>m6-interpreter/conformance/src/main.rs\<close>. Both implementors are unit
  structs, so the \<open>&mut self\<close> of the trait carries no state. The locale states what the
  interpreter relies on; it is interpreted for both implementations.
\<close>

section \<open>The trait and its implementations\<close>

record syscalls =
  sol_log :: "u8 list \<Rightarrow> (sbpf_error, unit) res"
  sol_panic :: "u8 list \<Rightarrow> u64 \<Rightarrow> u64 \<Rightarrow> (sbpf_error, unit) res"
  sol_memcpy :: "u64 \<Rightarrow> u64 \<Rightarrow> u64 \<Rightarrow> memory \<Rightarrow> (sbpf_error, memory) res"
  sol_memset :: "u64 \<Rightarrow> u8 \<Rightarrow> u64 \<Rightarrow> memory \<Rightarrow> (sbpf_error, memory) res"
  sol_memmove :: "u64 \<Rightarrow> u64 \<Rightarrow> u64 \<Rightarrow> memory \<Rightarrow> (sbpf_error, memory) res"

definition guest_memcpy :: "target \<Rightarrow> u64 \<Rightarrow> u64 \<Rightarrow> u64 \<Rightarrow> memory \<Rightarrow> (sbpf_error, memory) res" where
  "guest_memcpy t d s n m = copy_bytes (read_u8 t) (write_u8 t) t d s (unat n) 0 m"

definition guest_memset :: "target \<Rightarrow> u64 \<Rightarrow> u8 \<Rightarrow> u64 \<Rightarrow> memory \<Rightarrow> (sbpf_error, memory) res" where
  "guest_memset t d v n m = fill_bytes (write_u8 t) t d v (unat n) 0 m"

definition guest_memmove :: "target \<Rightarrow> u64 \<Rightarrow> u64 \<Rightarrow> u64 \<Rightarrow> memory \<Rightarrow> (sbpf_error, memory) res" where
  "guest_memmove t d s n m =
     bind_res (with_capacity t (unat n)) (\<lambda>_.
     bind_res (fetch_bytes (read_u8 t) t m s (unat n) 0) (\<lambda>bytes.
       store_bytes (write_u8 t) t d bytes 0 m))"

definition guest_syscalls :: "target \<Rightarrow> syscalls" where
  "guest_syscalls t =
     \<lparr>sol_log = (\<lambda>_. Inr ()), sol_panic = (\<lambda>_ _ _. Inl Panic),
      sol_memcpy = guest_memcpy t, sol_memset = guest_memset t, sol_memmove = guest_memmove t\<rparr>"

definition stub_memcpy :: "target \<Rightarrow> u64 \<Rightarrow> u64 \<Rightarrow> u64 \<Rightarrow> memory \<Rightarrow> (sbpf_error, memory) res" where
  "stub_memcpy t d s n m =
     bind_res (with_capacity t (unat n)) (\<lambda>_.
     bind_res (fetch_bytes (read_u8 t) t m s (unat n) 0) (\<lambda>b.
       store_bytes (write_u8 t) t d b 0 m))"

definition stub_memset :: "target \<Rightarrow> u64 \<Rightarrow> u8 \<Rightarrow> u64 \<Rightarrow> memory \<Rightarrow> (sbpf_error, memory) res" where
  "stub_memset t d v n m = fill_bytes (write_u8 t) t d v (unat n) 0 m"

definition stub_memmove :: "target \<Rightarrow> u64 \<Rightarrow> u64 \<Rightarrow> u64 \<Rightarrow> memory \<Rightarrow> (sbpf_error, memory) res" where
  "stub_memmove t d s n m =
     bind_res (with_capacity t (unat n)) (\<lambda>_.
     bind_res (fetch_bytes (read_u8 t) t m s (unat n) 0) (\<lambda>b.
       store_bytes (write_u8 t) t d b 0 m))"

definition stub_syscalls :: "target \<Rightarrow> syscalls" where
  "stub_syscalls t =
     \<lparr>sol_log = (\<lambda>_. Inr ()), sol_panic = (\<lambda>_ _ _. Inl Panic),
      sol_memcpy = stub_memcpy t, sol_memset = stub_memset t, sol_memmove = stub_memmove t\<rparr>"

section \<open>The byte loops on the interpreter's memory\<close>

text \<open>An operation on memory that at worst panics and keeps bases and lengths.\<close>

definition mem_safe :: "memory \<Rightarrow> ('e, memory) res \<Rightarrow> bool" where
  "mem_safe m r \<longleftrightarrow> only_panics r \<and> (\<forall>m'. r = Inr m' \<longrightarrow> same_shape m m')"

lemma mem_safe_Inr [simp]: "mem_safe m (Inr m') \<longleftrightarrow> same_shape m m'"
  by (simp add: mem_safe_def)

lemma mem_safe_bind:
  assumes "only_panics r" and "\<And>a. r = Inr a \<Longrightarrow> mem_safe m (f a)"
  shows "mem_safe m (bind_res r f)"
  using assms by (cases r) (auto simp: mem_safe_def)

lemma mem_safe_trans: "same_shape m m1 \<Longrightarrow> mem_safe m1 r \<Longrightarrow> mem_safe m r"
  by (auto simp: mem_safe_def intro: same_shape_trans)

lemma write_u8_keeps:
  assumes "mem_ok t m" "write_u8 t m a v = Inr w"
  shows "mem_ok t (unwrap_or m w)" "same_shape m (unwrap_or m w)"
proof -
  show "same_shape m (unwrap_or m w)"
    using assms(2) by (cases w) (auto simp: write_u8_def intro: write_le_same_shape)
  then show "mem_ok t (unwrap_or m w)" by (rule mem_ok_same_shape [OF assms(1)])
qed

lemma u8_safe:
  assumes "mem_ok t m"
  shows "only_panics (read_u8 t m a)" and "only_panics (write_u8 t m a v)"
  using read_le_safe [OF assms, of 1] write_le_safe [OF assms, of 1]
  by (simp_all add: read_u8_def write_u8_def)

lemma store_bytes_safe: "mem_ok t m \<Longrightarrow> mem_safe m (store_bytes (write_u8 t) t d bs i m)"
proof (induction bs arbitrary: i m)
  case (Cons b bs)
  then show ?case
    by (auto intro!: mem_safe_bind u8_safe intro: mem_safe_trans Cons.IH write_u8_keeps)
qed simp

lemma copy_bytes_safe: "mem_ok t m \<Longrightarrow> mem_safe m (copy_bytes (read_u8 t) (write_u8 t) t d s k i m)"
proof (induction k arbitrary: i m)
  case (Suc k)
  then show ?case
    by (auto intro!: mem_safe_bind u8_safe intro: mem_safe_trans Suc.IH write_u8_keeps)
qed simp

lemma fetch_bytes_safe: "mem_ok t m \<Longrightarrow> only_panics (fetch_bytes (read_u8 t) t m s k i)"
  by (induction k arbitrary: i) (auto intro!: only_panics_bind simp: u8_safe)

lemma buffered_copy_safe:
  assumes "mem_ok t m"
  shows "mem_safe m (bind_res (with_capacity t k) (\<lambda>_.
     bind_res (fetch_bytes (read_u8 t) t m s k 0) (\<lambda>bs. store_bytes (write_u8 t) t d bs 0 m)))"
  using assms by (auto intro!: mem_safe_bind fetch_bytes_safe store_bytes_safe)

lemma buffered_copy_overlay:
  assumes "mem_ok t m" "unat s + k < 2 ^ 64" "unat d + k < 2 ^ 64" "k < 2 ^ (usize_bits t - 1)"
  shows "\<exists>m'. bind_res (with_capacity t k) (\<lambda>_.
       bind_res (fetch_bytes (read_u8 t) t m s k 0) (\<lambda>bs. store_bytes (write_u8 t) t d bs 0 m)) = Inr m' \<and>
     mem_ok t m' \<and> mem_view m' = overlay (mem_view m) (unat d) (view_bytes (mem_view m) (unat s) k)"
  using assms vm_mem.store_bytes_overlay [of t m d 0 "view_bytes (mem_view m) (unat s) k" t]
  by (simp add: with_capacity_def vm_mem.fetch_bytes_view)

section \<open>What the interpreter relies on\<close>

locale safe_syscalls =
  fixes t :: target and sys :: syscalls
  assumes memcpy_safe: "mem_ok t m \<Longrightarrow> mem_safe m (sol_memcpy sys d s n m)"
    and memset_safe: "mem_ok t m \<Longrightarrow> mem_safe m (sol_memset sys d v n m)"
    and memmove_safe: "mem_ok t m \<Longrightarrow> mem_safe m (sol_memmove sys d s n m)"

text \<open>
  The full contract: within the address space, \<open>memmove\<close> writes the bytes the source held
  before the call, \<open>memset\<close> a constant, and \<open>memcpy\<close> agrees with \<open>memmove\<close> on
  ranges that do not overlap.
\<close>

locale copying_syscalls = safe_syscalls +
  assumes memmove_copies:
    "mem_ok t m \<Longrightarrow> unat s + unat n < 2 ^ 64 \<Longrightarrow> unat d + unat n < 2 ^ 64 \<Longrightarrow>
     unat n < 2 ^ (usize_bits t - 1) \<Longrightarrow>
     \<exists>m'. sol_memmove sys d s n m = Inr m' \<and> mem_ok t m' \<and>
       mem_view m' = overlay (mem_view m) (unat d) (view_bytes (mem_view m) (unat s) (unat n))"
    and memset_fills:
    "mem_ok t m \<Longrightarrow> unat d + unat n < 2 ^ 64 \<Longrightarrow>
     \<exists>m'. sol_memset sys d v n m = Inr m' \<and> mem_ok t m' \<and>
       mem_view m' = overlay (mem_view m) (unat d) (replicate (unat n) v)"
    and memcpy_copies:
    "mem_ok t m \<Longrightarrow> unat s + unat n < 2 ^ 64 \<Longrightarrow> unat d + unat n < 2 ^ 64 \<Longrightarrow>
     unat n < 2 ^ (usize_bits t - 1) \<Longrightarrow>
     unat d + unat n \<le> unat s \<or> unat s + unat n \<le> unat d \<Longrightarrow>
     \<exists>m'. sol_memcpy sys d s n m = Inr m' \<and> mem_ok t m' \<and>
       mem_view m' = overlay (mem_view m) (unat d) (view_bytes (mem_view m) (unat s) (unat n))"
begin

text \<open>Moving a mapped range puts its old bytes at the destination and nothing elsewhere.\<close>

lemma memmove_bytes:
  assumes "mem_ok t m" "unat s + unat n < 2 ^ 64" "unat d + unat n < 2 ^ 64"
    "unat n < 2 ^ (usize_bits t - 1)" "mapped (mem_view m) (unat d) (unat n)"
  shows "\<exists>m'. sol_memmove sys d s n m = Inr m' \<and>
     view_bytes (mem_view m') (unat d) (unat n) = view_bytes (mem_view m) (unat s) (unat n) \<and>
     (\<forall>a. a < unat d \<or> unat d + unat n \<le> a \<longrightarrow> mem_view m' a = mem_view m a)"
proof -
  obtain m' where m': "sol_memmove sys d s n m = Inr m'"
      "mem_view m' = overlay (mem_view m) (unat d) (view_bytes (mem_view m) (unat s) (unat n))"
    using memmove_copies [OF assms(1-4)] by blast
  have "view_bytes (mem_view m') (unat d) (unat n) = view_bytes (mem_view m) (unat s) (unat n)"
    unfolding m'(2)
    using view_bytes_overlay_same [of "mem_view m" "unat d" "view_bytes (mem_view m) (unat s) (unat n)"]
      assms(5) by simp
  moreover have "\<forall>a. a < unat d \<or> unat d + unat n \<le> a \<longrightarrow> mem_view m' a = mem_view m a"
    unfolding m'(2) by (auto simp: overlay_def)
  ultimately show ?thesis using m'(1) by blast
qed

lemma memset_bytes:
  assumes "mem_ok t m" "unat d + unat n < 2 ^ 64" "mapped (mem_view m) (unat d) (unat n)"
  shows "\<exists>m'. sol_memset sys d v n m = Inr m' \<and>
     view_bytes (mem_view m') (unat d) (unat n) = replicate (unat n) v \<and>
     (\<forall>a. a < unat d \<or> unat d + unat n \<le> a \<longrightarrow> mem_view m' a = mem_view m a)"
proof -
  obtain m' where m': "sol_memset sys d v n m = Inr m'"
      "mem_view m' = overlay (mem_view m) (unat d) (replicate (unat n) v)"
    using memset_fills [OF assms(1,2)] by blast
  have "view_bytes (mem_view m') (unat d) (unat n) = replicate (unat n) v"
    unfolding m'(2)
    using view_bytes_overlay_same [of "mem_view m" "unat d" "replicate (unat n) v"] assms(3) by simp
  moreover have "\<forall>a. a < unat d \<or> unat d + unat n \<le> a \<longrightarrow> mem_view m' a = mem_view m a"
    unfolding m'(2) by (auto simp: overlay_def)
  ultimately show ?thesis using m'(1) by blast
qed

end

interpretation guest_sys: copying_syscalls t "guest_syscalls t" for t
proof unfold_locales
  fix m :: memory and d s n v
  show "mem_ok t m \<Longrightarrow> mem_safe m (sol_memcpy (guest_syscalls t) d s n m)"
    by (simp add: guest_syscalls_def guest_memcpy_def copy_bytes_safe)
  show "mem_ok t m \<Longrightarrow> mem_safe m (sol_memset (guest_syscalls t) d v n m)"
    by (simp add: guest_syscalls_def guest_memset_def fill_bytes_eq_store store_bytes_safe)
  show "mem_ok t m \<Longrightarrow> mem_safe m (sol_memmove (guest_syscalls t) d s n m)"
    by (simp add: guest_syscalls_def guest_memmove_def buffered_copy_safe)
next
  fix m :: memory and d s n :: u64 and v
  assume m: "mem_ok t m" and d: "unat d + unat n < 2 ^ 64"
  show "\<exists>m'. sol_memset (guest_syscalls t) d v n m = Inr m' \<and> mem_ok t m' \<and>
      mem_view m' = overlay (mem_view m) (unat d) (replicate (unat n) v)"
    using vm_mem.fill_bytes_overlay [OF m d] by (simp add: guest_syscalls_def guest_memset_def)
  assume s: "unat s + unat n < 2 ^ 64" and c: "unat n < 2 ^ (usize_bits t - 1)"
  show "\<exists>m'. sol_memmove (guest_syscalls t) d s n m = Inr m' \<and> mem_ok t m' \<and>
      mem_view m' = overlay (mem_view m) (unat d) (view_bytes (mem_view m) (unat s) (unat n))"
    using buffered_copy_overlay [OF m s d c] by (simp add: guest_syscalls_def guest_memmove_def)
  assume "unat d + unat n \<le> unat s \<or> unat s + unat n \<le> unat d"
  then show "\<exists>m'. sol_memcpy (guest_syscalls t) d s n m = Inr m' \<and> mem_ok t m' \<and>
      mem_view m' = overlay (mem_view m) (unat d) (view_bytes (mem_view m) (unat s) (unat n))"
    using vm_mem.copy_bytes_overlay [OF m, of d 0 "unat n" s t] s d
    by (auto simp: guest_syscalls_def guest_memcpy_def)
qed

interpretation stub_sys: copying_syscalls t "stub_syscalls t" for t
proof unfold_locales
  fix m :: memory and d s n v
  show "mem_ok t m \<Longrightarrow> mem_safe m (sol_memcpy (stub_syscalls t) d s n m)"
    by (simp add: stub_syscalls_def stub_memcpy_def buffered_copy_safe)
  show "mem_ok t m \<Longrightarrow> mem_safe m (sol_memset (stub_syscalls t) d v n m)"
    by (simp add: stub_syscalls_def stub_memset_def fill_bytes_eq_store store_bytes_safe)
  show "mem_ok t m \<Longrightarrow> mem_safe m (sol_memmove (stub_syscalls t) d s n m)"
    by (simp add: stub_syscalls_def stub_memmove_def buffered_copy_safe)
next
  fix m :: memory and d s n :: u64 and v
  assume m: "mem_ok t m" and d: "unat d + unat n < 2 ^ 64"
  show "\<exists>m'. sol_memset (stub_syscalls t) d v n m = Inr m' \<and> mem_ok t m' \<and>
      mem_view m' = overlay (mem_view m) (unat d) (replicate (unat n) v)"
    using vm_mem.fill_bytes_overlay [OF m d] by (simp add: stub_syscalls_def stub_memset_def)
  assume s: "unat s + unat n < 2 ^ 64" and c: "unat n < 2 ^ (usize_bits t - 1)"
  show "\<exists>m'. sol_memmove (stub_syscalls t) d s n m = Inr m' \<and> mem_ok t m' \<and>
      mem_view m' = overlay (mem_view m) (unat d) (view_bytes (mem_view m) (unat s) (unat n))"
    using buffered_copy_overlay [OF m s d c] by (simp add: stub_syscalls_def stub_memmove_def)
  show "\<exists>m'. sol_memcpy (stub_syscalls t) d s n m = Inr m' \<and> mem_ok t m' \<and>
      mem_view m' = overlay (mem_view m) (unat d) (view_bytes (mem_view m) (unat s) (unat n))"
    using buffered_copy_overlay [OF m s d c] by (simp add: stub_syscalls_def stub_memcpy_def)
qed

end
