(* ===== verification/Sbpf_Vm.thy ===== *)
theory Sbpf_Vm
  imports Sbpf_Syscalls
begin

text \<open>
  The sBPF interpreter (\<open>struct Vm\<close> of \<open>m6-interpreter/interpreter/src/lib.rs\<close>):
  instruction decoding, one definition per group of \<open>match\<close> arms of \<open>Vm::run\<close> in the
  order of the source, the syscall dispatch, one turn of the loop (\<open>step\<close>) and the loop
  itself (\<open>run\<close>, with a fuelled twin).
\<close>

section \<open>Instruction decode\<close>

record insn =
  opcode :: u8
  dst :: nat
  src :: nat
  off :: u16
  imm :: u32

definition decode :: "u64 \<Rightarrow> insn" where
  "decode word =
     \<lparr>opcode = ucast (word AND 0xFF),
      dst = unat (drop_bit 8 word AND 0x0F),
      src = unat (drop_bit 12 word AND 0x0F),
      off = ucast (drop_bit 16 word AND 0xFFFF),
      imm = ucast (drop_bit 32 word)\<rparr>"

text \<open>The casts \<open>i.imm as u64\<close> and \<open>i.off as u64\<close> of signed fields sign-extend.\<close>

abbreviation imm64 :: "insn \<Rightarrow> u64" where "imm64 i \<equiv> scast (imm i)"
abbreviation off64 :: "insn \<Rightarrow> u64" where "off64 i \<equiv> scast (off i)"

section \<open>State\<close>

definition MAX_CALL_DEPTH :: nat where "MAX_CALL_DEPTH = 64"

record vm =
  regs :: "u64 list"
  pc :: nat
  call_stack :: "(nat \<times> u64 list) list"
  mem :: memory
  return_data :: "u8 list"

definition Vm_new :: "target \<Rightarrow> memory \<Rightarrow> (sbpf_error, vm) res" where
  "Vm_new t m =
     bind_res (add_u64 t (stack_base m) (of_nat (length (stack m)))) (\<lambda>sp.
     Inr \<lparr>regs = (replicate 11 0)[10 := sp], pc = 0, call_stack = [], mem = m, return_data = []\<rparr>)"

text \<open>Indexing the array of eleven registers; out of range it panics.\<close>

definition get_reg :: "vm \<Rightarrow> nat \<Rightarrow> (sbpf_error, u64) res" where
  "get_reg vm k = (if k < length (regs vm) then Inr (regs vm ! k) else Inl Panic)"

definition set_reg :: "vm \<Rightarrow> nat \<Rightarrow> u64 \<Rightarrow> (sbpf_error, vm) res" where
  "set_reg vm k v =
     (if k < length (regs vm) then Inr (vm\<lparr>regs := (regs vm)[k := v]\<rparr>) else Inl Panic)"

definition with_src :: "insn \<Rightarrow> vm \<Rightarrow> (u64 \<Rightarrow> (sbpf_error, 'a) res) \<Rightarrow> (sbpf_error, 'a) res" where
  "with_src i vm f = bind_res (get_reg vm (src i)) f"

definition with_dst :: "insn \<Rightarrow> vm \<Rightarrow> (u64 \<Rightarrow> (sbpf_error, 'a) res) \<Rightarrow> (sbpf_error, 'a) res" where
  "with_dst i vm f = bind_res (get_reg vm (dst i)) f"

definition upd64 :: "(u64 \<Rightarrow> u64) \<Rightarrow> insn \<Rightarrow> vm \<Rightarrow> (sbpf_error, vm) res" where
  "upd64 f i vm = with_dst i vm (\<lambda>d. set_reg vm (dst i) (f d))"

definition upd32 :: "(u32 \<Rightarrow> u32) \<Rightarrow> insn \<Rightarrow> vm \<Rightarrow> (sbpf_error, vm) res" where
  "upd32 f i vm = with_dst i vm (\<lambda>d. set_reg vm (dst i) (ucast (f (ucast d))))"

section \<open>The arms of the interpreter loop\<close>

text \<open>
  Each definition holds the arms under one heading of the source; \<open>None\<close> means that the
  opcode is not one of them, so that matching goes on to the next group.
\<close>

type_synonym arm = "(sbpf_error, vm) res option"

definition exec_mov :: "insn \<Rightarrow> vm \<Rightarrow> arm" where
  "exec_mov i vm =
     (if opcode i = 0xB7 then Some (set_reg vm (dst i) (imm64 i))
      else if opcode i = 0xBF then Some (with_src i vm (\<lambda>s. set_reg vm (dst i) s))
      else if opcode i = 0xB4 then Some (set_reg vm (dst i) (ucast (imm i)))
      else if opcode i = 0xBC then Some (with_src i vm (\<lambda>s. set_reg vm (dst i) (ucast (ucast s :: u32))))
      else None)"

definition exec_lddw :: "u64 list \<Rightarrow> insn \<Rightarrow> vm \<Rightarrow> arm" where
  "exec_lddw text i vm =
     (if opcode i = 0x18 then Some
        (let lo = imm64 i in
         if length text \<le> pc vm then Inl (Fault (OutOfBounds (pc vm)))
         else let hi_word = text ! pc vm; hi = drop_bit 32 hi_word
              in set_reg (vm\<lparr>pc := pc vm + 1\<rparr>) (dst i) (push_bit 32 hi OR lo))
      else None)"

definition exec_add :: "insn \<Rightarrow> vm \<Rightarrow> arm" where
  "exec_add i vm =
     (if opcode i = 0x07 then Some (upd64 (\<lambda>d. d + imm64 i) i vm)
      else if opcode i = 0x0F then Some (with_src i vm (\<lambda>s. upd64 (\<lambda>d. d + s) i vm))
      else if opcode i = 0x04 then Some (upd32 (\<lambda>d. d + imm i) i vm)
      else if opcode i = 0x0C then Some (with_src i vm (\<lambda>s. upd32 (\<lambda>d. d + ucast s) i vm))
      else None)"

definition exec_sub :: "insn \<Rightarrow> vm \<Rightarrow> arm" where
  "exec_sub i vm =
     (if opcode i = 0x17 then Some (upd64 (\<lambda>d. d - imm64 i) i vm)
      else if opcode i = 0x1F then Some (with_src i vm (\<lambda>s. upd64 (\<lambda>d. d - s) i vm))
      else if opcode i = 0x14 then Some (upd32 (\<lambda>d. d - imm i) i vm)
      else if opcode i = 0x1C then Some (with_src i vm (\<lambda>s. upd32 (\<lambda>d. d - ucast s) i vm))
      else None)"

definition exec_mul :: "insn \<Rightarrow> vm \<Rightarrow> arm" where
  "exec_mul i vm =
     (if opcode i = 0x27 then Some (upd64 (\<lambda>d. d * imm64 i) i vm)
      else if opcode i = 0x2F then Some (with_src i vm (\<lambda>s. upd64 (\<lambda>d. d * s) i vm))
      else if opcode i = 0x24 then Some (upd32 (\<lambda>d. d * imm i) i vm)
      else if opcode i = 0x2C then Some (with_src i vm (\<lambda>s. upd32 (\<lambda>d. d * ucast s) i vm))
      else None)"

definition exec_div :: "insn \<Rightarrow> vm \<Rightarrow> arm" where
  "exec_div i vm =
     (if opcode i = 0x37 then Some
        (if imm64 i = 0 then Inl (Fault DivisionByZero) else upd64 (\<lambda>d. d div imm64 i) i vm)
      else if opcode i = 0x3F then Some (with_src i vm (\<lambda>s.
        if s = 0 then Inl (Fault DivisionByZero) else upd64 (\<lambda>d. d div s) i vm))
      else if opcode i = 0x34 then Some
        (if imm i = 0 then Inl (Fault DivisionByZero) else upd32 (\<lambda>d. d div imm i) i vm)
      else if opcode i = 0x3C then Some (with_src i vm (\<lambda>s.
        if (ucast s :: u32) = 0 then Inl (Fault DivisionByZero) else upd32 (\<lambda>d. d div ucast s) i vm))
      else None)"

definition exec_mod :: "insn \<Rightarrow> vm \<Rightarrow> arm" where
  "exec_mod i vm =
     (if opcode i = 0x97 then Some
        (if imm64 i = 0 then Inl (Fault DivisionByZero) else upd64 (\<lambda>d. d mod imm64 i) i vm)
      else if opcode i = 0x9F then Some (with_src i vm (\<lambda>s.
        if s = 0 then Inl (Fault DivisionByZero) else upd64 (\<lambda>d. d mod s) i vm))
      else None)"

text \<open>
  Negation of a signed value: it overflows at the least value, where it panics with
  overflow checks and wraps without. The 32-bit result is cast from \<open>i32\<close> to \<open>u64\<close>,
  which sign-extends.
\<close>

definition exec_neg :: "target \<Rightarrow> insn \<Rightarrow> vm \<Rightarrow> arm" where
  "exec_neg t i vm =
     (if opcode i = 0x87 then Some (with_dst i vm (\<lambda>d.
        if overflow_checks t \<and> d = 0x8000000000000000 then Inl Panic
        else set_reg vm (dst i) (- d)))
      else if opcode i = 0x84 then Some (with_dst i vm (\<lambda>d.
        if overflow_checks t \<and> (ucast d :: u32) = 0x80000000 then Inl Panic
        else set_reg vm (dst i) (scast (- (ucast d :: u32)))))
      else None)"

definition exec_or :: "insn \<Rightarrow> vm \<Rightarrow> arm" where
  "exec_or i vm =
     (if opcode i = 0x47 then Some (upd64 (\<lambda>d. d OR imm64 i) i vm)
      else if opcode i = 0x4F then Some (with_src i vm (\<lambda>s. upd64 (\<lambda>d. d OR s) i vm))
      else if opcode i = 0x44 then Some (upd32 (\<lambda>d. d OR imm i) i vm)
      else if opcode i = 0x4C then Some (with_src i vm (\<lambda>s. upd32 (\<lambda>d. d OR ucast s) i vm))
      else None)"

definition exec_and :: "insn \<Rightarrow> vm \<Rightarrow> arm" where
  "exec_and i vm =
     (if opcode i = 0x57 then Some (upd64 (\<lambda>d. d AND imm64 i) i vm)
      else if opcode i = 0x5F then Some (with_src i vm (\<lambda>s. upd64 (\<lambda>d. d AND s) i vm))
      else if opcode i = 0x54 then Some (upd32 (\<lambda>d. d AND imm i) i vm)
      else if opcode i = 0x5C then Some (with_src i vm (\<lambda>s. upd32 (\<lambda>d. d AND ucast s) i vm))
      else None)"

definition exec_xor :: "insn \<Rightarrow> vm \<Rightarrow> arm" where
  "exec_xor i vm =
     (if opcode i = 0xA7 then Some (upd64 (\<lambda>d. d XOR imm64 i) i vm)
      else if opcode i = 0xAF then Some (with_src i vm (\<lambda>s. upd64 (\<lambda>d. d XOR s) i vm))
      else if opcode i = 0xA4 then Some (upd32 (\<lambda>d. d XOR imm i) i vm)
      else if opcode i = 0xAC then Some (with_src i vm (\<lambda>s. upd32 (\<lambda>d. d XOR ucast s) i vm))
      else None)"

text \<open>Shift amounts are masked to six bits (64-bit shifts) or five (32-bit shifts).\<close>

abbreviation sh64 :: "u32 \<Rightarrow> nat" where "sh64 a \<equiv> unat (a AND 63)"
abbreviation sh32 :: "u32 \<Rightarrow> nat" where "sh32 a \<equiv> unat (a AND 31)"

definition exec_lsh :: "insn \<Rightarrow> vm \<Rightarrow> arm" where
  "exec_lsh i vm =
     (if opcode i = 0x67 then Some (upd64 (push_bit (sh64 (imm i))) i vm)
      else if opcode i = 0x6F then Some (with_src i vm (\<lambda>s. upd64 (push_bit (sh64 (ucast s))) i vm))
      else if opcode i = 0x64 then Some (upd32 (push_bit (sh32 (imm i))) i vm)
      else if opcode i = 0x6C then Some (with_src i vm (\<lambda>s. upd32 (push_bit (sh32 (ucast s))) i vm))
      else None)"

definition exec_rsh :: "insn \<Rightarrow> vm \<Rightarrow> arm" where
  "exec_rsh i vm =
     (if opcode i = 0x77 then Some (upd64 (drop_bit (sh64 (imm i))) i vm)
      else if opcode i = 0x7F then Some (with_src i vm (\<lambda>s. upd64 (drop_bit (sh64 (ucast s))) i vm))
      else if opcode i = 0x74 then Some (upd32 (drop_bit (sh32 (imm i))) i vm)
      else if opcode i = 0x7C then Some (with_src i vm (\<lambda>s. upd32 (drop_bit (sh32 (ucast s))) i vm))
      else None)"

text \<open>The 32-bit arithmetic shifts cast their \<open>i32\<close> result to \<open>u64\<close>: it is sign-extended.\<close>

definition exec_arsh :: "insn \<Rightarrow> vm \<Rightarrow> arm" where
  "exec_arsh i vm =
     (if opcode i = 0xC7 then Some (upd64 (signed_drop_bit (sh64 (imm i))) i vm)
      else if opcode i = 0xCF then Some (with_src i vm (\<lambda>s. upd64 (signed_drop_bit (sh64 (ucast s))) i vm))
      else if opcode i = 0xC4 then Some
        (upd64 (\<lambda>d. scast (signed_drop_bit (sh32 (imm i)) (ucast d :: u32))) i vm)
      else if opcode i = 0xCC then Some (with_src i vm (\<lambda>s.
        upd64 (\<lambda>d. scast (signed_drop_bit (sh32 (ucast s)) (ucast d :: u32))) i vm))
      else None)"

section \<open>Loads and stores\<close>

definition load_with ::
  "(memory \<Rightarrow> u64 \<Rightarrow> (sbpf_error, 'a::len word option) res) \<Rightarrow> nat \<Rightarrow> insn \<Rightarrow> vm \<Rightarrow> (sbpf_error, vm) res"
where
  "load_with rd n i vm =
     with_src i vm (\<lambda>s. let addr = s + off64 i in
       bind_res (rd (mem vm) addr) (\<lambda>r.
       bind_res (ok_or (InvalidMemoryAccess addr n) r) (\<lambda>v.
         set_reg vm (dst i) (ucast v))))"

definition exec_load :: "target \<Rightarrow> insn \<Rightarrow> vm \<Rightarrow> arm" where
  "exec_load t i vm =
     (if opcode i = 0x71 then Some (load_with (read_u8 t) 1 i vm)
      else if opcode i = 0x69 then Some (load_with (read_u16 t) 2 i vm)
      else if opcode i = 0x61 then Some (load_with (read_u32 t) 4 i vm)
      else if opcode i = 0x79 then Some (load_with (read_u64 t) 8 i vm)
      else None)"

definition store_with ::
  "(memory \<Rightarrow> u64 \<Rightarrow> 'a::len word \<Rightarrow> (sbpf_error, memory option) res) \<Rightarrow> nat \<Rightarrow> insn \<Rightarrow> vm \<Rightarrow>
   (sbpf_error, 'a word) res \<Rightarrow> (sbpf_error, vm) res"
where
  "store_with wr n i vm val =
     with_dst i vm (\<lambda>d. let addr = d + off64 i in
       bind_res val (\<lambda>v.
       bind_res (wr (mem vm) addr v) (\<lambda>r.
       bind_res (ok_or (InvalidMemoryAccess addr n) r) (\<lambda>m. Inr (vm\<lparr>mem := m\<rparr>)))))"

definition exec_store_reg :: "target \<Rightarrow> insn \<Rightarrow> vm \<Rightarrow> arm" where
  "exec_store_reg t i vm =
     (if opcode i = 0x73 then Some (store_with (write_u8 t) 1 i vm (with_src i vm (\<lambda>s. Inr (ucast s))))
      else if opcode i = 0x6B then Some (store_with (write_u16 t) 2 i vm (with_src i vm (\<lambda>s. Inr (ucast s))))
      else if opcode i = 0x63 then Some (store_with (write_u32 t) 4 i vm (with_src i vm (\<lambda>s. Inr (ucast s))))
      else if opcode i = 0x7B then Some (store_with (write_u64 t) 8 i vm (with_src i vm Inr))
      else None)"

definition exec_store_imm :: "target \<Rightarrow> insn \<Rightarrow> vm \<Rightarrow> arm" where
  "exec_store_imm t i vm =
     (if opcode i = 0x72 then Some (store_with (write_u8 t) 1 i vm (Inr (ucast (imm i))))
      else if opcode i = 0x6A then Some (store_with (write_u16 t) 2 i vm (Inr (ucast (imm i))))
      else if opcode i = 0x62 then Some (store_with (write_u32 t) 4 i vm (Inr (imm i)))
      else if opcode i = 0x7A then Some (store_with (write_u64 t) 8 i vm (Inr (imm64 i)))
      else None)"

section \<open>Jumps\<close>

text \<open>
  \<open>(self.pc as i64 + k as i64) as usize\<close>. The program counter is at most the length of
  the text, so the \<open>i64\<close> sum is exact; the cast back to \<open>usize\<close> truncates.
\<close>

definition pc_rel :: "target \<Rightarrow> nat \<Rightarrow> int \<Rightarrow> nat" where
  "pc_rel t p k = nat ((int p + k) mod 2 ^ usize_bits t)"

definition jump_if :: "target \<Rightarrow> bool \<Rightarrow> insn \<Rightarrow> vm \<Rightarrow> (sbpf_error, vm) res" where
  "jump_if t c i vm = Inr (if c then vm\<lparr>pc := pc_rel t (pc vm) (sint (off i))\<rparr> else vm)"

definition jump_imm :: "target \<Rightarrow> (u64 \<Rightarrow> bool) \<Rightarrow> insn \<Rightarrow> vm \<Rightarrow> (sbpf_error, vm) res" where
  "jump_imm t p i vm = with_dst i vm (\<lambda>d. jump_if t (p d) i vm)"

definition jump_reg :: "target \<Rightarrow> (u64 \<Rightarrow> u64 \<Rightarrow> bool) \<Rightarrow> insn \<Rightarrow> vm \<Rightarrow> (sbpf_error, vm) res" where
  "jump_reg t p i vm = with_dst i vm (\<lambda>d. with_src i vm (\<lambda>s. jump_if t (p d s) i vm))"

definition exec_jump :: "target \<Rightarrow> insn \<Rightarrow> vm \<Rightarrow> arm" where
  "exec_jump t i vm =
     (if opcode i = 0x05 then Some (jump_if t True i vm)
      else if opcode i = 0x15 then Some (jump_imm t (\<lambda>d. d = imm64 i) i vm)
      else if opcode i = 0x1D then Some (jump_reg t (\<lambda>d s. d = s) i vm)
      else if opcode i = 0x55 then Some (jump_imm t (\<lambda>d. d \<noteq> imm64 i) i vm)
      else if opcode i = 0x5D then Some (jump_reg t (\<lambda>d s. d \<noteq> s) i vm)
      else if opcode i = 0x25 then Some (jump_imm t (\<lambda>d. d > imm64 i) i vm)
      else if opcode i = 0x2D then Some (jump_reg t (\<lambda>d s. d > s) i vm)
      else if opcode i = 0x35 then Some (jump_imm t (\<lambda>d. d \<ge> imm64 i) i vm)
      else if opcode i = 0x3D then Some (jump_reg t (\<lambda>d s. d \<ge> s) i vm)
      else if opcode i = 0xA5 then Some (jump_imm t (\<lambda>d. d < imm64 i) i vm)
      else if opcode i = 0xAD then Some (jump_reg t (\<lambda>d s. d < s) i vm)
      else if opcode i = 0xB5 then Some (jump_imm t (\<lambda>d. d \<le> imm64 i) i vm)
      else if opcode i = 0xBD then Some (jump_reg t (\<lambda>d s. d \<le> s) i vm)
      else if opcode i = 0x45 then Some (jump_imm t (\<lambda>d. d AND imm64 i \<noteq> 0) i vm)
      else if opcode i = 0x4D then Some (jump_reg t (\<lambda>d s. d AND s \<noteq> 0) i vm)
      else None)"

definition exec_jump_signed :: "target \<Rightarrow> insn \<Rightarrow> vm \<Rightarrow> arm" where
  "exec_jump_signed t i vm =
     (if opcode i = 0x65 then Some (jump_imm t (\<lambda>d. sint d > sint (imm i)) i vm)
      else if opcode i = 0x6D then Some (jump_reg t (\<lambda>d s. sint d > sint s) i vm)
      else if opcode i = 0x75 then Some (jump_imm t (\<lambda>d. sint d \<ge> sint (imm i)) i vm)
      else if opcode i = 0x7D then Some (jump_reg t (\<lambda>d s. sint d \<ge> sint s) i vm)
      else if opcode i = 0xC5 then Some (jump_imm t (\<lambda>d. sint d < sint (imm i)) i vm)
      else if opcode i = 0xCD then Some (jump_reg t (\<lambda>d s. sint d < sint s) i vm)
      else if opcode i = 0xD5 then Some (jump_imm t (\<lambda>d. sint d \<le> sint (imm i)) i vm)
      else if opcode i = 0xDD then Some (jump_reg t (\<lambda>d s. sint d \<le> sint s) i vm)
      else None)"

section \<open>Syscalls, calls and exit\<close>

definition dispatch_syscall :: "target \<Rightarrow> syscalls \<Rightarrow> u32 \<Rightarrow> vm \<Rightarrow> (sbpf_error, vm) res" where
  "dispatch_syscall t sys hash vm =
     (let r1 = get_reg vm 1; r2 = get_reg vm 2; r3 = get_reg vm 3
      in if hash = 0x686093bb then bind_res r1 (\<lambda>_. bind_res r2 (\<lambda>_. set_reg vm 0 0))
      else if hash = 0x52ba5096 then set_reg vm 0 0
      else if hash = 0xa92366c4 then
        bind_res r1 (\<lambda>d. bind_res r2 (\<lambda>s. bind_res r3 (\<lambda>n.
        bind_res (sol_memcpy sys d s n (mem vm)) (\<lambda>m. set_reg (vm\<lparr>mem := m\<rparr>) 0 0))))
      else if hash = 0x3770fb22 then
        bind_res r1 (\<lambda>d. bind_res r2 (\<lambda>v. bind_res r3 (\<lambda>n.
        bind_res (sol_memset sys d (ucast v) n (mem vm)) (\<lambda>m. set_reg (vm\<lparr>mem := m\<rparr>) 0 0))))
      else if hash = 0x0d667e63 then
        bind_res r1 (\<lambda>d. bind_res r2 (\<lambda>s. bind_res r3 (\<lambda>n.
        bind_res (sol_memmove sys d s n (mem vm)) (\<lambda>m. set_reg (vm\<lparr>mem := m\<rparr>) 0 0))))
      else if hash = 0x5b839aba \<or> hash = 5 then
        bind_res r1 (\<lambda>ptr. bind_res r2 (\<lambda>l. let len = as_usize t l in
        bind_res (with_capacity t len) (\<lambda>_.
        bind_res (fetch_bytes (read_u8 t) t (mem vm) ptr len 0) (\<lambda>bs.
          set_reg (vm\<lparr>return_data := bs\<rparr>) 0 0))))
      else Inr vm)"

text \<open>One turn of the loop goes on with a new state or returns \<open>r0\<close> from the final one.\<close>

datatype flow = Next vm | Exit u64 vm

definition exec_call :: "target \<Rightarrow> syscalls \<Rightarrow> insn \<Rightarrow> vm \<Rightarrow> (sbpf_error, flow) res option" where
  "exec_call t sys i vm =
     (if opcode i = 0x85 then Some
        (if src i = 1 then bind_res (dispatch_syscall t sys (imm i) vm) (\<lambda>vm'. Inr (Next vm'))
         else if MAX_CALL_DEPTH \<le> length (call_stack vm) then Inl (Fault CallStackOverflow)
         else Inr (Next (vm\<lparr>call_stack := (pc vm, regs vm) # call_stack vm,
                             pc := pc_rel t (pc vm) (sint (imm i))\<rparr>)))
      else if opcode i = 0x8D then Some
        (bind_res (dispatch_syscall t sys (imm i) vm) (\<lambda>vm'. Inr (Next vm')))
      else if opcode i = 0x95 then Some
        (bind_res (get_reg vm 0) (\<lambda>ret_val.
          case call_stack vm of
            [] \<Rightarrow> Inr (Exit ret_val vm)
          | (ret_pc, saved_regs) # frames \<Rightarrow>
              bind_res (set_reg (vm\<lparr>call_stack := frames, regs := saved_regs\<rparr>) 0 ret_val) (\<lambda>vm'.
                Inr (Next (vm'\<lparr>pc := ret_pc\<rparr>)))))
      else None)"

section \<open>The loop\<close>

fun first_some :: "'a option list \<Rightarrow> 'a option" where
  "first_some [] = None"
| "first_some (None # xs) = first_some xs"
| "first_some (Some x # xs) = Some x"

text \<open>The arms that always go on to the next turn, in the order of the source.\<close>

definition exec_straight :: "target \<Rightarrow> u64 list \<Rightarrow> insn \<Rightarrow> vm \<Rightarrow> arm" where
  "exec_straight t text i vm = first_some
     [exec_mov i vm, exec_lddw text i vm, exec_add i vm, exec_sub i vm, exec_mul i vm,
      exec_div i vm, exec_mod i vm, exec_neg t i vm, exec_or i vm, exec_and i vm, exec_xor i vm,
      exec_lsh i vm, exec_rsh i vm, exec_arsh i vm, exec_load t i vm, exec_store_reg t i vm,
      exec_store_imm t i vm, exec_jump t i vm, exec_jump_signed t i vm]"

definition exec_insn :: "target \<Rightarrow> syscalls \<Rightarrow> u64 list \<Rightarrow> insn \<Rightarrow> vm \<Rightarrow> (sbpf_error, flow) res" where
  "exec_insn t sys text i vm =
     (case exec_straight t text i vm of
        Some r \<Rightarrow> bind_res r (\<lambda>vm'. Inr (Next vm'))
      | None \<Rightarrow> (case exec_call t sys i vm of
          Some r \<Rightarrow> r
        | None \<Rightarrow> Inl (Fault (UnknownOpcode (opcode i)))))"

definition step :: "target \<Rightarrow> syscalls \<Rightarrow> u64 list \<Rightarrow> vm \<Rightarrow> (sbpf_error, flow) res" where
  "step t sys text vm =
     (if length text \<le> pc vm then Inl (Fault (OutOfBounds (pc vm)))
      else let word = text ! pc vm; i = decode word
           in exec_insn t sys text i (vm\<lparr>pc := pc vm + 1\<rparr>))"

text \<open>\<open>Vm::run\<close>: \<open>None\<close> is a loop that never ends.\<close>

partial_function (option) run ::
  "target \<Rightarrow> syscalls \<Rightarrow> u64 list \<Rightarrow> vm \<Rightarrow> (sbpf_error, u64 \<times> vm) res option"
where
  "run t sys text vm =
     (case step t sys text vm of
        Inl e \<Rightarrow> Some (Inl e)
      | Inr f \<Rightarrow> (case f of Exit r vm' \<Rightarrow> Some (Inr (r, vm')) | Next vm' \<Rightarrow> run t sys text vm'))"

primrec run_fuel ::
  "nat \<Rightarrow> target \<Rightarrow> syscalls \<Rightarrow> u64 list \<Rightarrow> vm \<Rightarrow> (sbpf_error, u64 \<times> vm) res option"
where
  "run_fuel 0 t sys text vm = None"
| "run_fuel (Suc n) t sys text vm =
     (case step t sys text vm of
        Inl e \<Rightarrow> Some (Inl e)
      | Inr f \<Rightarrow> (case f of Exit r vm' \<Rightarrow> Some (Inr (r, vm')) | Next vm' \<Rightarrow> run_fuel n t sys text vm'))"

end
