(* ===== verification/Sbpf_Safety.thy ===== *)
theory Sbpf_Safety
  imports Sbpf_Vm
begin

text \<open>
  The invariant of the interpreter: eleven registers everywhere, a memory of unchanged
  shape, a bounded call stack. Every turn of the loop keeps it, whatever the program text,
  and no turn reaches the undefined behaviour of the \<open>unsafe\<close> blocks. The lemmas are
  proved against the contract of the syscalls and used through its interpretations.
\<close>

named_theorems safe_intros \<open>a group of arms is safe\<close>

section \<open>Arms that go on\<close>

definition vm_ok :: "target \<Rightarrow> vm \<Rightarrow> bool" where
  "vm_ok t vm \<longleftrightarrow> length (regs vm) = 11 \<and> mem_ok t (mem vm) \<and>
     length (call_stack vm) \<le> MAX_CALL_DEPTH \<and>
     list_all (\<lambda>frame. length (snd frame) = 11) (call_stack vm)"

text \<open>What an arm outside the call group leaves alone.\<close>

definition frame :: "vm \<Rightarrow> vm \<Rightarrow> bool" where
  "frame vm vm' \<longleftrightarrow> length (regs vm') = length (regs vm) \<and> same_shape (mem vm) (mem vm') \<and>
     call_stack vm' = call_stack vm"

text \<open>The ways such an arm may stop.\<close>

definition arm_stop :: "sbpf_error stop \<Rightarrow> bool" where
  "arm_stop e \<longleftrightarrow> e \<noteq> Undefined \<and> e \<noteq> Fault BadExit \<and> e \<noteq> Fault CallStackOverflow \<and>
     (\<forall>c. e \<noteq> Fault (UnknownOpcode c))"

lemma arm_stop_simps [simp]:
  "arm_stop Panic" "\<not> arm_stop Undefined" "arm_stop (Fault DivisionByZero)"
  "arm_stop (Fault (OutOfBounds p))" "arm_stop (Fault (InvalidMemoryAccess a n))"
  "\<not> arm_stop (Fault BadExit)" "\<not> arm_stop (Fault CallStackOverflow)"
  "\<not> arm_stop (Fault (UnknownOpcode c))"
  by (simp_all add: arm_stop_def)

definition arm_safe :: "vm \<Rightarrow> (sbpf_error, vm) res \<Rightarrow> bool" where
  "arm_safe vm r \<longleftrightarrow> (\<forall>e. r = Inl e \<longrightarrow> arm_stop e) \<and> (\<forall>vm'. r = Inr vm' \<longrightarrow> frame vm vm')"

definition arms_safe :: "vm \<Rightarrow> arm \<Rightarrow> bool" where
  "arms_safe vm a \<longleftrightarrow> (\<forall>r. a = Some r \<longrightarrow> arm_safe vm r)"

lemma frame_refl [simp, intro]: "frame vm vm"
  by (simp add: frame_def)

lemma vm_ok_frame: "vm_ok t vm \<Longrightarrow> frame vm vm' \<Longrightarrow> vm_ok t vm'"
  by (auto simp: vm_ok_def frame_def intro: mem_ok_same_shape)

lemma arm_safe_simps [simp]:
  "arm_safe vm (Inr vm') \<longleftrightarrow> frame vm vm'"
  "arm_safe vm (Inl e) \<longleftrightarrow> arm_stop e"
  by (auto simp: arm_safe_def)

lemma arm_safe_bind [safe_intros]:
  assumes "\<And>e. r = Inl e \<Longrightarrow> arm_stop e"
    and "\<And>a. r = Inr a \<Longrightarrow> arm_safe vm (f a)"
  shows "arm_safe vm (bind_res r f)"
  using assms by (cases r) simp_all

lemma get_reg_Inl [simp]: "get_reg vm k = Inl e \<longleftrightarrow> length (regs vm) \<le> k \<and> e = Panic"
  by (auto simp: get_reg_def)

lemma arm_safe_set_reg [safe_intros]: "frame vm vm' \<Longrightarrow> arm_safe vm (set_reg vm' k v)"
  by (auto simp: set_reg_def frame_def)

lemma arm_safe_get_reg:
  "(\<And>a. arm_safe vm (f a)) \<Longrightarrow> arm_safe vm (bind_res (get_reg vm' k) f)"
  by (rule arm_safe_bind) auto

lemma arm_safe_with_src [safe_intros]:
  "(\<And>s. arm_safe vm (f s)) \<Longrightarrow> arm_safe vm (with_src i vm' f)"
  unfolding with_src_def by (rule arm_safe_bind) auto

lemma arm_safe_with_dst [safe_intros]:
  "(\<And>d. arm_safe vm (f d)) \<Longrightarrow> arm_safe vm (with_dst i vm' f)"
  unfolding with_dst_def by (rule arm_safe_bind) auto

lemma arm_safe_upd [safe_intros]: "arm_safe vm (upd64 f i vm)" "arm_safe vm (upd32 g i vm)"
  by (auto simp: upd64_def upd32_def intro!: safe_intros)

lemma arm_safe_jump [safe_intros]:
  "arm_safe vm (jump_if t c i vm)" "arm_safe vm (jump_imm t p i vm)" "arm_safe vm (jump_reg t q i vm)"
proof -
  show "arm_safe vm (jump_if t c i vm)" for c
    by (simp add: jump_if_def frame_def)
  then show "arm_safe vm (jump_imm t p i vm)" "arm_safe vm (jump_reg t q i vm)"
    by (auto simp: jump_imm_def jump_reg_def intro!: safe_intros)
qed

lemma only_panics_arm: "only_panics r \<Longrightarrow> r = Inl e \<Longrightarrow> arm_stop e"
  by (auto simp: only_panics_def)

lemma arm_safe_load:
  assumes "\<And>a. only_panics (rd (mem vm) a)"
  shows "arm_safe vm (load_with rd n i vm)"
  unfolding load_with_def Let_def
  by (intro safe_intros) (auto dest: only_panics_arm [OF assms])

lemma arm_safe_store:
  assumes "\<And>a v. only_panics (wr (mem vm) a v)"
    and "\<And>a v m. wr (mem vm) a v = Inr (Some m) \<Longrightarrow> same_shape (mem vm) m"
    and "only_panics val"
  shows "arm_safe vm (store_with wr n i vm val)"
  unfolding store_with_def Let_def
  by (intro safe_intros)
    (auto dest: only_panics_arm [OF assms(1)] only_panics_arm [OF assms(3)] simp: frame_def assms(2))

lemma only_panics_with_src [simp]:
  "(\<And>s. only_panics (f s)) \<Longrightarrow> only_panics (with_src i vm f)"
  unfolding with_src_def by (rule only_panics_bind) (auto simp: only_panics_def)

lemma accesses_only_panic:
  assumes "mem_ok t m"
  shows "only_panics (read_u8 t m a)" "only_panics (read_u16 t m a)"
    "only_panics (read_u32 t m a)" "only_panics (read_u64 t m a)"
    "only_panics (write_u8 t m a v8)" "only_panics (write_u16 t m a v16)"
    "only_panics (write_u32 t m a v32)" "only_panics (write_u64 t m a v64)"
  by (simp_all add: access_defs read_le_safe [OF assms] write_le_safe [OF assms])

lemma writes_same_shape:
  "write_u8 t m a v8 = Inr (Some m') \<Longrightarrow> same_shape m m'"
  "write_u16 t m a v16 = Inr (Some m') \<Longrightarrow> same_shape m m'"
  "write_u32 t m a v32 = Inr (Some m') \<Longrightarrow> same_shape m m'"
  "write_u64 t m a v64 = Inr (Some m') \<Longrightarrow> same_shape m m'"
  by (simp_all add: access_defs write_le_same_shape)

lemma alu_arms_safe:
  "arms_safe vm (exec_mov i vm)" "arms_safe vm (exec_lddw text i vm)"
  "arms_safe vm (exec_add i vm)" "arms_safe vm (exec_sub i vm)" "arms_safe vm (exec_mul i vm)"
  "arms_safe vm (exec_div i vm)" "arms_safe vm (exec_mod i vm)" "arms_safe vm (exec_neg t i vm)"
  "arms_safe vm (exec_or i vm)" "arms_safe vm (exec_and i vm)" "arms_safe vm (exec_xor i vm)"
  "arms_safe vm (exec_lsh i vm)" "arms_safe vm (exec_rsh i vm)" "arms_safe vm (exec_arsh i vm)"
  unfolding arms_safe_def exec_mov_def exec_lddw_def exec_add_def exec_sub_def exec_mul_def
    exec_div_def exec_mod_def exec_neg_def exec_or_def exec_and_def exec_xor_def
    exec_lsh_def exec_rsh_def exec_arsh_def Let_def
  by (auto intro!: safe_intros simp: frame_def split: if_splits)

lemma jump_arms_safe:
  "arms_safe vm (exec_jump t i vm)" "arms_safe vm (exec_jump_signed t i vm)"
  unfolding arms_safe_def exec_jump_def exec_jump_signed_def
  by (auto intro!: safe_intros split: if_splits)

lemma memory_arms_safe:
  assumes "mem_ok t (mem vm)"
  shows "arms_safe vm (exec_load t i vm)" "arms_safe vm (exec_store_reg t i vm)"
    "arms_safe vm (exec_store_imm t i vm)"
  unfolding arms_safe_def exec_load_def exec_store_reg_def exec_store_imm_def
  using accesses_only_panic [OF assms]
  by (auto intro!: arm_safe_load arm_safe_store dest: writes_same_shape split: if_splits)

lemma first_some_arms_safe:
  "list_all (arms_safe vm) xs \<Longrightarrow> arms_safe vm (first_some xs)"
  by (induction xs rule: first_some.induct) (auto simp: arms_safe_def)

lemma exec_straight_safe:
  assumes "mem_ok t (mem vm)"
  shows "arms_safe vm (exec_straight t text i vm)"
  unfolding exec_straight_def
  by (rule first_some_arms_safe)
    (simp add: alu_arms_safe jump_arms_safe memory_arms_safe [OF assms])

section \<open>One turn of the loop\<close>

definition flow_vm :: "flow \<Rightarrow> vm" where
  "flow_vm f = (case f of Next vm \<Rightarrow> vm | Exit r vm \<Rightarrow> vm)"

lemma flow_vm_simps [simp]: "flow_vm (Next vm) = vm" "flow_vm (Exit r vm) = vm"
  by (simp_all add: flow_vm_def)

definition step_safe :: "target \<Rightarrow> (sbpf_error, flow) res \<Rightarrow> bool" where
  "step_safe t r \<longleftrightarrow> r \<noteq> Inl Undefined \<and> r \<noteq> Inl (Fault BadExit) \<and>
     (\<forall>f. r = Inr f \<longrightarrow> vm_ok t (flow_vm f))"

lemma step_safe_simps [simp]:
  "step_safe t (Inr f) \<longleftrightarrow> vm_ok t (flow_vm f)"
  "step_safe t (Inl e) \<longleftrightarrow> e \<noteq> Undefined \<and> e \<noteq> Fault BadExit"
  by (auto simp: step_safe_def)

lemma step_safe_arm:
  assumes "vm_ok t vm" "arm_safe vm r"
  shows "step_safe t (bind_res r (\<lambda>vm'. Inr (Next vm')))"
  using assms by (cases r) (auto intro: vm_ok_frame simp: arm_stop_def)

context safe_syscalls
begin

lemma mem_safe_arm:
  assumes "mem_safe (mem vm) r"
  shows "arm_safe vm (bind_res r (\<lambda>m. set_reg (vm\<lparr>mem := m\<rparr>) k v))"
  using assms by (cases r) (auto simp: mem_safe_def frame_def intro!: safe_intros)

lemma dispatch_syscall_safe:
  assumes "mem_ok t (mem vm)"
  shows "arm_safe vm (dispatch_syscall t sys hash vm)"
proof -
  have mv: "arm_safe vm (bind_res (sol_memcpy sys d s n (mem vm)) (\<lambda>m. set_reg (vm\<lparr>mem := m\<rparr>) 0 0))"
    "arm_safe vm (bind_res (sol_memset sys d v n (mem vm)) (\<lambda>m. set_reg (vm\<lparr>mem := m\<rparr>) 0 0))"
    "arm_safe vm (bind_res (sol_memmove sys d s n (mem vm)) (\<lambda>m. set_reg (vm\<lparr>mem := m\<rparr>) 0 0))"
    for d s n v
    by (rule mem_safe_arm, simp add: memcpy_safe memset_safe memmove_safe assms)+
  have ret: "arm_safe vm (bind_res (with_capacity t k) (\<lambda>_.
      bind_res (fetch_bytes (read_u8 t) t (mem vm) p k 0) (\<lambda>bs. set_reg (vm\<lparr>return_data := bs\<rparr>) 0 0)))"
    for k p
    by (intro safe_intros)
      (auto dest: only_panics_arm [OF only_panics_arith(3)]
        only_panics_arm [OF fetch_bytes_safe [OF assms]] simp: frame_def)
  show ?thesis
    unfolding dispatch_syscall_def Let_def
    by (auto intro!: arm_safe_get_reg mv ret arm_safe_set_reg)
qed

lemma exec_call_safe:
  assumes "vm_ok t vm" "exec_call t sys i vm = Some r"
  shows "step_safe t r"
proof -
  have m: "mem_ok t (mem vm)" using assms(1) by (simp add: vm_ok_def)
  note disp = step_safe_arm [OF assms(1) dispatch_syscall_safe [OF m, of "imm i"]]
  have exit: "step_safe t (bind_res (get_reg vm 0) (\<lambda>ret_val.
      case call_stack vm of [] \<Rightarrow> Inr (Exit ret_val vm)
      | (ret_pc, saved_regs) # frames \<Rightarrow>
          bind_res (set_reg (vm\<lparr>call_stack := frames, regs := saved_regs\<rparr>) 0 ret_val) (\<lambda>vm'.
            Inr (Next (vm'\<lparr>pc := ret_pc\<rparr>)))))"
    using assms(1) by (auto simp: get_reg_def set_reg_def vm_ok_def split: list.splits)
  have call: "step_safe t (if MAX_CALL_DEPTH \<le> length (call_stack vm) then Inl (Fault CallStackOverflow)
       else Inr (Next (vm\<lparr>call_stack := (pc vm, regs vm) # call_stack vm,
                           pc := pc_rel t (pc vm) (sint (imm i))\<rparr>)))"
    using assms(1) by (auto simp: vm_ok_def)
  show ?thesis
    using assms(2) disp exit call unfolding exec_call_def
    by (auto split: if_splits)
qed

lemma exec_insn_safe:
  assumes "vm_ok t vm"
  shows "step_safe t (exec_insn t sys text i vm)"
proof (cases "exec_straight t text i vm")
  case None
  then show ?thesis using exec_call_safe [OF assms] by (auto simp: exec_insn_def split: option.splits)
next
  case (Some r)
  then have "arm_safe vm r"
    using exec_straight_safe [of t vm "text" i] assms by (auto simp: arms_safe_def vm_ok_def)
  then show ?thesis using Some step_safe_arm [OF assms] by (simp add: exec_insn_def)
qed

lemma step_is_safe:
  assumes "vm_ok t vm"
  shows "step_safe t (step t sys text vm)"
proof -
  have "vm_ok t (vm\<lparr>pc := pc vm + 1\<rparr>)" using assms by (simp add: vm_ok_def)
  then show ?thesis using exec_insn_safe by (simp add: step_def Let_def)
qed

lemma run_fuel_safe:
  assumes "vm_ok t vm" "run_fuel n t sys text vm = Some r"
  shows "r \<noteq> Inl Undefined \<and> r \<noteq> Inl (Fault BadExit) \<and> (\<forall>x vm'. r = Inr (x, vm') \<longrightarrow> vm_ok t vm')"
  using assms
proof (induction n arbitrary: vm)
  case (Suc n)
  have s: "step_safe t (step t sys text vm)" by (rule step_is_safe [OF Suc.prems(1)])
  show ?case
  proof (cases "step t sys text vm")
    case (Inl e)
    then show ?thesis using Suc.prems(2) s by auto
  next
    case (Inr f)
    then show ?thesis using Suc.prems(2) s Suc.IH by (cases f) auto
  qed
qed simp

end

section \<open>The loop and its fuelled twin\<close>

lemma run_fuel_run: "run_fuel n t sys text vm = Some r \<Longrightarrow> run t sys text vm = Some r"
proof (induction n arbitrary: vm)
  case (Suc n)
  then show ?case by (subst run.simps) (auto split: sum.splits flow.splits)
qed simp

lemma run_run_fuel:
  assumes "run t sys text vm = Some r"
  shows "\<exists>n. run_fuel n t sys text vm = Some r"
proof (rule run.raw_induct [where P = "\<lambda>t sys text vm r. \<exists>n. run_fuel n t sys text vm = Some r", OF _ assms])
  fix f t sys "text" vm r
  assume IH: "\<And>t sys text vm r. f t sys text vm = Some r \<Longrightarrow> \<exists>n. run_fuel n t sys text vm = Some r"
    and eq: "(case step t sys text vm of Inl e \<Rightarrow> Some (Inl e)
        | Inr g \<Rightarrow> (case g of Next vm' \<Rightarrow> f t sys text vm' | Exit r vm' \<Rightarrow> Some (Inr (r, vm')))) = Some r"
  show "\<exists>n. run_fuel n t sys text vm = Some r"
  proof (cases "step t sys text vm")
    case (Inl e)
    then have "run_fuel (Suc 0) t sys text vm = Some r" using eq by simp
    then show ?thesis ..
  next
    case (Inr g)
    show ?thesis
    proof (cases g)
      case (Next vm')
      then obtain n where "run_fuel n t sys text vm' = Some r" using IH eq Inr by fastforce
      then have "run_fuel (Suc n) t sys text vm = Some r" using Inr Next by simp
      then show ?thesis ..
    next
      case (Exit x vm')
      then have "run_fuel (Suc 0) t sys text vm = Some r" using eq Inr by simp
      then show ?thesis ..
    qed
  qed
qed

lemma run_iff_fuel: "run t sys text vm = Some r \<longleftrightarrow> (\<exists>n. run_fuel n t sys text vm = Some r)"
  using run_fuel_run run_run_fuel by blast

end
