(* ===== verification/Sbpf_Termination.thy ===== *)
theory Sbpf_Termination
  imports Sbpf_Safety
begin

text \<open>
  Termination of the interpreter loop. The loop has no instruction budget, so a text may
  run forever (a jump to itself does). A text whose jumps all go forward and that makes no
  internal calls returns, within one turn per instruction and one more.
\<close>

named_theorems ctl_intros \<open>a group of arms moves the program counter forward only\<close>

section \<open>Arms and the program counter\<close>

definition ctl :: "vm \<Rightarrow> (sbpf_error, vm) res \<Rightarrow> bool" where
  "ctl vm r \<longleftrightarrow> (\<forall>vm'. r = Inr vm' \<longrightarrow> pc vm \<le> pc vm' \<and> call_stack vm' = call_stack vm)"

definition ctls :: "vm \<Rightarrow> arm \<Rightarrow> bool" where
  "ctls vm a \<longleftrightarrow> (\<forall>r. a = Some r \<longrightarrow> ctl vm r)"

lemma ctl_simps [simp]:
  "ctl vm (Inl e)"
  "ctl vm (Inr vm') \<longleftrightarrow> pc vm \<le> pc vm' \<and> call_stack vm' = call_stack vm"
  by (auto simp: ctl_def)

lemma ctl_bind [ctl_intros]: "(\<And>a. ctl vm (f a)) \<Longrightarrow> ctl vm (bind_res r f)"
  by (cases r) simp_all

lemma ctl_set_reg [ctl_intros]:
  "pc vm \<le> pc vm' \<Longrightarrow> call_stack vm' = call_stack vm \<Longrightarrow> ctl vm (set_reg vm' k v)"
  by (simp add: set_reg_def)

lemma ctl_with [ctl_intros]:
  "(\<And>s. ctl vm (f s)) \<Longrightarrow> ctl vm (with_src i vm' f)"
  "(\<And>s. ctl vm (f s)) \<Longrightarrow> ctl vm (with_dst i vm' f)"
  by (auto simp: with_src_def with_dst_def intro!: ctl_bind)

lemma ctl_upd [ctl_intros]: "ctl vm (upd64 f i vm)" "ctl vm (upd32 g i vm)"
  by (auto simp: upd64_def upd32_def intro!: ctl_intros)

lemma ctl_load_store [ctl_intros]:
  "ctl vm (load_with rd n i vm)" "ctl vm (store_with wr n i vm val)"
  by (auto simp: load_with_def store_with_def Let_def intro!: ctl_intros)

lemma pc_rel_forward:
  "0 \<le> k \<Longrightarrow> int p + k < 2 ^ usize_bits t \<Longrightarrow> pc_rel t p k = p + nat k"
  by (simp add: pc_rel_def nat_add_distrib)

lemma ctl_jump [ctl_intros]:
  assumes "0 \<le> sint (off i)" "int (pc vm) + sint (off i) < 2 ^ usize_bits t"
  shows "ctl vm (jump_if t c i vm)" "ctl vm (jump_imm t p i vm)" "ctl vm (jump_reg t q i vm)"
  using assms by (auto simp: jump_imm_def jump_reg_def jump_if_def pc_rel_forward intro!: ctl_intros)

definition jump_opcodes :: "u8 list" where
  "jump_opcodes = [0x05, 0x15, 0x1D, 0x55, 0x5D, 0x25, 0x2D, 0x35, 0x3D, 0xA5, 0xAD, 0xB5, 0xBD,
     0x45, 0x4D, 0x65, 0x6D, 0x75, 0x7D, 0xC5, 0xCD, 0xD5, 0xDD]"

definition forward_insn :: "insn \<Rightarrow> bool" where
  "forward_insn i \<longleftrightarrow> (opcode i \<in> set jump_opcodes \<longrightarrow> 0 \<le> sint (off i)) \<and>
     (opcode i = 0x85 \<longrightarrow> src i = 1)"

definition forward_text :: "u64 list \<Rightarrow> bool" where
  "forward_text text \<longleftrightarrow> list_all (\<lambda>w. forward_insn (decode w)) text"

lemma alu_arms_ctl:
  "list_all (ctls vm) [exec_mov i vm, exec_lddw text i vm, exec_add i vm, exec_sub i vm, exec_mul i vm,
     exec_div i vm, exec_mod i vm, exec_neg t i vm, exec_or i vm, exec_and i vm, exec_xor i vm,
     exec_lsh i vm, exec_rsh i vm, exec_arsh i vm, exec_load t i vm, exec_store_reg t i vm,
     exec_store_imm t i vm]"
  unfolding ctls_def exec_mov_def exec_lddw_def exec_add_def exec_sub_def exec_mul_def
    exec_div_def exec_mod_def exec_neg_def exec_or_def exec_and_def exec_xor_def
    exec_lsh_def exec_rsh_def exec_arsh_def exec_load_def exec_store_reg_def exec_store_imm_def
    Let_def list.pred_inject
  by (intro conjI TrueI; auto intro!: ctl_intros split: if_splits)

lemma no_jump_arms:
  assumes "opcode i \<notin> set jump_opcodes"
  shows "exec_jump t i vm = None" "exec_jump_signed t i vm = None"
  using assms by (simp_all add: jump_opcodes_def exec_jump_def exec_jump_signed_def)

lemma jump_arms_ctl:
  assumes "opcode i \<in> set jump_opcodes \<longrightarrow> 0 \<le> sint (off i)"
    and "int (pc vm) + sint (off i) < 2 ^ usize_bits t"
  shows "list_all (ctls vm) [exec_jump t i vm, exec_jump_signed t i vm]"
proof (cases "opcode i \<in> set jump_opcodes")
  case True
  then have j: "ctl vm (jump_if t c i vm)" "ctl vm (jump_imm t p i vm)" "ctl vm (jump_reg t q i vm)" for c p q
    using assms by (simp_all add: ctl_jump)
  show ?thesis
    unfolding ctls_def exec_jump_def exec_jump_signed_def list.pred_inject
    by (intro conjI TrueI; auto intro!: j split: if_splits)
next
  case False
  then show ?thesis by (simp add: no_jump_arms ctls_def)
qed

lemma first_some_ctls: "list_all (ctls vm) xs \<Longrightarrow> ctls vm (first_some xs)"
  by (induction xs rule: first_some.induct) (auto simp: ctls_def)

lemma exec_straight_ctl:
  assumes "forward_insn i" "int (pc vm) + sint (off i) < 2 ^ usize_bits t"
  shows "ctls vm (exec_straight t text i vm)"
proof -
  have "list_all (ctls vm) [exec_jump t i vm, exec_jump_signed t i vm]"
    using assms by (intro jump_arms_ctl) (simp_all add: forward_insn_def)
  with alu_arms_ctl [of vm i "text" t] show ?thesis
    unfolding exec_straight_def by (intro first_some_ctls) simp
qed

lemma dispatch_ctl: "ctl vm (dispatch_syscall t sys hash vm)"
  unfolding dispatch_syscall_def Let_def by (auto intro!: ctl_intros)

section \<open>Forward texts return\<close>

lemma forward_step:
  assumes "forward_text text" "length text + 2 ^ 15 \<le> 2 ^ usize_bits t"
    and "call_stack vm = []" "step t sys text vm = Inr (Next vm')"
  shows "pc vm < pc vm' \<and> pc vm < length text \<and> call_stack vm' = []"
proof -
  let ?i = "decode (text ! pc vm)" and ?vm = "vm\<lparr>pc := pc vm + 1\<rparr>"
  have l: "pc vm < length text" and s: "exec_insn t sys text ?i ?vm = Inr (Next vm')"
    using assms(4) by (auto simp: step_def Let_def split: if_splits)
  have fwd: "forward_insn ?i" using assms(1) l by (simp add: forward_text_def list_all_length)
  have "sint (off ?i) < 2 ^ 15" using sint_lt [of "off ?i"] by simp
  moreover have "int (length text + 2 ^ 15) \<le> int (2 ^ usize_bits t)"
    using assms(2) by (simp only: of_nat_le_iff)
  ultimately have b: "int (pc ?vm) + sint (off ?i) < 2 ^ usize_bits t" using l by simp
  show ?thesis
  proof (cases "exec_straight t text ?i ?vm")
    case (Some r)
    then have "r = Inr vm'" using s by (auto simp: exec_insn_def bind_res_Inr_iff)
    then show ?thesis
      using exec_straight_ctl [OF fwd b, of "text"] Some l assms(3) by (auto simp: ctls_def)
  next
    case None
    then have c: "exec_call t sys ?i ?vm = Some (Inr (Next vm'))"
      using s by (auto simp: exec_insn_def split: option.splits)
    then have "dispatch_syscall t sys (imm ?i) ?vm = Inr vm'"
      using fwd assms(3)
      by (auto simp: exec_call_def forward_insn_def bind_res_Inr_iff split: if_splits)
    then show ?thesis
      using dispatch_ctl [of ?vm t sys "imm ?i"] l assms(3) by (auto simp: ctl_def)
  qed
qed

lemma forward_run_fuel:
  assumes "forward_text text" "length text + 2 ^ 15 \<le> 2 ^ usize_bits t" "call_stack vm = []"
    and "length text \<le> pc vm + n"
  shows "\<exists>r. run_fuel (Suc n) t sys text vm = Some r"
  using assms(3,4)
proof (induction n arbitrary: vm)
  case 0
  then show ?case by (simp add: step_def)
next
  case (Suc n)
  show ?case
  proof (cases "step t sys text vm")
    case (Inl e)
    then show ?thesis by simp
  next
    case (Inr f)
    show ?thesis
    proof (cases f)
      case (Exit x vm')
      then show ?thesis using Inr by simp
    next
      case (Next vm')
      then have "pc vm < pc vm'" "call_stack vm' = []"
        using forward_step [OF assms(1,2) Suc.prems(1)] Inr by auto
      then show ?thesis using Suc.IH [of vm'] Suc.prems Inr Next by simp
    qed
  qed
qed

end
