(* ===== verification/Sbpf_Instr.thy ===== *)
theory Sbpf_Instr
  imports Sbpf_Termination
begin

text \<open>
  Instruction-level correctness of the interpreter: the decoder is a bijection onto
  instructions, the 64-bit arithmetic agrees with arithmetic on naturals and integers,
  division fails exactly on zero, 32-bit results are zero-extended (but for negation and
  arithmetic shift), loads return what stores wrote, calls and exits match.
\<close>

lemmas arm_defs =
  exec_mov_def exec_lddw_def exec_add_def exec_sub_def exec_mul_def exec_div_def exec_mod_def
  exec_neg_def exec_or_def exec_and_def exec_xor_def exec_lsh_def exec_rsh_def exec_arsh_def
  exec_load_def exec_store_reg_def exec_store_imm_def exec_jump_def exec_jump_signed_def

lemmas upd_defs = upd64_def upd32_def with_src_def with_dst_def

lemma get_reg_in [simp]: "k < length (regs vm) \<Longrightarrow> get_reg vm k = Inr (regs vm ! k)"
  by (simp add: get_reg_def)

lemma set_reg_in [simp]:
  "k < length (regs vm) \<Longrightarrow> set_reg vm k v = Inr (vm\<lparr>regs := (regs vm)[k := v]\<rparr>)"
  by (simp add: set_reg_def)

lemma set_reg_Inr_iff:
  "set_reg vm k v = Inr vm' \<longleftrightarrow> k < length (regs vm) \<and> vm' = vm\<lparr>regs := (regs vm)[k := v]\<rparr>"
  by (auto simp: set_reg_def)

lemma get_reg_Inr_iff:
  "get_reg vm k = Inr a \<longleftrightarrow> k < length (regs vm) \<and> a = regs vm ! k"
  by (auto simp: get_reg_def)

section \<open>Decoding\<close>

text \<open>The instruction word that holds given fields.\<close>

definition encode :: "insn \<Rightarrow> u64" where
  "encode i = ucast (opcode i) OR push_bit 8 (of_nat (dst i)) OR push_bit 12 (of_nat (src i)) OR
     push_bit 16 (ucast (off i)) OR push_bit 32 (ucast (imm i))"

lemma nibble_high:
  fixes n :: nat
  assumes "n < 16" "bit n k"
  shows "k < 4"
proof -
  have "take_bit 4 n = n" using assms(1) by (simp add: take_bit_nat_eq_self)
  then show ?thesis using assms(2) by (metis bit_take_bit_iff)
qed

lemma nibble_bits:
  fixes n :: nat
  assumes "n < 16"
  shows "bit (of_nat n :: u64) k \<longleftrightarrow> k < 4 \<and> bit n k"
  by (auto simp: bit_simps dest: nibble_high [OF assms])

lemma decode_masks:
  "(w :: u64) AND 0x0F = take_bit 4 w" "w AND 0xFF = take_bit 8 w" "w AND 0xFFFF = take_bit 16 w"
  by (simp_all add: take_bit_eq_mask mask_eq_exp_minus_1)

lemma decode_alt:
  "decode w =
     \<lparr>opcode = ucast (take_bit 8 w), dst = unat (take_bit 4 (drop_bit 8 w)),
      src = unat (take_bit 4 (drop_bit 12 w)), off = ucast (take_bit 16 (drop_bit 16 w)),
      imm = ucast (drop_bit 32 w)\<rparr>"
  by (simp only: decode_def decode_masks)

lemma unat_take_bit4_eq:
  assumes "n < 16" "\<And>k. k < 4 \<Longrightarrow> bit w k \<longleftrightarrow> bit n k"
  shows "unat (take_bit 4 (w :: u64)) = n"
proof -
  have "take_bit 4 w = of_nat n"
    by (rule bit_word_eqI) (auto simp: bit_take_bit_iff nibble_bits [OF assms(1)] assms(2))
  then show ?thesis using assms(1) by (simp add: unat_of_nat)
qed

lemma unat_take_bit4_lt: "unat (take_bit 4 (w :: u64)) < 16"
  using take_bit_nat_less_exp [of 4 "unat w"] by (simp add: unsigned_take_bit_eq)

lemma decode_fields_lt: "dst (decode w) < 16" "src (decode w) < 16"
  by (simp_all add: decode_alt unat_take_bit4_lt)

text \<open>
  Decoding inverts encoding and encoding inverts decoding: every field of every
  instruction survives, and no bit of the word is lost.
\<close>

theorem decode_encode_inverse:
  "(dst i < 16 \<longrightarrow> src i < 16 \<longrightarrow> decode (encode i) = i) \<and> encode (decode w) = w"
proof (intro conjI impI)
  assume d: "dst i < 16" and s: "src i < 16"
  note bits = encode_def bit_simps nibble_bits [OF d] nibble_bits [OF s]
  have "opcode (decode (encode i)) = opcode i"
    by (rule bit_word_eqI) (auto simp: decode_alt bits dest: bit_imp_le_length nibble_high [OF d] nibble_high [OF s])
  moreover have "dst (decode (encode i)) = dst i"
    unfolding decode_alt insn.simps by (rule unat_take_bit4_eq [OF d]) (auto simp: bits dest: bit_imp_le_length nibble_high [OF d])
  moreover have "src (decode (encode i)) = src i"
    unfolding decode_alt insn.simps by (rule unat_take_bit4_eq [OF s]) (auto simp: bits dest: bit_imp_le_length nibble_high [OF d])
  moreover have "off (decode (encode i)) = off i"
    by (rule bit_word_eqI) (auto simp: decode_alt bits dest: bit_imp_le_length nibble_high [OF d] nibble_high [OF s])
  moreover have "imm (decode (encode i)) = imm i"
    by (rule bit_word_eqI) (auto simp: decode_alt bits dest: bit_imp_le_length nibble_high [OF d] nibble_high [OF s])
  ultimately show "decode (encode i) = i" by (cases i) simp
next
  show "encode (decode w) = w"
  proof (rule bit_word_eqI)
    fix n
    assume n: "n < LENGTH(64)"
    show "bit (encode (decode w)) n \<longleftrightarrow> bit w n"
      using n by (cases "n < 32")
        (auto simp: encode_def decode_alt bit_simps dest: bit_imp_le_length)
  qed
qed

theorem decode_encode_inverse_witness:
  "decode (encode \<lparr>opcode = 0x79, dst = 3, src = 10, off = 0xFFF8, imm = 7\<rparr>) =
     \<lparr>opcode = 0x79, dst = 3, src = 10, off = 0xFFF8, imm = 7\<rparr>"
  using decode_encode_inverse [of "\<lparr>opcode = 0x79, dst = 3, src = 10, off = 0xFFF8, imm = 7\<rparr>" 0]
  by simp

section \<open>64-bit arithmetic\<close>

definition signed64 :: "nat \<Rightarrow> int" where
  "signed64 a = (if a < 2 ^ 63 then int a else int a - 2 ^ 64)"

lemma signed64_sint: "signed64 (unat a) = sint (a :: u64)"
proof -
  have lt: "uint a < 2 ^ 64" using uint_lt2p [of a] by simp
  have "bit (uint a) 63 \<longleftrightarrow> 2 ^ 63 \<le> uint a"
  proof -
    have "bit (uint a) 63 \<longleftrightarrow> odd (uint a div 2 ^ 63)" by (simp add: bit_iff_odd)
    also have "\<dots> \<longleftrightarrow> 2 ^ 63 \<le> uint a"
    proof (cases "2 ^ 63 \<le> uint a")
      case True
      then have "uint a div 2 ^ 63 = 1" using lt by (simp add: div_pos_geq)
      then show ?thesis using True by simp
    next
      case False
      then have "uint a div 2 ^ 63 = 0" by simp
      then show ?thesis using False by simp
    qed
    finally show ?thesis .
  qed
  then have "sint a = uint a - 2 ^ 64 * of_bool (2 ^ 63 \<le> uint a)"
    using lt by (simp add: sint_uint signed_take_bit_eq_take_bit_minus take_bit_int_eq_self)
  moreover have "int (unat a) = uint a" by simp
  moreover have "unat a < 2 ^ 63 \<longleftrightarrow> uint a < 2 ^ 63"
    using of_nat_less_iff [of "unat a" "2 ^ 63", where 'a = int] by simp
  ultimately show ?thesis by (simp add: signed64_def)
qed

lemma u64_of_nat_mod: "(of_nat (n mod 2 ^ 64) :: u64) = of_nat n"
  by (simp add: word_of_nat_eq_iff take_bit_eq_mod)

lemma u64_of_int_mod: "(of_int (k mod 2 ^ 64) :: u64) = of_int k"
  by (simp add: word_of_int_eq_iff take_bit_eq_mod)

lemma alu64_words:
  fixes a b :: u64
  shows "of_nat ((unat a + unat b) mod 2 ^ 64) = a + b"
    and "of_nat ((unat a + (2 ^ 64 - unat b)) mod 2 ^ 64) = a - b"
    and "of_nat ((unat a * unat b) mod 2 ^ 64) = a * b"
    and "of_nat (unat a div unat b) = a div b"
    and "of_nat (unat a mod unat b) = a mod b"
    and "of_nat (unat a * 2 ^ k mod 2 ^ 64) = push_bit k a"
    and "of_nat (unat a div 2 ^ k) = drop_bit k a"
    and "of_nat (nat ((signed64 (unat a) div 2 ^ k) mod 2 ^ 64)) = signed_drop_bit k a"
proof -
  show "of_nat ((unat a + unat b) mod 2 ^ 64) = a + b"
    unfolding u64_of_nat_mod by simp
  have "(2 :: u64) ^ 64 = 0" by simp
  then show "of_nat ((unat a + (2 ^ 64 - unat b)) mod 2 ^ 64) = a - b"
    unfolding u64_of_nat_mod using unat_u64_less [of b] by (simp add: of_nat_diff)
  show "of_nat ((unat a * unat b) mod 2 ^ 64) = a * b"
    unfolding u64_of_nat_mod by simp
  show "of_nat (unat a div unat b) = a div b"
    by (simp add: unat_div [symmetric])
  show "of_nat (unat a mod unat b) = a mod b"
    by (simp add: unat_mod [symmetric])
  show "of_nat (unat a * 2 ^ k mod 2 ^ 64) = push_bit k a"
    unfolding u64_of_nat_mod by (simp add: push_bit_eq_mult)
  show "of_nat (unat a div 2 ^ k) = drop_bit k a"
    by (simp add: drop_bit_eq_div [symmetric] unat_drop_bit_eq [symmetric])
  have "of_nat (nat ((signed64 (unat a) div 2 ^ k) mod 2 ^ 64)) =
      (of_int ((signed64 (unat a) div 2 ^ k) mod 2 ^ 64) :: u64)"
    by (rule of_nat_nat) simp
  also have "\<dots> = of_int (sint a div 2 ^ k)"
    unfolding u64_of_int_mod signed64_sint ..
  also have "\<dots> = of_int (sint (signed_drop_bit k a))"
    by (simp only: sint_signed_drop_bit_eq drop_bit_eq_div)
  finally show "of_nat (nat ((signed64 (unat a) div 2 ^ k) mod 2 ^ 64)) = signed_drop_bit k a"
    by (simp only: of_int_sint scast_id)
qed

lemma sh64_ucast: "unat ((ucast (s :: u64) :: u32) AND 63) = unat s mod 64"
proof -
  have "(ucast s :: u32) AND 63 = take_bit 6 (ucast s)"
    by (simp add: take_bit_eq_mask mask_eq_exp_minus_1)
  then have "unat ((ucast s :: u32) AND 63) = take_bit 6 (unat (ucast s :: u32))"
    by (simp add: unsigned_take_bit_eq)
  also have "\<dots> = take_bit 6 (unat s)"
    by (simp add: unsigned_ucast_eq)
  finally show ?thesis by (simp add: take_bit_eq_mod)
qed
text \<open>
  The reference: unsigned arithmetic modulo $2^{64}$ on naturals, shifts as multiplication
  and division by a power of two, the arithmetic shift as division of the signed value.
\<close>

definition alu64_ref :: "u8 \<Rightarrow> nat \<Rightarrow> nat \<Rightarrow> nat option" where
  "alu64_ref op a b =
     (if op = 0x0F then Some ((a + b) mod 2 ^ 64)
      else if op = 0x1F then Some ((a + (2 ^ 64 - b)) mod 2 ^ 64)
      else if op = 0x2F then Some ((a * b) mod 2 ^ 64)
      else if op = 0x3F then (if b = 0 then None else Some (a div b))
      else if op = 0x9F then (if b = 0 then None else Some (a mod b))
      else if op = 0x6F then Some (a * 2 ^ (b mod 64) mod 2 ^ 64)
      else if op = 0x7F then Some (a div 2 ^ (b mod 64))
      else if op = 0xCF then Some (nat ((signed64 a div 2 ^ (b mod 64)) mod 2 ^ 64))
      else None)"

lemma alu64_ref_words:
  fixes a b :: u64
  shows "map_option of_nat (alu64_ref op (unat a) (unat b)) =
     (if op = 0x0F then Some (a + b) else if op = 0x1F then Some (a - b)
      else if op = 0x2F then Some (a * b)
      else if op = 0x3F then (if b = 0 then None else Some (a div b))
      else if op = 0x9F then (if b = 0 then None else Some (a mod b))
      else if op = 0x6F then Some (push_bit (unat b mod 64) a)
      else if op = 0x7F then Some (drop_bit (unat b mod 64) a)
      else if op = 0xCF then Some (signed_drop_bit (unat b mod 64) a) else None)"
  by (simp only: alu64_ref_def if_distrib [of "map_option of_nat"] option.map alu64_words unat_eq_0)

text \<open>
  The 64-bit register forms of add, sub, mul, div, mod and the three shifts compute the
  reference result, write it to the destination and change nothing else.
\<close>

theorem alu64_matches_reference:
  assumes "dst i < length (regs vm)" "src i < length (regs vm)"
    and "alu64_ref (opcode i) (unat (regs vm ! dst i)) (unat (regs vm ! src i)) = Some c"
  shows "exec_straight t text i vm = Some (Inr (vm\<lparr>regs := (regs vm)[dst i := of_nat c]\<rparr>))"
proof -
  let ?a = "regs vm ! dst i" and ?b = "regs vm ! src i"
  have "map_option of_nat (alu64_ref (opcode i) (unat ?a) (unat ?b)) = Some (of_nat c :: u64)"
    by (simp add: assms(3))
  then show ?thesis
    using assms(1,2) unfolding alu64_ref_words
    by (simp split: if_split_asm split del: if_split)
      (simp_all add: exec_straight_def arm_defs upd_defs sh64_ucast split del: if_split)
qed

text \<open>A small machine for concrete evaluations.\<close>

definition demo_vm :: "u64 list \<Rightarrow> vm" where
  "demo_vm rs = \<lparr>regs = rs, pc = 0, call_stack = [], mem = Memory_new 16 16, return_data = []\<rparr>"

definition demo_insn :: "u8 \<Rightarrow> nat \<Rightarrow> nat \<Rightarrow> u16 \<Rightarrow> u32 \<Rightarrow> insn" where
  "demo_insn c d s f k = \<lparr>opcode = c, dst = d, src = s, off = f, imm = k\<rparr>"

lemmas demo_defs = demo_vm_def demo_insn_def

definition host64 :: target where "host64 = \<lparr>usize_bits = 64, overflow_checks = False\<rparr>"

lemma target_ok_host64 [simp]: "target_ok host64"
  by (simp add: target_ok_def host64_def)

theorem alu64_matches_reference_witness:
  "exec_straight host64 [] (demo_insn 0xCF 1 2 0 0) (demo_vm [0, 0xFFFFFFFFFFFFFFF8, 1, 0, 0, 0, 0, 0, 0, 0, 0]) =
     Some (Inr (demo_vm [0, 0xFFFFFFFFFFFFFFFC, 1, 0, 0, 0, 0, 0, 0, 0, 0]))"
  using alu64_matches_reference
    [of "demo_insn 0xCF 1 2 0 0" "demo_vm [0, 0xFFFFFFFFFFFFFFF8, 1, 0, 0, 0, 0, 0, 0, 0, 0]"
        "0xFFFFFFFFFFFFFFFC" host64 "[]"]
  by (simp add: demo_defs alu64_ref_def signed64_def)

section \<open>Division\<close>

text \<open>The divisor an instruction uses, as a natural number.\<close>

definition divisor :: "insn \<Rightarrow> vm \<Rightarrow> nat" where
  "divisor i vm =
     (if opcode i = 0x37 \<or> opcode i = 0x97 then unat (imm64 i)
      else if opcode i = 0x3F \<or> opcode i = 0x9F then unat (regs vm ! src i)
      else if opcode i = 0x34 then unat (imm i)
      else unat (regs vm ! src i) mod 2 ^ 32)"

lemma ucast32_eq_0_iff: "(ucast (s :: u64) :: u32) = 0 \<longleftrightarrow> unat s mod 2 ^ 32 = 0"
  by (simp add: unat_eq_0 [symmetric] unsigned_ucast_eq take_bit_eq_mod)

text \<open>
  Each of the six division and remainder instructions stops with \<open>DivisionByZero\<close>
  exactly when its divisor is zero, and otherwise goes on (it does not panic).
\<close>

theorem division_fails_iff_zero:
  assumes "dst i < length (regs vm)" "src i < length (regs vm)"
    and "opcode i \<in> {0x37, 0x3F, 0x34, 0x3C, 0x97, 0x9F}"
  shows "if divisor i vm = 0 then exec_straight t text i vm = Some (Inl (Fault DivisionByZero))
     else \<exists>v. exec_straight t text i vm = Some (Inr (vm\<lparr>regs := (regs vm)[dst i := v]\<rparr>))"
  using assms(3) unfolding insert_iff
  by (elim disjE emptyE)
    (use assms(1,2) in \<open>auto simp: exec_straight_def arm_defs upd_defs divisor_def unat_eq_0 ucast32_eq_0_iff\<close>)

theorem division_fails_iff_zero_witness:
  "exec_straight host64 [] (demo_insn 0x3C 0 1 0 0) (demo_vm [7, 0x500000000, 0, 0, 0, 0, 0, 0, 0, 0, 0]) =
     Some (Inl (Fault DivisionByZero))"
  using division_fails_iff_zero
    [of "demo_insn 0x3C 0 1 0 0" "demo_vm [7, 0x500000000, 0, 0, 0, 0, 0, 0, 0, 0, 0]" host64 "[]"]
  by (simp add: demo_defs divisor_def)

section \<open>32-bit results\<close>

definition alu32_opcodes :: "u8 list" where
  "alu32_opcodes = [0xB4, 0xBC, 0x04, 0x0C, 0x14, 0x1C, 0x24, 0x2C, 0x34, 0x3C, 0x44, 0x4C, 0x54, 0x5C,
     0xA4, 0xAC, 0x64, 0x6C, 0x74, 0x7C]"

lemma unat_ucast32_lt: "unat (ucast (w :: u32) :: u64) < 2 ^ 32"
proof -
  have "unat w < 2 ^ 32" using unsigned_less [of w] by simp
  then show ?thesis by (simp add: unsigned_ucast_eq take_bit_nat_eq_self)
qed

lemma upd32_result:
  "upd32 f i vm = Inr vm' \<Longrightarrow> unat (regs vm' ! dst i) < 2 ^ 32"
  using unat_ucast32_lt by (auto simp: upd_defs bind_res_Inr_iff get_reg_Inr_iff set_reg_Inr_iff)

lemma alu32_result:
  assumes "opcode i \<in> set alu32_opcodes" "exec_straight t text i vm = Some (Inr vm')"
  shows "(\<exists>w :: u32. set_reg vm (dst i) (ucast w) = Inr vm') \<or> (\<exists>f. upd32 f i vm = Inr vm')"
  using assms(1) unfolding alu32_opcodes_def list.set insert_iff
  by (elim disjE emptyE)
    (use assms(2) in \<open>auto simp: exec_straight_def arm_defs with_src_def bind_res_Inr_iff split: if_split_asm\<close>)

text \<open>
  Every 32-bit arithmetic, logical, move and logical-shift instruction leaves a
  zero-extended result in its destination.
\<close>

theorem alu32_zero_extends:
  assumes "opcode i \<in> set alu32_opcodes" "exec_straight t text i vm = Some (Inr vm')"
  shows "unat (regs vm' ! dst i) < 2 ^ 32"
  using alu32_result [OF assms] unat_ucast32_lt
  by (auto simp: set_reg_Inr_iff dest: upd32_result)

theorem alu32_zero_extends_witness:
  "unat (regs (demo_vm [0xFFFFFFFE, 0, 0, 0, 0, 0, 0, 0, 0, 0, 0]) ! 0) < 2 ^ 32"
proof -
  have "exec_straight host64 [] (demo_insn 0x14 0 0 0 3) (demo_vm [1, 0, 0, 0, 0, 0, 0, 0, 0, 0, 0]) =
      Some (Inr (demo_vm [0xFFFFFFFE, 0, 0, 0, 0, 0, 0, 0, 0, 0, 0]))"
    by (simp add: exec_straight_def arm_defs upd_defs demo_defs)
  from alu32_zero_extends [OF _ this] show ?thesis
    by (simp add: alu32_opcodes_def demo_insn_def)
qed

lemma scast_low32: "(scast (ucast (scast (w :: u32) :: u64) :: u32) :: u64) = scast w"
  by (rule bit_word_eqI) (auto simp: bit_simps)

text \<open>
  The 32-bit negation and the 32-bit arithmetic shifts are the exception: their result
  is the sign extension of its own low half, so it has its upper half set when the 32-bit
  result is negative.
\<close>

theorem alu32_sign_extends:
  assumes "opcode i \<in> {0x84, 0xC4, 0xCC}" "exec_straight t text i vm = Some (Inr vm')"
  shows "regs vm' ! dst i = scast (ucast (regs vm' ! dst i) :: u32)"
  using assms(1) unfolding insert_iff
  by (elim disjE emptyE)
    (use assms(2) in \<open>auto simp: exec_straight_def arm_defs upd_defs bind_res_Inr_iff set_reg_Inr_iff
       scast_low32 split: if_split_asm\<close>)

theorem alu32_sign_extends_witness:
  "(0xFFFFFFFFFFFFFFFF :: u64) = scast (ucast (0xFFFFFFFFFFFFFFFF :: u64) :: u32)"
proof -
  have "exec_straight host64 [] (demo_insn 0x84 0 0 0 0) (demo_vm [1, 0, 0, 0, 0, 0, 0, 0, 0, 0, 0]) =
      Some (Inr (demo_vm [0xFFFFFFFFFFFFFFFF, 0, 0, 0, 0, 0, 0, 0, 0, 0, 0]))"
    by (simp add: exec_straight_def arm_defs upd_defs demo_defs host64_def)
  from alu32_sign_extends [OF _ this] show ?thesis
    by (simp add: demo_defs)
qed

section \<open>The wide load\<close>

text \<open>
  The two-word immediate load takes the upper half from the second word and moves past
  it. It loads the 64-bit value spelled by the two words exactly when the first immediate
  has its top bit clear (or the upper half is all ones); otherwise the sign extension of
  the low half overwrites the upper half with ones.
\<close>

theorem lddw_value:
  assumes "opcode i = 0x18" "dst i < length (regs vm)" "pc vm < length text"
  shows "exec_straight t text i vm = Some (Inr (vm\<lparr>pc := pc vm + 1,
      regs := (regs vm)[dst i :=
        (if bit (imm i) 31 then push_bit 32 (mask 32) OR ucast (imm i)
         else push_bit 32 (drop_bit 32 (text ! pc vm)) OR ucast (imm i))]\<rparr>))"
proof -
  have "push_bit 32 (drop_bit 32 w) OR (scast k :: u64) =
      (if bit k 31 then push_bit 32 (mask 32) OR ucast k else push_bit 32 (drop_bit 32 w) OR ucast k)"
    for w :: u64 and k :: u32
  proof (rule bit_word_eqI)
    fix n
    assume "n < LENGTH(64)"
    then show "bit (push_bit 32 (drop_bit 32 w) OR (scast k :: u64)) n \<longleftrightarrow>
        bit (if bit k 31 then push_bit 32 (mask 32) OR ucast k
             else push_bit 32 (drop_bit 32 w) OR ucast k :: u64) n"
      by (cases "n < 31"; cases "n = 31") (auto simp: bit_simps min_def not_less dest: bit_imp_le_length)
  qed
  then show ?thesis
    using assms by (simp add: exec_straight_def exec_mov_def exec_lddw_def Let_def)
qed

theorem lddw_value_witness:
  "exec_straight host64 [0, 0x100000000] (demo_insn 0x18 2 0 0 0x80000000)
     (demo_vm (replicate 11 0)\<lparr>pc := 1\<rparr>) =
   Some (Inr (demo_vm ((replicate 11 0)[2 := 0xFFFFFFFF80000000])\<lparr>pc := 2\<rparr>))"
  using lddw_value [of "demo_insn 0x18 2 0 0 0x80000000" "demo_vm (replicate 11 0)\<lparr>pc := 1\<rparr>"
      "[0, 0x100000000]" host64]
  by (simp add: demo_defs mask_eq_exp_minus_1)

section \<open>Loads and stores\<close>

text \<open>The opcodes of a store from a register, of the load of that width, and the width.\<close>

definition widths :: "(u8 \<times> u8 \<times> nat) list" where
  "widths = [(0x73, 0x71, 1), (0x6B, 0x69, 2), (0x63, 0x61, 4), (0x7B, 0x79, 8)]"

lemma ucast_from_le:
  assumes "8 * length bs \<le> LENGTH('a)" "LENGTH('a) \<le> LENGTH('b)"
  shows "ucast (from_le bs :: 'a::len word) = (from_le bs :: 'b::len word)"
proof (rule bit_word_eqI)
  fix n
  assume "n < LENGTH('b)"
  then show "bit (ucast (from_le bs :: 'a word) :: 'b word) n \<longleftrightarrow> bit (from_le bs :: 'b word) n"
    using assms by (auto simp: bit_ucast_iff bit_from_le)
qed

lemma ucast_from_le_view:
  "ucast (from_le (view_bytes f a 1) :: u8) = (from_le (view_bytes f a 1) :: u64)"
  "ucast (from_le (view_bytes f a 2) :: u16) = (from_le (view_bytes f a 2) :: u64)"
  "ucast (from_le (view_bytes f a 4) :: u32) = (from_le (view_bytes f a 4) :: u64)"
  by (rule ucast_from_le; simp)+

lemma load_with_outcome:
  fixes rd :: "target \<Rightarrow> memory \<Rightarrow> u64 \<Rightarrow> (sbpf_error, 'a::len word option) res"
  assumes "vm_ok t vm" "dst i < 11" "src i < 11" "1 \<le> n" "n \<le> 8"
    and "\<And>m a. rd t m a = read_le n t m a"
    and "\<And>f a. ucast (from_le (view_bytes f a n) :: 'a word) = (from_le (view_bytes f a n) :: u64)"
  shows "load_with (rd t) n i vm =
     (let a = regs vm ! src i + off64 i in
      if 2 ^ 64 \<le> unat a + n then Inl Panic
      else if mapped (mem_view (mem vm)) (unat a) n
      then Inr (vm\<lparr>regs := (regs vm)[dst i := from_le (view_bytes (mem_view (mem vm)) (unat a) n)]\<rparr>)
      else Inl (Fault (InvalidMemoryAccess a n)))"
proof -
  have ok: "length (regs vm) = 11" "mem_ok t (mem vm)" using assms(1) by (simp_all add: vm_ok_def)
  show ?thesis
    using assms(2,3) ok(1)
    by (simp add: load_with_def with_src_def Let_def assms(6,7) read_le_char [OF ok(2) assms(4,5)])
qed

text \<open>
  C17: a load of one, two, four or eight bytes writes the little-endian value of the bytes at
  its address, zero-extended, when all of them are mapped; it stops with
  \<open>InvalidMemoryAccess\<close> at that address and width when one is not; and it panics (instead
  of returning that error) when the access runs past the end of the address space.
\<close>

theorem load_outcome:
  assumes "vm_ok t vm" "(c, opcode i, n) \<in> set widths" "dst i < 11" "src i < 11"
  shows "exec_straight t text i vm = Some
     (let a = regs vm ! src i + off64 i in
      if 2 ^ 64 \<le> unat a + n then Inl Panic
      else if mapped (mem_view (mem vm)) (unat a) n
      then Inr (vm\<lparr>regs := (regs vm)[dst i := from_le (view_bytes (mem_view (mem vm)) (unat a) n)]\<rparr>)
      else Inl (Fault (InvalidMemoryAccess a n)))"
proof -
  note out = load_with_outcome [OF assms(1,3,4)]
  have "opcode i = 0x71 \<and> n = 1 \<or> opcode i = 0x69 \<and> n = 2 \<or> opcode i = 0x61 \<and> n = 4 \<or>
      opcode i = 0x79 \<and> n = 8"
    using assms(2) by (auto simp: widths_def)
  then show ?thesis
  proof (elim disjE conjE)
    assume o: "opcode i = 0x71" and n: "n = 1"
    show ?thesis unfolding n
      by (subst out [of 1 read_u8, symmetric])
        (simp_all add: exec_straight_def arm_defs o read_u8_def ucast_from_le_view(1) [unfolded One_nat_def])
  next
    assume o: "opcode i = 0x69" and n: "n = 2"
    show ?thesis unfolding n
      by (subst out [of 2 read_u16, symmetric])
        (simp_all add: exec_straight_def arm_defs o read_u16_def ucast_from_le_view)
  next
    assume o: "opcode i = 0x61" and n: "n = 4"
    show ?thesis unfolding n
      by (subst out [of 4 read_u32, symmetric])
        (simp_all add: exec_straight_def arm_defs o read_u32_def ucast_from_le_view)
  next
    assume o: "opcode i = 0x79" and n: "n = 8"
    show ?thesis unfolding n
      by (subst out [of 8 read_u64, symmetric])
        (simp_all add: exec_straight_def arm_defs o read_u64_def)
  qed
qed

lemma vm_ok_demo [simp]: "length rs = 11 \<Longrightarrow> vm_ok host64 (demo_vm rs)"
  by (simp add: vm_ok_def demo_vm_def mem_ok_new)

lemma unat_u64_max: "unat (- 1 :: u64) = 0xFFFFFFFFFFFFFFFF"
  by (simp add: unsigned_minus_1_eq_mask mask_eq_exp_minus_1)

theorem load_outcome_witness:
  "exec_straight host64 [] (demo_insn 0x79 0 1 0xFFFF 0) (demo_vm (replicate 11 0)) = Some (Inl Panic)"
  using load_outcome [where t = host64 and vm = "demo_vm (replicate 11 0)" and c = "0x7B"
      and i = "demo_insn 0x79 0 1 0xFFFF 0" and n = 8]
  by (simp add: widths_def demo_insn_def Let_def) (simp add: demo_vm_def unat_u64_max)

lemma store_with_Inr:
  assumes "store_with wr n i vm (Inr v) = Inr vm'"
  shows "dst i < length (regs vm) \<and>
     (\<exists>m. wr (mem vm) (regs vm ! dst i + off64 i) v = Inr (Some m) \<and> vm' = vm\<lparr>mem := m\<rparr>)"
  using assms by (auto simp: store_with_def with_dst_def Let_def bind_res_Inr_iff get_reg_Inr_iff)

lemma store_with_src_Inr:
  assumes "store_with wr n i vm (with_src i vm (\<lambda>s. Inr (f s))) = Inr vm'"
  shows "dst i < length (regs vm) \<and> src i < length (regs vm) \<and>
     (\<exists>m. wr (mem vm) (regs vm ! dst i + off64 i) (f (regs vm ! src i)) = Inr (Some m) \<and>
          vm' = vm\<lparr>mem := m\<rparr>)"
  using assms
  by (auto simp: store_with_def with_dst_def with_src_def Let_def bind_res_Inr_iff get_reg_Inr_iff)

lemma load_with_Inr:
  assumes "rd (mem vm) (regs vm ! src i + off64 i) = Inr (Some v)"
    and "src i < length (regs vm)" "dst i < length (regs vm)"
  shows "load_with rd n i vm = Inr (vm\<lparr>regs := (regs vm)[dst i := ucast v]\<rparr>)"
  using assms by (simp add: load_with_def with_src_def Let_def)

lemma write_le_ucast:
  "8 * n \<le> LENGTH('a) \<Longrightarrow> write_le n t m a (ucast (s :: u64) :: 'a::len word) = write_le n t m a s"
  by (simp add: write_le_def to_le_ucast cong: option.case_cong)

lemma store_reg_Inr:
  assumes "exec_straight t text i vm = Some (Inr vm')" "(opcode i, c, n) \<in> set widths"
  shows "dst i < length (regs vm) \<and> src i < length (regs vm) \<and> 1 \<le> n \<and> n \<le> 8 \<and>
     (\<exists>m. vm' = vm\<lparr>mem := m\<rparr> \<and>
        write_le n t (mem vm) (regs vm ! dst i + off64 i) (regs vm ! src i) =
          (Inr (Some m) :: (sbpf_error, memory option) res))"
proof -
  have "opcode i = 0x73 \<and> n = 1 \<or> opcode i = 0x6B \<and> n = 2 \<or> opcode i = 0x63 \<and> n = 4 \<or>
      opcode i = 0x7B \<and> n = 8"
    using assms(2) by (auto simp: widths_def)
  then show ?thesis
    by (elim disjE conjE)
      (use assms(1) in \<open>auto dest!: store_with_src_Inr
         simp: exec_straight_def arm_defs access_defs write_le_ucast [of 1, simplified]
           write_le_ucast\<close>)
qed

text \<open>
  C39: what a register store of one, two, four or eight bytes writes, a load of that width
  at the same address reads back, truncated to the width; the store leaves the registers
  alone.
\<close>

theorem load_after_store:
  assumes "vm_ok t vm" "(opcode i, opcode j, n) \<in> set widths"
    and "exec_straight t text i vm = Some (Inr vm')"
    and "dst j < 11" "src j < 11" "regs vm ! src j + off64 j = regs vm ! dst i + off64 i"
  shows "exec_straight t text j vm' =
     Some (Inr (vm'\<lparr>regs := (regs vm)[dst j := take_bit (8 * n) (regs vm ! src i)]\<rparr>))"
proof -
  have ok: "length (regs vm) = 11" "mem_ok t (mem vm)" using assms(1) by (simp_all add: vm_ok_def)
  obtain m where n: "1 \<le> n" "n \<le> 8" and vm': "vm' = vm\<lparr>mem := m\<rparr>"
      and w: "write_le n t (mem vm) (regs vm ! dst i + off64 i) (regs vm ! src i) =
        (Inr (Some m) :: (sbpf_error, memory option) res)"
    using store_reg_Inr [OF assms(3,2)] by blast
  have okm: "mem_ok t m"
    using write_le_mem_ok [OF ok(2) w] by simp
  then have "vm_ok t vm'" using assms(1) by (simp add: vm' vm_ok_def)
  note out = load_outcome [OF this assms(2,4,5)]
  define a where "a = regs vm ! dst i + off64 i"
  have "read_le n t m a = (Inr (Some (take_bit (8 * n) (regs vm ! src i))) :: (sbpf_error, _) res)"
    unfolding a_def by (rule read_write_le [OF ok(2) n w])
  then have "unat a + n < 2 ^ 64" "mapped (mem_view m) (unat a) n"
      "from_le (view_bytes (mem_view m) (unat a) n) = take_bit (8 * n) (regs vm ! src i)"
    unfolding read_le_char [OF okm n] by (simp_all split: if_split_asm)
  moreover have "regs vm' ! src j + off64 j = a" "mem vm' = m" "regs vm' = regs vm"
    using assms(6) by (simp_all add: vm' a_def)
  ultimately show ?thesis using out by (simp add: Let_def)
qed

definition demo_stored :: memory where
  "demo_stored = (Memory_new 16 16)\<lparr>stack := [0, 0, 0, 0, 0, 0, 0, 0, 0x45, 0x23, 0, 0, 0, 0, 0, 0]\<rparr>"

lemma demo_store:
  "write_le 2 host64 (Memory_new 16 16) 0x100000008 (0x12345 :: u16) = Inr (Some demo_stored)"
proof -
  have b: "(0x2345 :: u8) = 0x45" by simp
  have "mem_ok host64 (Memory_new 16 16)" by (simp add: mem_ok_new)
  from write_le_at [OF this, of 2 "0x100000008" False 8 "0x12345 :: u16"]
  show ?thesis
    by (simp add: region_def region_base_def Memory_new_def set_region_def demo_stored_def splice_def
        replicate_numeral to_le_numeral b)
qed

theorem load_after_store_witness:
  "exec_straight host64 [] (demo_insn 0x69 2 10 0xFFF8 0)
     (demo_vm [0, 0x12345, 0, 0, 0, 0, 0, 0, 0, 0, 0x100000010]\<lparr>mem := demo_stored\<rparr>) =
   Some (Inr (demo_vm [0, 0x12345, 0x2345, 0, 0, 0, 0, 0, 0, 0, 0x100000010]\<lparr>mem := demo_stored\<rparr>))"
proof -
  let ?vm = "demo_vm [0, 0x12345, 0, 0, 0, 0, 0, 0, 0, 0, 0x100000010]"
  have "exec_straight host64 [] (demo_insn 0x6B 10 1 0xFFF8 0) ?vm =
      Some (Inr (?vm\<lparr>mem := demo_stored\<rparr>))"
    by (simp add: exec_straight_def arm_defs upd_defs store_with_def demo_defs write_u16_def Let_def
        get_reg_def demo_store)
  from load_after_store [OF _ _ this, of "demo_insn 0x69 2 10 0xFFF8 0" 2]
  show ?thesis by (simp add: widths_def demo_insn_def) (simp add: demo_vm_def take_bit_eq_mask mask_eq_exp_minus_1)
qed

end
