(* ===== verification/Sbpf_Run.thy ===== *)
theory Sbpf_Run
  imports Sbpf_Instr
begin

text \<open>
  Behaviour of whole runs of the interpreter: runs stay inside the two memory regions,
  texts without backward jumps return, a jump to itself does not, calls and exits match,
  the call depth is bounded, the opcodes outside the table are refused, and each syscall
  has its effect, for both implementations of the syscall trait.
\<close>

section \<open>One turn\<close>

definition shipped :: "target \<Rightarrow> syscalls \<Rightarrow> bool" where
  "shipped t sys \<longleftrightarrow> sys = guest_syscalls t \<or> sys = stub_syscalls t"

lemma shipped_intros [simp]: "shipped t (guest_syscalls t)" "shipped t (stub_syscalls t)"
  by (simp_all add: shipped_def)

lemma shipped_dispatch_safe:
  "shipped t sys \<Longrightarrow> vm_ok t vm \<Longrightarrow> arm_safe vm (dispatch_syscall t sys h vm)"
  using guest_sys.dispatch_syscall_safe stub_sys.dispatch_syscall_safe
  by (auto simp: shipped_def vm_ok_def)

lemma vm_ok_pc [simp]: "vm_ok t (vm\<lparr>pc := p\<rparr>) = vm_ok t vm"
  by (simp add: vm_ok_def)

text \<open>A turn of the loop that goes on.\<close>

definition turn :: "target \<Rightarrow> syscalls \<Rightarrow> u64 list \<Rightarrow> vm \<Rightarrow> vm \<Rightarrow> bool" where
  "turn t sys text vm vm' \<longleftrightarrow> step t sys text vm = Inr (Next vm')"

lemma shipped_step_safe:
  assumes "vm_ok t vm" "shipped t sys"
  shows "step_safe t (step t sys text vm)"
  using guest_sys.step_is_safe [OF assms(1)] stub_sys.step_is_safe [OF assms(1)] assms(2)
  unfolding shipped_def by blast

lemma turns_well_formed:
  assumes "(turn t sys text)\<^sup>*\<^sup>* vm vm'" "vm_ok t vm" "shipped t sys"
  shows "vm_ok t vm'"
  using assms(1)
proof (induction rule: rtranclp_induct)
  case (step vm1 vm2)
  then show ?case using shipped_step_safe [OF step.IH assms(3), of "text"] by (simp add: turn_def)
qed (rule assms(2))

lemma step_safe_stop: "step_safe t r \<Longrightarrow> r \<noteq> Inl Undefined \<and> r \<noteq> Inl (Fault BadExit)"
  by auto

definition fetched :: "u64 list \<Rightarrow> vm \<Rightarrow> insn" where
  "fetched text vm = decode (text ! pc vm)"

lemma step_fetched:
  "pc vm < length text \<Longrightarrow>
   step t sys text vm = exec_insn t sys text (fetched text vm) (vm\<lparr>pc := pc vm + 1\<rparr>)"
  by (simp add: step_def fetched_def Let_def)

definition straight_opcodes :: "u8 list" where
  "straight_opcodes =
     [0xB7, 0xBF, 0xB4, 0xBC, 0x18, 0x07, 0x0F, 0x04, 0x0C, 0x17, 0x1F, 0x14, 0x1C, 0x27, 0x2F, 0x24, 0x2C,
      0x37, 0x3F, 0x34, 0x3C, 0x97, 0x9F, 0x87, 0x84, 0x47, 0x4F, 0x44, 0x4C, 0x57, 0x5F, 0x54, 0x5C,
      0xA7, 0xAF, 0xA4, 0xAC, 0x67, 0x6F, 0x64, 0x6C, 0x77, 0x7F, 0x74, 0x7C, 0xC7, 0xCF, 0xC4, 0xCC,
      0x71, 0x69, 0x61, 0x79, 0x73, 0x6B, 0x63, 0x7B, 0x72, 0x6A, 0x62, 0x7A,
      0x05, 0x15, 0x1D, 0x55, 0x5D, 0x25, 0x2D, 0x35, 0x3D, 0xA5, 0xAD, 0xB5, 0xBD, 0x45, 0x4D,
      0x65, 0x6D, 0x75, 0x7D, 0xC5, 0xCD, 0xD5, 0xDD]"

definition call_opcodes :: "u8 list" where
  "call_opcodes = [0x85, 0x8D, 0x95]"

lemma exec_call_None: "exec_call t sys i vm = None \<longleftrightarrow> opcode i \<notin> set call_opcodes"
  by (simp add: exec_call_def call_opcodes_def)

lemma arm_None:
  "exec_mov i vm = None \<longleftrightarrow> opcode i \<notin> {0xB7, 0xBF, 0xB4, 0xBC}"
  "exec_lddw text i vm = None \<longleftrightarrow> opcode i \<noteq> 0x18"
  "exec_add i vm = None \<longleftrightarrow> opcode i \<notin> {0x07, 0x0F, 0x04, 0x0C}"
  "exec_sub i vm = None \<longleftrightarrow> opcode i \<notin> {0x17, 0x1F, 0x14, 0x1C}"
  "exec_mul i vm = None \<longleftrightarrow> opcode i \<notin> {0x27, 0x2F, 0x24, 0x2C}"
  "exec_div i vm = None \<longleftrightarrow> opcode i \<notin> {0x37, 0x3F, 0x34, 0x3C}"
  "exec_mod i vm = None \<longleftrightarrow> opcode i \<notin> {0x97, 0x9F}"
  "exec_neg t i vm = None \<longleftrightarrow> opcode i \<notin> {0x87, 0x84}"
  "exec_or i vm = None \<longleftrightarrow> opcode i \<notin> {0x47, 0x4F, 0x44, 0x4C}"
  "exec_and i vm = None \<longleftrightarrow> opcode i \<notin> {0x57, 0x5F, 0x54, 0x5C}"
  "exec_xor i vm = None \<longleftrightarrow> opcode i \<notin> {0xA7, 0xAF, 0xA4, 0xAC}"
  "exec_lsh i vm = None \<longleftrightarrow> opcode i \<notin> {0x67, 0x6F, 0x64, 0x6C}"
  "exec_rsh i vm = None \<longleftrightarrow> opcode i \<notin> {0x77, 0x7F, 0x74, 0x7C}"
  "exec_arsh i vm = None \<longleftrightarrow> opcode i \<notin> {0xC7, 0xCF, 0xC4, 0xCC}"
  "exec_load t i vm = None \<longleftrightarrow> opcode i \<notin> {0x71, 0x69, 0x61, 0x79}"
  "exec_store_reg t i vm = None \<longleftrightarrow> opcode i \<notin> {0x73, 0x6B, 0x63, 0x7B}"
  "exec_store_imm t i vm = None \<longleftrightarrow> opcode i \<notin> {0x72, 0x6A, 0x62, 0x7A}"
  by (simp_all add: arm_defs)

lemma jump_None:
  "exec_jump t i vm = None \<longleftrightarrow> opcode i \<notin>
     {0x05, 0x15, 0x1D, 0x55, 0x5D, 0x25, 0x2D, 0x35, 0x3D, 0xA5, 0xAD, 0xB5, 0xBD, 0x45, 0x4D}"
  "exec_jump_signed t i vm = None \<longleftrightarrow> opcode i \<notin> {0x65, 0x6D, 0x75, 0x7D, 0xC5, 0xCD, 0xD5, 0xDD}"
  by (simp_all add: exec_jump_def exec_jump_signed_def)

lemma first_some_None: "first_some xs = None \<longleftrightarrow> list_all (\<lambda>x. x = None) xs"
  by (induction xs rule: first_some.induct) simp_all

lemma exec_straight_None: "exec_straight t text i vm = None \<longleftrightarrow> opcode i \<notin> set straight_opcodes"
  unfolding exec_straight_def first_some_None list.pred_inject arm_None jump_None straight_opcodes_def
  by (simp only: list.set insert_iff empty_iff de_Morgan_disj simp_thms conj_assoc list.pred_inject(1))

lemma exec_insn_straight:
  "opcode i \<in> set straight_opcodes \<Longrightarrow>
   exec_insn t sys text i vm = bind_res (the (exec_straight t text i vm)) (\<lambda>vm'. Inr (Next vm'))"
  using exec_straight_None [of t "text" i vm] by (cases "exec_straight t text i vm") (auto simp: exec_insn_def)

lemma call_not_straight: "c \<in> set call_opcodes \<Longrightarrow> c \<notin> set straight_opcodes"
  by (auto simp: call_opcodes_def straight_opcodes_def)

lemma exec_insn_call:
  "opcode i \<in> set call_opcodes \<Longrightarrow> exec_insn t sys text i vm = the (exec_call t sys i vm)"
  using exec_straight_None [of t "text" i vm] call_not_straight exec_call_None [of t sys i vm]
  by (auto simp: exec_insn_def)

lemma exec_insn_unknown:
  "opcode i \<notin> set straight_opcodes \<Longrightarrow> opcode i \<notin> set call_opcodes \<Longrightarrow>
   exec_insn t sys text i vm = Inl (Fault (UnknownOpcode (opcode i)))"
  using exec_straight_None [of t "text" i vm] exec_call_None [of t sys i vm] by (simp add: exec_insn_def)

lemma exec_straight_stop:
  assumes "vm_ok t vm" "exec_straight t text i vm = Some (Inl e)"
  shows "arm_stop e"
  using exec_straight_safe [of t vm "text" i] assms by (auto simp: arms_safe_def vm_ok_def)

lemma exec_call_stop:
  assumes "vm_ok t vm" "shipped t sys" "exec_call t sys i vm = Some (Inl e)"
  shows "arm_stop e \<or> e = Fault CallStackOverflow \<and> opcode i = 0x85 \<and> src i \<noteq> 1 \<and>
     MAX_CALL_DEPTH \<le> length (call_stack vm)"
  using assms(1,3) shipped_dispatch_safe [OF assms(2,1), of "imm i"]
  by (auto simp: exec_call_def arm_safe_def bind_res_Inl_iff set_reg_def vm_ok_def
      split: if_splits list.splits)

lemma step_stop_cases:
  assumes "vm_ok t vm" "shipped t sys" "step t sys text vm = Inl e"
  obtains (pc) "length text \<le> pc vm" "e = Fault (OutOfBounds (pc vm))"
  | (arm) "pc vm < length text" "arm_stop e"
      "opcode (fetched text vm) \<in> set straight_opcodes \<union> set call_opcodes"
  | (depth) "pc vm < length text" "e = Fault CallStackOverflow" "opcode (fetched text vm) = 0x85"
      "src (fetched text vm) \<noteq> 1" "MAX_CALL_DEPTH \<le> length (call_stack vm)"
  | (unknown) "pc vm < length text" "e = Fault (UnknownOpcode (opcode (fetched text vm)))"
      "opcode (fetched text vm) \<notin> set straight_opcodes \<union> set call_opcodes"
proof (cases "pc vm < length text")
  case False
  then show ?thesis using assms(3) by (intro pc) (auto simp: step_def)
next
  case in_text: True
  let ?i = "fetched text vm" and ?vm = "vm\<lparr>pc := pc vm + 1\<rparr>"
  have x: "exec_insn t sys text ?i ?vm = Inl e" using assms(3) in_text by (simp add: step_fetched)
  have ok: "vm_ok t ?vm" using assms(1) by simp
  show ?thesis
  proof (cases "exec_straight t text ?i ?vm")
    case (Some r)
    then have "opcode ?i \<in> set straight_opcodes" "r = Inl e"
      using exec_straight_None [of t "text" ?i ?vm] x by (auto simp: exec_insn_def bind_res_Inl_iff)
    then show ?thesis using exec_straight_stop [OF ok] Some in_text by (intro arm) auto
  next
    case straight: None
    show ?thesis
    proof (cases "exec_call t sys ?i ?vm")
      case (Some r)
      then have c: "exec_call t sys ?i ?vm = Some (Inl e)" using straight x by (simp add: exec_insn_def)
      have "opcode ?i \<in> set call_opcodes" using exec_call_None [of t sys ?i ?vm] c by auto
      then show ?thesis
        using exec_call_stop [OF ok assms(2) c] in_text arm depth by auto
    next
      case None
      then show ?thesis
        using straight x in_text exec_straight_None [of t "text" ?i ?vm] exec_call_None [of t sys ?i ?vm]
        by (intro unknown) (auto simp: exec_insn_def)
    qed
  qed
qed

section \<open>Which instructions there are, and how deep calls go\<close>

text \<open>
  A turn stops with \<open>UnknownOpcode\<close> exactly when the fetched opcode is none of the
  arms of the interpreter. The table has no 32-bit remainder and no byte swap.
\<close>

theorem unknown_opcode_iff:
  assumes "vm_ok t vm" "shipped t sys"
  shows "step t sys text vm = Inl (Fault (UnknownOpcode c)) \<longleftrightarrow>
     pc vm < length text \<and> c = opcode (fetched text vm) \<and>
     c \<notin> set straight_opcodes \<and> c \<notin> set call_opcodes"
proof
  assume "step t sys text vm = Inl (Fault (UnknownOpcode c))"
  then show "pc vm < length text \<and> c = opcode (fetched text vm) \<and>
      c \<notin> set straight_opcodes \<and> c \<notin> set call_opcodes"
    by (rule step_stop_cases [OF assms]) auto
next
  assume "pc vm < length text \<and> c = opcode (fetched text vm) \<and>
      c \<notin> set straight_opcodes \<and> c \<notin> set call_opcodes"
  then show "step t sys text vm = Inl (Fault (UnknownOpcode c))"
    by (auto simp: step_fetched intro: exec_insn_unknown)
qed

theorem unknown_opcode_iff_witness:
  "step host64 (guest_syscalls host64) [0x94] (demo_vm (replicate 11 0)) = Inl (Fault (UnknownOpcode 0x94))"
  using unknown_opcode_iff [OF vm_ok_demo [of "replicate 11 0"], of "guest_syscalls host64" "[0x94]" "0x94"]
  by (simp add: fetched_def decode_def demo_vm_def straight_opcodes_def call_opcodes_def)

text \<open>
  C21: a turn stops with \<open>CallStackOverflow\<close> exactly when it fetches an internal call while
  64 calls are active.
\<close>

theorem call_depth_bound:
  assumes "vm_ok t vm" "shipped t sys"
  shows "step t sys text vm = Inl (Fault CallStackOverflow) \<longleftrightarrow>
     pc vm < length text \<and> opcode (fetched text vm) = 0x85 \<and> src (fetched text vm) \<noteq> 1 \<and>
     length (call_stack vm) = 64"
proof
  assume "step t sys text vm = Inl (Fault CallStackOverflow)"
  then show "pc vm < length text \<and> opcode (fetched text vm) = 0x85 \<and> src (fetched text vm) \<noteq> 1 \<and>
      length (call_stack vm) = 64"
    using assms(1) by (elim step_stop_cases [OF assms]) (auto simp: vm_ok_def MAX_CALL_DEPTH_def)
next
  assume "pc vm < length text \<and> opcode (fetched text vm) = 0x85 \<and> src (fetched text vm) \<noteq> 1 \<and>
      length (call_stack vm) = 64"
  then show "step t sys text vm = Inl (Fault CallStackOverflow)"
    by (simp add: step_fetched exec_insn_call call_opcodes_def exec_call_def MAX_CALL_DEPTH_def)
qed

theorem call_depth_bound_witness:
  "step host64 (guest_syscalls host64) [0x85]
     (demo_vm (replicate 11 0)\<lparr>call_stack := replicate 64 (0, replicate 11 0)\<rparr>) =
   Inl (Fault CallStackOverflow)"
  using call_depth_bound [of host64 "demo_vm (replicate 11 0)\<lparr>call_stack := replicate 64 (0, replicate 11 0)\<rparr>"
      "guest_syscalls host64" "[0x85]"]
  by (simp add: fetched_def decode_def demo_vm_def vm_ok_def mem_ok_new MAX_CALL_DEPTH_def list_all_length)

text \<open>
  C20: an internal call and the exit that finds its frame on top of the call stack cancel
  out, but for the result: the exit continues after the call with all of the registers
  \<open>r1\<close> to \<open>r10\<close> the caller had and with the callee's \<open>r0\<close>; memory stays the callee's.
\<close>

theorem exit_returns_from_call:
  assumes "vm_ok t vm" "step t sys text vm = Inr (Next vm1)"
    and "opcode (fetched text vm) = 0x85" "src (fetched text vm) \<noteq> 1"
    and "call_stack vm2 = call_stack vm1" "length (regs vm2) = 11" "pc vm2 < length text"
    and "opcode (fetched text vm2) = 0x95"
  shows "step t sys text vm2 = Inr (Next (vm2\<lparr>call_stack := call_stack vm,
     regs := (regs vm)[0 := regs vm2 ! 0], pc := pc vm + 1\<rparr>))"
proof -
  have "pc vm < length text" using assms(2) by (auto simp: step_def split: if_splits)
  then have "call_stack vm1 = (pc vm + 1, regs vm) # call_stack vm"
    using assms(2-4) by (auto simp: step_fetched exec_insn_call call_opcodes_def exec_call_def split: if_splits)
  then show ?thesis
    using assms(1,5-8)
    by (simp add: step_fetched exec_insn_call call_opcodes_def exec_call_def vm_ok_def)
qed

theorem exit_returns_from_call_witness:
  "step host64 (guest_syscalls host64) [0x100000085, 0, 0x95]
     (demo_vm [7, 1, 2, 3, 4, 5, 6, 7, 8, 9, 10]
       \<lparr>pc := 2, call_stack := [(1, [0, 0, 0, 0, 0, 0, 0, 0, 0, 0, 0])]\<rparr>) =
   Inr (Next (demo_vm [7, 0, 0, 0, 0, 0, 0, 0, 0, 0, 0]\<lparr>pc := 1\<rparr>))"
proof -
  let ?text = "[0x100000085, 0, 0x95] :: u64 list" and ?zs = "[0, 0, 0, 0, 0, 0, 0, 0, 0, 0, 0] :: u64 list"
  have call: "step host64 (guest_syscalls host64) ?text (demo_vm ?zs) =
      Inr (Next (demo_vm ?zs\<lparr>pc := 2, call_stack := [(1, ?zs)]\<rparr>))"
    by (simp add: step_fetched exec_insn_call call_opcodes_def exec_call_def fetched_def decode_def
        demo_vm_def MAX_CALL_DEPTH_def pc_rel_def host64_def)
  show ?thesis
    using exit_returns_from_call [OF _ call,
        of "demo_vm [7, 1, 2, 3, 4, 5, 6, 7, 8, 9, 10]\<lparr>pc := 2, call_stack := [(1, ?zs)]\<rparr>"]
    by (simp add: fetched_def decode_def demo_vm_def vm_ok_def mem_ok_new)
qed

section \<open>Whole runs\<close>

lemma shipped_run_safe:
  assumes "vm_ok t vm" "shipped t sys" "run t sys text vm = Some r"
  shows "r \<noteq> Inl Undefined \<and> r \<noteq> Inl (Fault BadExit) \<and> (\<forall>x vm'. r = Inr (x, vm') \<longrightarrow> vm_ok t vm')"
proof -
  obtain n where "run_fuel n t sys text vm = Some r"
    using assms(3) by (auto simp: run_iff_fuel)
  then show ?thesis
    using assms(1,2) guest_sys.run_fuel_safe stub_sys.run_fuel_safe unfolding shipped_def by blast
qed

lemma run_final_step:
  assumes "run_fuel n t sys text vm = Some (Inr (x, vm'))"
  shows "\<exists>vm0. step t sys text vm0 = Inr (Exit x vm')"
  using assms
proof (induction n arbitrary: vm)
  case (Suc n)
  then show ?case by (auto split: sum.splits flow.splits)
qed simp

lemma step_Exit:
  assumes "step t sys text vm = Inr (Exit x vm')"
  shows "opcode (fetched text vm) = 0x95 \<and> pc vm < length text \<and> vm' = vm\<lparr>pc := pc vm + 1\<rparr> \<and>
     call_stack vm = [] \<and> 0 < length (regs vm) \<and> x = regs vm ! 0"
proof -
  have l: "pc vm < length text" using assms by (auto simp: step_def split: if_splits)
  let ?vm = "vm\<lparr>pc := pc vm + 1\<rparr>"
  have x: "exec_insn t sys text (fetched text vm) ?vm = Inr (Exit x vm')"
    using assms l by (simp add: step_fetched)
  then have "exec_call t sys (fetched text vm) ?vm = Some (Inr (Exit x vm'))"
    by (auto simp: exec_insn_def bind_res_Inr_iff split: option.splits)
  then show ?thesis using l
    by (auto simp: exec_call_def bind_res_Inr_iff get_reg_Inr_iff split: if_splits list.splits)
qed

text \<open>
  C7: a run, whatever the text and whether it ends or not, never leaves the two memory vectors:
  every machine it passes through is well formed, and the turn from there has no undefined
  behaviour in the \<open>unsafe\<close> blocks and does not stop with \<open>BadExit\<close>; nor does the run. When it
  returns a value, that is \<open>r0\<close> at an exit instruction outside all calls, and the machine is
  still well formed.
\<close>

theorem run_stays_in_sandbox:
  assumes "vm_ok t vm" "shipped t sys"
  shows "(\<forall>vm'. (turn t sys text)\<^sup>*\<^sup>* vm vm' \<longrightarrow> vm_ok t vm' \<and>
        step t sys text vm' \<noteq> Inl Undefined \<and> step t sys text vm' \<noteq> Inl (Fault BadExit)) \<and>
     (\<forall>r. run t sys text vm = Some r \<longrightarrow> r \<noteq> Inl Undefined \<and> r \<noteq> Inl (Fault BadExit) \<and>
        (\<forall>x vm'. r = Inr (x, vm') \<longrightarrow> vm_ok t vm' \<and> call_stack vm' = [] \<and> x = regs vm' ! 0 \<and>
           0 < pc vm' \<and> pc vm' \<le> length text \<and> opcode (decode (text ! (pc vm' - 1))) = 0x95))"
proof (intro conjI allI impI)
  fix vm'
  assume "(turn t sys text)\<^sup>*\<^sup>* vm vm'"
  then show "vm_ok t vm'" using assms by (rule turns_well_formed)
  from step_safe_stop [OF shipped_step_safe [OF this assms(2), of "text"]]
  show "step t sys text vm' \<noteq> Inl Undefined" "step t sys text vm' \<noteq> Inl (Fault BadExit)" by simp_all
next
  fix r x vm'
  assume r: "run t sys text vm = Some r"
  show "r \<noteq> Inl Undefined" "r \<noteq> Inl (Fault BadExit)" using shipped_run_safe [OF assms r] by simp_all
  assume x: "r = Inr (x, vm')"
  then obtain vm0 where "step t sys text vm0 = Inr (Exit x vm')"
    using r run_final_step unfolding run_iff_fuel by blast
  from step_Exit [OF this] show "vm_ok t vm'" "call_stack vm' = []" "x = regs vm' ! 0" "0 < pc vm'"
    "pc vm' \<le> length text" "opcode (decode (text ! (pc vm' - 1))) = 0x95"
    using shipped_run_safe [OF assms r] x by (auto simp: fetched_def)
qed

definition demo_text :: "u64 list" where "demo_text = [0x5000000B7, 0x95]"

lemma demo_text_run:
  "run host64 (guest_syscalls host64) demo_text (demo_vm [0, 0, 0, 0, 0, 0, 0, 0, 0, 0, 0]) =
   Some (Inr (5, demo_vm [5, 0, 0, 0, 0, 0, 0, 0, 0, 0, 0]\<lparr>pc := 2\<rparr>))"
proof -
  let ?vm = "demo_vm [0, 0, 0, 0, 0, 0, 0, 0, 0, 0, 0]" and ?vm' = "demo_vm [5, 0, 0, 0, 0, 0, 0, 0, 0, 0, 0]"
  have "step host64 (guest_syscalls host64) demo_text ?vm = Inr (Next (?vm'\<lparr>pc := 1\<rparr>))"
    by (simp add: step_fetched exec_insn_straight straight_opcodes_def exec_straight_def exec_mov_def
        fetched_def decode_def demo_vm_def demo_text_def)
  moreover have "step host64 (guest_syscalls host64) demo_text (?vm'\<lparr>pc := 1\<rparr>) = Inr (Exit 5 (?vm'\<lparr>pc := 2\<rparr>))"
    by (simp add: step_fetched exec_insn_call call_opcodes_def exec_call_def
        fetched_def decode_def demo_vm_def demo_text_def)
  ultimately show ?thesis by (intro run_fuel_run [of "Suc (Suc 0)"]) simp
qed

theorem run_stays_in_sandbox_witness:
  "(5 :: u64) = regs (demo_vm [5, 0, 0, 0, 0, 0, 0, 0, 0, 0, 0]) ! 0 \<and>
   opcode (decode (demo_text ! 1)) = 0x95"
  using run_stays_in_sandbox [OF vm_ok_demo [of "[0, 0, 0, 0, 0, 0, 0, 0, 0, 0, 0]"],
      of "guest_syscalls host64" demo_text] demo_text_run
  by simp

text \<open>
  C22: the machine keeps its type: a turn from a machine of eleven registers, two memory
  regions in the address space and at most 64 frames of eleven registers each leads to such
  a machine, by an instruction or by the final exit, or stops with an error of the
  interpreter or a panic; it never reads or writes outside the two regions.
\<close>

theorem step_keeps_machine_well_formed:
  assumes "vm_ok t vm" "shipped t sys"
  shows "case step t sys text vm of
       Inr (Next vm') \<Rightarrow> vm_ok t vm'
     | Inr (Exit r0 vm') \<Rightarrow> vm_ok t vm' \<and> r0 = regs vm' ! 0 \<and> call_stack vm' = []
     | Inl e \<Rightarrow> e \<noteq> Undefined \<and> e \<noteq> Fault BadExit"
proof -
  note s = shipped_step_safe [OF assms, of "text"]
  show ?thesis
  proof (cases "step t sys text vm")
    case (Inl e)
    then show ?thesis using s by simp
  next
    case (Inr f)
    then show ?thesis using s step_Exit [of t sys "text" vm] by (cases f) auto
  qed
qed

theorem step_keeps_machine_well_formed_witness:
  "vm_ok host64 (demo_vm (replicate 11 0)\<lparr>pc := 1, call_stack := [(1, replicate 11 0)]\<rparr>)"
proof -
  have "step host64 (guest_syscalls host64) [0x85] (demo_vm (replicate 11 0)) =
      Inr (Next (demo_vm (replicate 11 0)\<lparr>pc := 1, call_stack := [(1, replicate 11 0)]\<rparr>))"
    by (simp add: step_fetched exec_insn_call call_opcodes_def exec_call_def fetched_def decode_def demo_vm_def
        MAX_CALL_DEPTH_def pc_rel_def host64_def)
  then show ?thesis
    using step_keeps_machine_well_formed [OF vm_ok_demo [of "replicate 11 0"], of "guest_syscalls host64" "[0x85]"]
    by simp
qed

text \<open>
  C19: a text whose jumps all have non-negative offsets and that makes no internal call
  returns from a fresh machine, within one turn per instruction and one more.
\<close>

theorem forward_text_returns:
  assumes "forward_text text" "length text + 2 ^ 15 \<le> 2 ^ usize_bits t" "Vm_new t m = Inr vm"
  shows "\<exists>r. run_fuel (length text + 1) t sys text vm = Some r \<and> run t sys text vm = Some r"
proof -
  have "call_stack vm = []" using assms(3) by (auto simp: Vm_new_def bind_res_Inr_iff)
  from forward_run_fuel [OF assms(1,2) this, of "length text"]
  obtain r where "run_fuel (Suc (length text)) t sys text vm = Some r" by auto
  then show ?thesis using run_fuel_run by (intro exI [of _ r]) (simp del: run_fuel.simps)
qed

theorem forward_text_returns_witness:
  "\<exists>vm r. Vm_new host64 (Memory_new 16 16) = Inr vm \<and>
     run_fuel (length demo_text + 1) host64 (guest_syscalls host64) demo_text vm = Some r"
proof -
  have "forward_text demo_text"
    by (simp add: forward_text_def forward_insn_def demo_text_def decode_def jump_opcodes_def)
  moreover obtain vm where "Vm_new host64 (Memory_new 16 16) = Inr vm"
    by (simp add: Vm_new_def add_u64_def host64_def)
  ultimately show ?thesis
    using forward_text_returns [of demo_text host64 "Memory_new 16 16" vm "guest_syscalls host64"]
    by (auto simp: demo_text_def host64_def)
qed

text \<open>
  The interpreter has no instruction budget: an unconditional jump to itself is run
  forever.
\<close>

theorem self_jump_never_returns:
  assumes "pc vm < length text" "fetched text vm = \<lparr>opcode = 0x05, dst = d, src = s, off = 0xFFFF, imm = k\<rparr>"
    and "length text < 2 ^ usize_bits t"
  shows "run t sys text vm = None"
proof -
  have s: "step t sys text vm = Inr (Next vm)"
    using assms by (simp add: step_fetched exec_insn_straight straight_opcodes_def exec_straight_def
        arm_defs jump_if_def pc_rel_def)
  have "run_fuel n t sys text vm = None" for n
    by (induction n) (simp_all add: s)
  then show ?thesis by (cases "run t sys text vm") (auto simp: run_iff_fuel)
qed

theorem self_jump_never_returns_witness:
  "run host64 (guest_syscalls host64) [0xFFFF0005] (demo_vm (replicate 11 0)) = None"
  using self_jump_never_returns [of "demo_vm (replicate 11 0)" "[0xFFFF0005]" 0 0 0 host64]
  by (simp add: fetched_def decode_def demo_vm_def host64_def)

end
