(* ===== verification/Sbpf_Effects.thy ===== *)
theory Sbpf_Effects
  imports Sbpf_Run
begin

text \<open>
  The effect of each syscall on the machine that makes it, for both implementations of the
  trait: the memory syscalls move and fill bytes as their names promise, the two
  implementations of \<open>memcpy\<close> differ on overlapping ranges, \<open>sol_set_return_data\<close>
  records bytes of memory, and the log and panic syscalls only clear \<open>r0\<close>.
\<close>

abbreviation "SOL_LOG \<equiv> 0x686093bb :: u32"
abbreviation "SOL_PANIC \<equiv> 0x52ba5096 :: u32"
abbreviation "SOL_MEMCPY \<equiv> 0xa92366c4 :: u32"
abbreviation "SOL_MEMSET \<equiv> 0x3770fb22 :: u32"
abbreviation "SOL_MEMMOVE \<equiv> 0x0d667e63 :: u32"
abbreviation "SOL_SET_RETURN_DATA \<equiv> 0x5b839aba :: u32"

lemma vm_ok_regs: "vm_ok t vm \<Longrightarrow> length (regs vm) = 11"
  by (simp add: vm_ok_def)

text \<open>
  Within the address space, \<open>sol_memmove_\<close> puts the bytes the source range held
  before the call at a mapped destination range, overlapping or not, leaves every other
  address alone and clears \<open>r0\<close>.
\<close>

theorem memmove_syscall:
  assumes "vm_ok t vm" "shipped t sys"
    and "unat (regs vm ! 1) + unat (regs vm ! 3) < 2 ^ 64"
    and "unat (regs vm ! 2) + unat (regs vm ! 3) < 2 ^ 64"
    and "unat (regs vm ! 3) < 2 ^ (usize_bits t - 1)"
    and "mapped (mem_view (mem vm)) (unat (regs vm ! 1)) (unat (regs vm ! 3))"
  shows "\<exists>m. dispatch_syscall t sys SOL_MEMMOVE vm = Inr (vm\<lparr>mem := m, regs := (regs vm)[0 := 0]\<rparr>) \<and>
     view_bytes (mem_view m) (unat (regs vm ! 1)) (unat (regs vm ! 3)) =
       view_bytes (mem_view (mem vm)) (unat (regs vm ! 2)) (unat (regs vm ! 3)) \<and>
     (\<forall>a. a < unat (regs vm ! 1) \<or> unat (regs vm ! 1) + unat (regs vm ! 3) \<le> a \<longrightarrow>
        mem_view m a = mem_view (mem vm) a)"
proof -
  have m: "mem_ok t (mem vm)" and r: "length (regs vm) = 11" using assms(1) by (simp_all add: vm_ok_def)
  obtain m where "sol_memmove sys (regs vm ! 1) (regs vm ! 2) (regs vm ! 3) (mem vm) = Inr m"
      "view_bytes (mem_view m) (unat (regs vm ! 1)) (unat (regs vm ! 3)) =
        view_bytes (mem_view (mem vm)) (unat (regs vm ! 2)) (unat (regs vm ! 3))"
      "\<forall>a. a < unat (regs vm ! 1) \<or> unat (regs vm ! 1) + unat (regs vm ! 3) \<le> a \<longrightarrow>
        mem_view m a = mem_view (mem vm) a"
    using guest_sys.memmove_bytes [OF m assms(4,3,5,6)] stub_sys.memmove_bytes [OF m assms(4,3,5,6)]
      assms(2) unfolding shipped_def by blast
  then show ?thesis by (intro exI [of _ m]) (simp add: dispatch_syscall_def r)
qed

theorem memmove_syscall_witness:
  "\<exists>m. dispatch_syscall host64 (guest_syscalls host64) SOL_MEMMOVE
       (demo_vm [9, 0x100000001, 0x100000000, 4, 0, 0, 0, 0, 0, 0, 0]) =
     Inr (demo_vm [9, 0x100000001, 0x100000000, 4, 0, 0, 0, 0, 0, 0, 0]
       \<lparr>mem := m, regs := [0, 0x100000001, 0x100000000, 4, 0, 0, 0, 0, 0, 0, 0]\<rparr>)"
proof -
  let ?vm = "demo_vm [9, 0x100000001, 0x100000000, 4, 0, 0, 0, 0, 0, 0, 0]"
  have ok: "vm_ok host64 ?vm" by simp
  have "mem_ok host64 (Memory_new 16 16)" by (simp add: mem_ok_new)
  from locate_mapped(1) [OF this, of 4 "0x100000001" "(1, False)"]
  have "mapped (mem_view (mem ?vm)) 0x100000001 4"
    by (simp add: demo_vm_def locate_def Memory_new_def)
  with memmove_syscall [OF ok, of "guest_syscalls host64"] show ?thesis
    by (auto simp: demo_vm_def host64_def)
qed

text \<open>
  \<open>sol_memset_\<close> fills a mapped destination range with the low byte of \<open>r2\<close>, leaves
  every other address alone and clears \<open>r0\<close>.
\<close>

theorem memset_syscall:
  assumes "vm_ok t vm" "shipped t sys"
    and "unat (regs vm ! 1) + unat (regs vm ! 3) < 2 ^ 64"
    and "mapped (mem_view (mem vm)) (unat (regs vm ! 1)) (unat (regs vm ! 3))"
  shows "\<exists>m. dispatch_syscall t sys SOL_MEMSET vm = Inr (vm\<lparr>mem := m, regs := (regs vm)[0 := 0]\<rparr>) \<and>
     view_bytes (mem_view m) (unat (regs vm ! 1)) (unat (regs vm ! 3)) =
       replicate (unat (regs vm ! 3)) (ucast (regs vm ! 2)) \<and>
     (\<forall>a. a < unat (regs vm ! 1) \<or> unat (regs vm ! 1) + unat (regs vm ! 3) \<le> a \<longrightarrow>
        mem_view m a = mem_view (mem vm) a)"
proof -
  have m: "mem_ok t (mem vm)" and r: "length (regs vm) = 11" using assms(1) by (simp_all add: vm_ok_def)
  obtain m where "sol_memset sys (regs vm ! 1) (ucast (regs vm ! 2)) (regs vm ! 3) (mem vm) = Inr m"
      "view_bytes (mem_view m) (unat (regs vm ! 1)) (unat (regs vm ! 3)) =
        replicate (unat (regs vm ! 3)) (ucast (regs vm ! 2))"
      "\<forall>a. a < unat (regs vm ! 1) \<or> unat (regs vm ! 1) + unat (regs vm ! 3) \<le> a \<longrightarrow>
        mem_view m a = mem_view (mem vm) a"
    using guest_sys.memset_bytes [OF m assms(3,4)] stub_sys.memset_bytes [OF m assms(3,4)]
      assms(2) unfolding shipped_def by blast
  then show ?thesis by (intro exI [of _ m]) (simp add: dispatch_syscall_def r)
qed

theorem memset_syscall_witness:
  "\<exists>m. dispatch_syscall host64 (stub_syscalls host64) SOL_MEMSET
       (demo_vm [9, 0x300000000, 0x1AB, 16, 0, 0, 0, 0, 0, 0, 0]) =
     Inr (demo_vm [9, 0x300000000, 0x1AB, 16, 0, 0, 0, 0, 0, 0, 0]
       \<lparr>mem := m, regs := [0, 0x300000000, 0x1AB, 16, 0, 0, 0, 0, 0, 0, 0]\<rparr>)"
proof -
  let ?vm = "demo_vm [9, 0x300000000, 0x1AB, 16, 0, 0, 0, 0, 0, 0, 0]"
  have ok: "vm_ok host64 ?vm" by simp
  have "mem_ok host64 (Memory_new 16 16)" by (simp add: mem_ok_new)
  from locate_mapped(1) [OF this, of 16 "0x300000000" "(0, True)"]
  have "mapped (mem_view (mem ?vm)) 0x300000000 16"
    by (simp add: demo_vm_def locate_def Memory_new_def)
  with memset_syscall [OF ok, of "stub_syscalls host64"] show ?thesis
    by (auto simp: demo_vm_def)
qed

section \<open>The two implementations of memcpy\<close>

text \<open>
  On ranges that do not overlap, \<open>sol_memcpy\<close> of the zkVM guest and of the
  conformance harness leave the same memory.
\<close>

theorem memcpy_implementations_agree:
  assumes "mem_ok t m" "unat s + unat n < 2 ^ 64" "unat d + unat n < 2 ^ 64"
    and "unat n < 2 ^ (usize_bits t - 1)"
    and "unat d + unat n \<le> unat s \<or> unat s + unat n \<le> unat d"
  shows "\<exists>m1 m2. guest_memcpy t d s n m = Inr m1 \<and> stub_memcpy t d s n m = Inr m2 \<and>
     mem_view m1 = mem_view m2 \<and>
     mem_view m1 = overlay (mem_view m) (unat d) (view_bytes (mem_view m) (unat s) (unat n))"
  using guest_sys.memcpy_copies [OF assms] stub_sys.memcpy_copies [OF assms]
  by (auto simp: guest_syscalls_def stub_syscalls_def)

theorem memcpy_implementations_agree_witness:
  "\<exists>m1 m2. guest_memcpy host64 0x100000008 0x100000000 8 (Memory_new 16 16) = Inr m1 \<and>
     stub_memcpy host64 0x100000008 0x100000000 8 (Memory_new 16 16) = Inr m2 \<and> mem_view m1 = mem_view m2"
  using memcpy_implementations_agree
    [of host64 "Memory_new 16 16" "0x100000000" 8 "0x100000008", OF mem_ok_new]
  by (auto simp: host64_def target_ok_def)

text \<open>
  On a destination one byte after the source they differ: the guest, which copies byte
  by byte, smears the first byte over the range; the harness, which buffers, moves it.
\<close>

theorem memcpy_implementations_differ:
  assumes "mem_ok t m" "unat s + unat n + 1 < 2 ^ 64" "unat n < 2 ^ (usize_bits t - 1)"
    and "mapped (mem_view m) (unat s) (unat n + 1)"
  shows "\<exists>m1 m2. guest_memcpy t (s + 1) s n m = Inr m1 \<and> stub_memcpy t (s + 1) s n m = Inr m2 \<and>
     view_bytes (mem_view m1) (unat s + 1) (unat n) =
       replicate (unat n) (unwrap_or 0 (mem_view m (unat s))) \<and>
     view_bytes (mem_view m2) (unat s + 1) (unat n) = view_bytes (mem_view m) (unat s) (unat n)"
proof -
  have d: "unat (s + 1) = unat s + 1" using assms(2) unat_add_u64_lt [of s 1] by simp
  have mp: "mapped (mem_view m) (unat s + 1) (unat n)"
  proof (unfold mapped_def, intro allI impI)
    fix i
    assume "i < unat n"
    then have "mem_view m (unat s + Suc i) \<noteq> None"
      using assms(4) unfolding mapped_def by (elim allE [of _ "Suc i"]) simp
    then show "mem_view m (unat s + 1 + i) \<noteq> None" by simp
  qed
  have "mem_view m (unat s + 0) \<noteq> None"
    using assms(4) unfolding mapped_def by (elim allE [of _ 0]) simp
  then obtain b where b: "mem_view m (unat s) = Some b" by auto
  obtain m1 where m1: "guest_memcpy t (s + 1) s n m = Inr m1"
      "mem_view m1 = overlay (mem_view m) (unat s + 1) (replicate (unat n) b)"
    using vm_mem.copy_bytes_smear [OF assms(1), of s 0 "unat n" b t] assms(2) b mp
    by (auto simp: guest_memcpy_def mapped_def)
  obtain m2 where m2: "stub_memcpy t (s + 1) s n m = Inr m2"
      "mem_view m2 = overlay (mem_view m) (unat s + 1) (view_bytes (mem_view m) (unat s) (unat n))"
    using buffered_copy_overlay [OF assms(1) _ _ assms(3), of s "s + 1"] assms(2)
    by (auto simp: stub_memcpy_def d)
  show ?thesis
    using m1 m2 b view_bytes_overlay_same [of "mem_view m" "unat s + 1" "replicate (unat n) b"]
      view_bytes_overlay_same [of "mem_view m" "unat s + 1" "view_bytes (mem_view m) (unat s) (unat n)"] mp
    by (intro exI [of _ m1] exI [of _ m2]) simp
qed

theorem memcpy_implementations_differ_witness:
  "\<exists>m1. guest_memcpy host64 0x100000001 0x100000000 3 (Memory_new 16 16) = Inr m1 \<and>
     view_bytes (mem_view m1) 0x100000001 3 = replicate 3 (unwrap_or 0 (mem_view (Memory_new 16 16) 0x100000000))"
proof -
  have ok: "mem_ok host64 (Memory_new 16 16)" by (simp add: mem_ok_new)
  from locate_mapped(1) [OF this, of 4 "0x100000000" "(0, False)"]
  have "mapped (mem_view (Memory_new 16 16)) 0x100000000 4"
    by (simp add: locate_def Memory_new_def)
  with memcpy_implementations_differ [OF ok, of "0x100000000" 3]
  show ?thesis by (auto simp: host64_def)
qed

section \<open>Return data, log and panic\<close>

text \<open>
  \<open>sol_set_return_data\<close>, under its hash and under the number 5, records the bytes of
  the range given by \<open>r1\<close> and \<open>r2\<close> (zero for an unmapped byte), clears \<open>r0\<close> and
  changes nothing else.
\<close>

theorem set_return_data_syscall:
  assumes "vm_ok t vm" "h = SOL_SET_RETURN_DATA \<or> h = 5"
    and "unat (regs vm ! 1) + unat (regs vm ! 2) < 2 ^ 64"
    and "unat (regs vm ! 2) < 2 ^ (usize_bits t - 1)"
  shows "dispatch_syscall t sys h vm = Inr (vm\<lparr>regs := (regs vm)[0 := 0],
     return_data := view_bytes (mem_view (mem vm)) (unat (regs vm ! 1)) (unat (regs vm ! 2))\<rparr>)"
proof -
  have m: "mem_ok t (mem vm)" and r: "length (regs vm) = 11" using assms(1) by (simp_all add: vm_ok_def)
  have "(2 :: nat) ^ (usize_bits t - 1) \<le> 2 ^ usize_bits t" by (intro power_increasing) simp_all
  then have "unat (regs vm ! 2) < 2 ^ usize_bits t" by (rule less_le_trans [OF assms(4)])
  then have "as_usize t (regs vm ! 2) = unat (regs vm ! 2)" by (simp add: as_usize_def)
  moreover have "fetch_bytes (read_u8 t) t (mem vm) (regs vm ! 1) (unat (regs vm ! 2)) 0 =
      (Inr (view_bytes (mem_view (mem vm)) (unat (regs vm ! 1)) (unat (regs vm ! 2))) :: (sbpf_error, _) res)"
    using vm_mem.fetch_bytes_view [OF m, of "regs vm ! 1" 0 "unat (regs vm ! 2)" t] assms(3) by simp
  ultimately show ?thesis
    using assms(2,4) r by (auto simp: dispatch_syscall_def Let_def with_capacity_def)
qed

theorem set_return_data_syscall_witness:
  "dispatch_syscall host64 (guest_syscalls host64) 5 (demo_vm [1, 0x10, 2, 0, 0, 0, 0, 0, 0, 0, 0]) =
   Inr (demo_vm [0, 0x10, 2, 0, 0, 0, 0, 0, 0, 0, 0]
     \<lparr>return_data := view_bytes (mem_view (Memory_new 16 16)) 0x10 2\<rparr>)"
  using set_return_data_syscall [OF vm_ok_demo [of "[1, 0x10, 2, 0, 0, 0, 0, 0, 0, 0, 0]"], of 5 "guest_syscalls host64"]
  by (simp add: demo_vm_def host64_def)

text \<open>
  An instruction that makes the \<open>sol_log_\<close> or \<open>sol_panic_\<close> syscall goes on to the
  next instruction with \<open>r0\<close> cleared; in particular a program that panics does not stop.
  A syscall with an unknown hash goes on and changes nothing at all.
\<close>

theorem log_panic_and_unknown_syscalls_continue:
  assumes "vm_ok t vm" "pc vm < length text"
    and "opcode (fetched text vm) = 0x8D \<or> opcode (fetched text vm) = 0x85 \<and> src (fetched text vm) = 1"
    and "imm (fetched text vm) \<notin> {SOL_MEMCPY, SOL_MEMSET, SOL_MEMMOVE, SOL_SET_RETURN_DATA, 5}"
  shows "step t sys text vm = Inr (Next (vm\<lparr>pc := pc vm + 1,
     regs := (if imm (fetched text vm) \<in> {SOL_LOG, SOL_PANIC} then (regs vm)[0 := 0] else regs vm)\<rparr>))"
  using assms
  by (auto simp: vm_ok_regs step_fetched exec_insn_call call_opcodes_def exec_call_def dispatch_syscall_def Let_def)

theorem log_panic_and_unknown_syscalls_continue_witness:
  "step host64 (guest_syscalls host64) [0x52ba50960000008D] (demo_vm [7, 0, 0, 0, 0, 0, 0, 0, 0, 0, 0]) =
   Inr (Next (demo_vm [0, 0, 0, 0, 0, 0, 0, 0, 0, 0, 0]\<lparr>pc := 1\<rparr>))"
  using log_panic_and_unknown_syscalls_continue
    [OF vm_ok_demo [of "[7, 0, 0, 0, 0, 0, 0, 0, 0, 0, 0]"], of "[0x52ba50960000008D]" "guest_syscalls host64"]
  by (simp add: fetched_def decode_def demo_vm_def)

end
