(* ===== verification/Sbpf_Isa.thy ===== *)
theory Sbpf_Isa
  imports Sbpf_Effects
begin

text \<open>
  The instruction set the interpreter is written for, as a machine of its own: an
  instruction datatype, a decoder that reads the fields of the opcode byte (class, source
  bit, operation; width and mode for memory), one arithmetic for both widths on naturals
  and integers, memory as a partial map from addresses to bytes, and a program counter that
  is a position in the text or nothing. It is written from the encoding, not from the
  interpreter's table of opcodes, and it has what the interpreter lacks (32-bit remainders,
  byte swaps). The convention for calls and system calls is the one the interpreter's
  comments state.
\<close>

section \<open>Instructions\<close>

datatype alu_op = Add | Sub | Mul | Div | Or | And | Lsh | Rsh | Neg | Mod | Xor | Mov | Arsh

datatype cond = JA | JEQ | JGT | JGE | JSET | JNE | JSGT | JSGE | JLT | JLE | JSLT | JSLE

datatype arg = Reg nat | Const u32

datatype instr =
    Alu nat alu_op nat arg
  | Swap bool nat nat
  | Wide nat u32
  | Load nat nat nat u16
  | Store nat nat u16 arg
  | Jump cond nat arg u16
  | Syscall u32
  | Call u32
  | Ret

definition alu_codes :: "(u8 \<times> alu_op) list" where
  "alu_codes = [(0x0, Add), (0x1, Sub), (0x2, Mul), (0x3, Div), (0x4, Or), (0x5, And), (0x6, Lsh),
     (0x7, Rsh), (0x9, Mod), (0xA, Xor), (0xB, Mov), (0xC, Arsh)]"

definition jump_codes :: "(u8 \<times> cond) list" where
  "jump_codes = [(0x1, JEQ), (0x2, JGT), (0x3, JGE), (0x4, JSET), (0x5, JNE), (0x6, JSGT), (0x7, JSGE),
     (0xA, JLT), (0xB, JLE), (0xC, JSLT), (0xD, JSLE)]"

definition size_codes :: "(u8 \<times> nat) list" where
  "size_codes = [(0x00, 4), (0x08, 2), (0x10, 1), (0x18, 8)]"

definition swap_codes :: "(u32 \<times> nat) list" where
  "swap_codes = [(16, 2), (32, 4), (64, 8)]"

text \<open>The source operand: a register when bit 3 of the opcode is set, else the immediate.\<close>

definition isa_arg :: "insn \<Rightarrow> arg" where
  "isa_arg i = (if bit (opcode i) 3 then Reg (src i) else Const (imm i))"

definition isa_alu :: "nat \<Rightarrow> insn \<Rightarrow> instr option" where
  "isa_alu w i =
     (let code = drop_bit 4 (opcode i) in
      if code = 0x8 then (if bit (opcode i) 3 then None else Some (Alu w Neg (dst i) (isa_arg i)))
      else if code = 0xD then
        (if w = 32 then map_option (\<lambda>n. Swap (bit (opcode i) 3) n (dst i)) (map_of swap_codes (imm i)) else None)
      else map_option (\<lambda>f. Alu w f (dst i) (isa_arg i)) (map_of alu_codes code))"

definition isa_jump :: "insn \<Rightarrow> instr option" where
  "isa_jump i =
     (let code = drop_bit 4 (opcode i) in
      if code = 0x8 then Some (if bit (opcode i) 3 \<or> src i = 1 then Syscall (imm i) else Call (imm i))
      else if code = 0x9 then (if bit (opcode i) 3 then None else Some Ret)
      else if code = 0x0 then (if bit (opcode i) 3 then None else Some (Jump JA (dst i) (isa_arg i) (off i)))
      else map_option (\<lambda>c. Jump c (dst i) (isa_arg i) (off i)) (map_of jump_codes code))"

definition isa_memory :: "insn \<Rightarrow> instr option" where
  "isa_memory i =
     (let cls = opcode i AND 0x07; width = map_of size_codes (opcode i AND 0x18); mode = opcode i AND 0xE0 in
      if cls = 0 then (if mode = 0 \<and> width = Some 8 then Some (Wide (dst i) (imm i)) else None)
      else if mode \<noteq> 0x60 then None
      else if cls = 1 then map_option (\<lambda>n. Load n (dst i) (src i) (off i)) width
      else map_option (\<lambda>n. Store n (dst i) (off i) (if cls = 3 then Reg (src i) else Const (imm i))) width)"

definition isa_decode :: "insn \<Rightarrow> instr option" where
  "isa_decode i =
     (let cls = opcode i AND 0x07 in
      if cls = 7 then isa_alu 64 i else if cls = 4 then isa_alu 32 i
      else if cls = 5 then isa_jump i else if cls = 6 then None else isa_memory i)"

section \<open>Arithmetic\<close>

definition signed_val :: "nat \<Rightarrow> nat \<Rightarrow> int" where
  "signed_val w a = (if a < 2 ^ (w - 1) then int a else int a - 2 ^ w)"

text \<open>One definition for both widths: \<open>w\<close> bits, operands and result below \<open>2 ^ w\<close>.\<close>

fun alu_val :: "nat \<Rightarrow> alu_op \<Rightarrow> nat \<Rightarrow> nat \<Rightarrow> nat option" where
  "alu_val w Add a b = Some ((a + b) mod 2 ^ w)"
| "alu_val w Sub a b = Some ((a + (2 ^ w - b)) mod 2 ^ w)"
| "alu_val w Mul a b = Some ((a * b) mod 2 ^ w)"
| "alu_val w Div a b = (if b = 0 then None else Some (a div b))"
| "alu_val w Mod a b = (if b = 0 then None else Some (a mod b))"
| "alu_val w Or a b = Some (a OR b)"
| "alu_val w And a b = Some (a AND b)"
| "alu_val w Xor a b = Some (a XOR b)"
| "alu_val w Lsh a b = Some (a * 2 ^ (b mod w) mod 2 ^ w)"
| "alu_val w Rsh a b = Some (a div 2 ^ (b mod w))"
| "alu_val w Arsh a b = Some (nat (signed_val w a div 2 ^ (b mod w) mod 2 ^ w))"
| "alu_val w Neg a b = Some ((2 ^ w - a) mod 2 ^ w)"
| "alu_val w Mov a b = Some b"

fun cond_holds :: "cond \<Rightarrow> u64 \<Rightarrow> u64 \<Rightarrow> bool" where
  "cond_holds JA a b \<longleftrightarrow> True"
| "cond_holds JEQ a b \<longleftrightarrow> a = b"
| "cond_holds JNE a b \<longleftrightarrow> a \<noteq> b"
| "cond_holds JGT a b \<longleftrightarrow> unat a > unat b"
| "cond_holds JGE a b \<longleftrightarrow> unat a \<ge> unat b"
| "cond_holds JLT a b \<longleftrightarrow> unat a < unat b"
| "cond_holds JLE a b \<longleftrightarrow> unat a \<le> unat b"
| "cond_holds JSET a b \<longleftrightarrow> (\<exists>k\<in>{0..<64}. bit a k \<and> bit b k)"
| "cond_holds JSGT a b \<longleftrightarrow> sint a > sint b"
| "cond_holds JSGE a b \<longleftrightarrow> sint a \<ge> sint b"
| "cond_holds JSLT a b \<longleftrightarrow> sint a < sint b"
| "cond_holds JSLE a b \<longleftrightarrow> sint a \<le> sint b"

section \<open>The machine\<close>

record isa =
  rg :: "u64 list"
  ip :: "nat option"
  bytes :: "nat \<Rightarrow> u8 option"
  frames :: "(nat option \<times> u64 list) list"
  answer :: "u8 list"

text \<open>A position in the text, or nothing outside it.\<close>

definition place :: "'a list \<Rightarrow> int \<Rightarrow> nat option" where
  "place text k = (if 0 \<le> k \<and> k < int (length text) then Some (nat k) else None)"

definition arg_val :: "isa \<Rightarrow> arg \<Rightarrow> u64 option" where
  "arg_val s a = (case a of Const k \<Rightarrow> Some (scast k) | Reg r \<Rightarrow> (if r < 11 then Some (rg s ! r) else None))"

text \<open>A register gets a value, if there is one.\<close>

definition put :: "isa \<Rightarrow> nat \<Rightarrow> u64 option \<Rightarrow> isa option" where
  "put s d v = (if d < 11 then map_option (\<lambda>x. s\<lparr>rg := (rg s)[d := x]\<rparr>) v else None)"

definition alu_result :: "nat \<Rightarrow> alu_op \<Rightarrow> u64 \<Rightarrow> u64 option \<Rightarrow> u64 option" where
  "alu_result w f a b =
     (case b of None \<Rightarrow> None | Some v \<Rightarrow> map_option of_nat (alu_val w f (unat a mod 2 ^ w) (unat v mod 2 ^ w)))"

definition swapped :: "bool \<Rightarrow> nat \<Rightarrow> u64 \<Rightarrow> u64" where
  "swapped be n v = from_le (if be then rev (to_le n v) else to_le n v)"

definition wide_value :: "u32 \<Rightarrow> u64 \<Rightarrow> u64" where
  "wide_value lo hi = of_nat (unat lo + 2 ^ 32 * (unat hi div 2 ^ 32))"

text \<open>
  The system calls, within the address space and on ranges of less than $2^{31}$ bytes;
  \<open>memcpy\<close>, as in C, on ranges that do not overlap.
\<close>

definition isa_syscall :: "u32 \<Rightarrow> isa \<Rightarrow> isa option" where
  "isa_syscall h s =
     (let a = unat (rg s ! 1); b = unat (rg s ! 2); n = unat (rg s ! 3); s0 = s\<lparr>rg := (rg s)[0 := 0]\<rparr>;
          ranges = a + n < 2 ^ 64 \<and> b + n < 2 ^ 64 \<and> n < 2 ^ 31;
          moved = s0\<lparr>bytes := overlay (bytes s) a (view_bytes (bytes s) b n)\<rparr>
      in if h = SOL_LOG \<or> h = SOL_PANIC then Some s0
         else if h = SOL_MEMCPY then (if ranges \<and> (a + n \<le> b \<or> b + n \<le> a) then Some moved else None)
         else if h = SOL_MEMMOVE then (if ranges then Some moved else None)
         else if h = SOL_MEMSET then
           (if a + n < 2 ^ 64 then Some (s0\<lparr>bytes := overlay (bytes s) a (replicate n (ucast (rg s ! 2)))\<rparr>) else None)
         else if h = SOL_SET_RETURN_DATA \<or> h = 5 then
           (if a + b < 2 ^ 64 \<and> b < 2 ^ 31 then Some (s0\<lparr>answer := view_bytes (bytes s) a b\<rparr>) else None)
         else Some s)"

text \<open>
  One instruction at position \<open>p\<close>: the new state, or \<open>None\<close> when the instruction has no
  effect defined (a register that does not exist, a zero divisor, an unmapped byte, more
  than 64 calls) and when it is the final return.
\<close>

fun isa_exec :: "u64 list \<Rightarrow> nat \<Rightarrow> instr \<Rightarrow> isa \<Rightarrow> isa option" where
  "isa_exec text p (Alu w f d a) s =
     put (s\<lparr>ip := place text (int p + 1)\<rparr>) d (alu_result w f (rg s ! d) (arg_val s a))"
| "isa_exec text p (Swap be n d) s =
     put (s\<lparr>ip := place text (int p + 1)\<rparr>) d (Some (swapped be n (rg s ! d)))"
| "isa_exec text p (Wide d lo) s =
     (if p + 1 < length text
      then put (s\<lparr>ip := place text (int p + 2)\<rparr>) d (Some (wide_value lo (text ! (p + 1)))) else None)"
| "isa_exec text p (Load n d r k) s =
     (let a = unat (rg s ! r + scast k) in
      if r < 11 \<and> mapped (bytes s) a n
      then put (s\<lparr>ip := place text (int p + 1)\<rparr>) d (Some (from_le (view_bytes (bytes s) a n))) else None)"
| "isa_exec text p (Store n d k v) s =
     (let a = unat (rg s ! d + scast k) in
      case arg_val s v of
        Some x \<Rightarrow> (if d < 11 \<and> mapped (bytes s) a n
          then Some (s\<lparr>ip := place text (int p + 1), bytes := overlay (bytes s) a (to_le n x)\<rparr>) else None)
      | None \<Rightarrow> None)"
| "isa_exec text p (Jump c d v k) s =
     (if c = JA then Some (s\<lparr>ip := place text (int p + 1 + sint k)\<rparr>)
      else case arg_val s v of
        Some x \<Rightarrow> (if d < 11
          then Some (s\<lparr>ip := place text (int p + 1 + (if cond_holds c (rg s ! d) x then sint k else 0))\<rparr>)
          else None)
      | None \<Rightarrow> None)"
| "isa_exec text p (Syscall h) s = isa_syscall h (s\<lparr>ip := place text (int p + 1)\<rparr>)"
| "isa_exec text p (Call k) s =
     (if length (frames s) < 64
      then Some (s\<lparr>frames := (place text (int p + 1), rg s) # frames s, ip := place text (int p + 1 + sint k)\<rparr>)
      else None)"
| "isa_exec text p Ret s =
     (case frames s of
        [] \<Rightarrow> None
      | (q, rs) # fs \<Rightarrow> Some (s\<lparr>ip := q, rg := rs[0 := rg s ! 0], frames := fs\<rparr>))"

definition isa_at :: "u64 list \<Rightarrow> isa \<Rightarrow> (nat \<times> instr) option" where
  "isa_at text s =
     (case ip s of None \<Rightarrow> None | Some p \<Rightarrow> map_option (\<lambda>ins. (p, ins)) (isa_decode (decode (text ! p))))"

definition isa_next :: "u64 list \<Rightarrow> isa \<Rightarrow> isa option" where
  "isa_next text s = (case isa_at text s of None \<Rightarrow> None | Some (p, ins) \<Rightarrow> isa_exec text p ins s)"

text \<open>The machine is done at a return outside all calls.\<close>

definition isa_done :: "u64 list \<Rightarrow> isa \<Rightarrow> bool" where
  "isa_done text s \<longleftrightarrow> frames s = [] \<and> (\<exists>p. isa_at text s = Some (p, Ret))"

definition isa_step :: "u64 list \<Rightarrow> isa \<Rightarrow> isa \<Rightarrow> bool" where
  "isa_step text s s' \<longleftrightarrow> isa_next text s = Some s'"

section \<open>The arithmetic on machine words\<close>

fun alu_word :: "alu_op \<Rightarrow> 'a::len word \<Rightarrow> 'a word \<Rightarrow> 'a word option" where
  "alu_word Add a b = Some (a + b)"
| "alu_word Sub a b = Some (a - b)"
| "alu_word Mul a b = Some (a * b)"
| "alu_word Div a b = (if b = 0 then None else Some (a div b))"
| "alu_word Mod a b = (if b = 0 then None else Some (a mod b))"
| "alu_word Or a b = Some (a OR b)"
| "alu_word And a b = Some (a AND b)"
| "alu_word Xor a b = Some (a XOR b)"
| "alu_word Lsh a b = Some (push_bit (unat b mod LENGTH('a)) a)"
| "alu_word Rsh a b = Some (drop_bit (unat b mod LENGTH('a)) a)"
| "alu_word Arsh a b = Some (signed_drop_bit (unat b mod LENGTH('a)) a)"
| "alu_word Neg a b = Some (- a)"
| "alu_word Mov a b = Some b"

lemma signed_val_sint: "signed_val LENGTH('a) (unat (a :: 'a::len word)) = sint a"
proof -
  define n where "n = LENGTH('a) - 1"
  have L: "LENGTH('a) = Suc n" by (simp add: n_def)
  have lt: "uint a < 2 * 2 ^ n" using uint_lt2p [of a] by (simp add: L)
  have "bit (uint a) n \<longleftrightarrow> 2 ^ n \<le> uint a"
  proof (cases "2 ^ n \<le> uint a")
    case True
    then have "uint a div 2 ^ n = 1" using lt by (simp add: div_pos_geq)
    then show ?thesis using True by (simp add: bit_iff_odd)
  qed (simp add: bit_iff_odd)
  then have "sint a = uint a - 2 ^ Suc n * of_bool (2 ^ n \<le> uint a)"
    using lt by (simp add: sint_uint L signed_take_bit_eq_take_bit_minus take_bit_int_eq_self)
  moreover have "unat a < 2 ^ n \<longleftrightarrow> uint a < 2 ^ n"
    using of_nat_less_iff [of "unat a" "2 ^ n", where 'a = int] by simp
  ultimately show ?thesis by (simp add: signed_val_def L)
qed

lemma unat_arsh:
  "nat (sint (a :: 'a::len word) div 2 ^ k mod 2 ^ LENGTH('a)) = unat (signed_drop_bit k a)"
proof -
  have "unat (signed_drop_bit k a) = nat (uint (signed_drop_bit k a))" by simp
  also have "uint (signed_drop_bit k a) = take_bit LENGTH('a) (sint (signed_drop_bit k a))"
    by (simp add: uint_sint)
  finally show ?thesis by (simp add: sint_signed_drop_bit_eq drop_bit_eq_div take_bit_eq_mod)
qed

lemma unat_word_diff:
  fixes a b :: "'a::len word"
  shows "unat (a - b) = (unat a + (2 ^ LENGTH('a) - unat b)) mod 2 ^ LENGTH('a)"
proof -
  have "unat b \<le> 2 ^ LENGTH('a)" by (rule less_imp_le) (rule unsigned_less)
  then have "(of_nat (unat a + (2 ^ LENGTH('a) - unat b)) :: 'a word) = a - b"
    by (simp add: of_nat_diff)
  then show ?thesis by (metis unat_of_nat)
qed

lemma unat_shifts:
  fixes a :: "'a::len word"
  shows "unat (push_bit k a) = unat a * 2 ^ k mod 2 ^ LENGTH('a)" "unat (drop_bit k a) = unat a div 2 ^ k"
proof -
  show "unat (push_bit k a) = unat a * 2 ^ k mod 2 ^ LENGTH('a)"
    by (simp only: unsigned_push_bit_eq) (simp only: push_bit_eq_mult take_bit_eq_mod)
  show "unat (drop_bit k a) = unat a div 2 ^ k"
    by (simp only: unat_drop_bit_eq) (simp only: drop_bit_eq_div)
qed

lemma alu_val_word:
  "alu_val LENGTH('a) f (unat a) (unat b) = map_option unat (alu_word f a (b :: 'a::len word))"
proof (cases f)
  case Sub
  then show ?thesis using unat_word_diff [of a b] by simp
next
  case Neg
  then show ?thesis using unat_word_diff [of 0 a] by simp
next
  case Arsh
  then show ?thesis by (simp add: signed_val_sint unat_arsh)
qed (simp_all add: unat_word_ariths(1-3) unat_div unat_mod unat_eq_0 unsigned_or_eq unsigned_and_eq
      unsigned_xor_eq unat_shifts)

lemma alu_result_None [simp]: "alu_result w f a None = None"
  by (simp add: alu_result_def)

lemma alu_result_64: "alu_result 64 f a (Some b) = alu_word f a b"
  using alu_val_word [of f a b] unat_u64_less [of a] unat_u64_less [of b]
  by (simp add: alu_result_def option.map_comp comp_def option.map_ident)

lemma unat_mod_32: "unat (a :: u64) mod 0x100000000 = unat (ucast a :: u32)"
  by (simp add: unsigned_ucast_eq take_bit_eq_mod)

lemma alu_result_32: "alu_result 32 f a (Some b) = map_option ucast (alu_word f (ucast a :: u32) (ucast b))"
  using alu_val_word [of f "ucast a :: u32" "ucast b"]
  by (simp add: alu_result_def unat_mod_32 option.map_comp comp_def)

end
