(* ===== verification/Isa_Decode.thy ===== *)
theory Isa_Decode
  imports Sbpf_Isa
begin

text \<open>
  The decoder of the instruction set against the opcodes of the interpreter: the tables
  below list, group by group, which opcode is which instruction; the decoder, which reads
  the fields of the opcode, agrees with them, and it knows no opcode outside the
  interpreter's but the 32-bit remainders and the byte swaps.
\<close>

section \<open>The tables\<close>

definition alu64_codes :: "(u8 \<times> alu_op) list" where
  "alu64_codes = [(0x07, Add), (0x0F, Add), (0x17, Sub), (0x1F, Sub), (0x27, Mul), (0x2F, Mul), (0x37, Div),
     (0x3F, Div), (0x47, Or), (0x4F, Or), (0x57, And), (0x5F, And), (0x67, Lsh), (0x6F, Lsh), (0x77, Rsh),
     (0x7F, Rsh), (0x97, Mod), (0x9F, Mod), (0xA7, Xor), (0xAF, Xor), (0xB7, Mov), (0xBF, Mov), (0xC7, Arsh),
     (0xCF, Arsh)]"

definition alu32_codes :: "(u8 \<times> alu_op) list" where
  "alu32_codes = [(0x04, Add), (0x0C, Add), (0x14, Sub), (0x1C, Sub), (0x24, Mul), (0x2C, Mul), (0x34, Div),
     (0x3C, Div), (0x44, Or), (0x4C, Or), (0x54, And), (0x5C, And), (0x64, Lsh), (0x6C, Lsh), (0x74, Rsh),
     (0x7C, Rsh), (0xA4, Xor), (0xAC, Xor), (0xB4, Mov), (0xBC, Mov)]"

definition load_codes :: "(u8 \<times> nat) list" where
  "load_codes = [(0x71, 1), (0x69, 2), (0x61, 4), (0x79, 8)]"

definition store_codes :: "(u8 \<times> nat) list" where
  "store_codes = [(0x72, 1), (0x6A, 2), (0x62, 4), (0x7A, 8), (0x73, 1), (0x6B, 2), (0x63, 4), (0x7B, 8)]"

definition cond_codes :: "(u8 \<times> cond) list" where
  "cond_codes = [(0x15, JEQ), (0x1D, JEQ), (0x55, JNE), (0x5D, JNE), (0x25, JGT), (0x2D, JGT),
     (0x35, JGE), (0x3D, JGE), (0xA5, JLT), (0xAD, JLT), (0xB5, JLE), (0xBD, JLE), (0x45, JSET), (0x4D, JSET),
     (0x65, JSGT), (0x6D, JSGT), (0x75, JSGE), (0x7D, JSGE), (0xC5, JSLT), (0xCD, JSLT), (0xD5, JSLE), (0xDD, JSLE)]"

section \<open>What the decoder makes of them\<close>

lemma by_table: "map_of xs k = Some v \<Longrightarrow> list_all (\<lambda>(a, b). k = a \<longrightarrow> P b) xs \<Longrightarrow> P v"
  by (auto simp: list_all_iff dest!: map_of_SomeD)

lemmas isa_decode_defs = isa_decode_def isa_alu_def alu_codes_def isa_memory_def size_codes_def isa_jump_def
  jump_codes_def isa_arg_def

lemma table_decode:
  "map_of alu64_codes (opcode i) = Some f \<Longrightarrow> isa_decode i = Some (Alu 64 f (dst i) (isa_arg i))"
  "map_of alu32_codes (opcode i) = Some f \<Longrightarrow> isa_decode i = Some (Alu 32 f (dst i) (isa_arg i))"
  "map_of load_codes (opcode i) = Some n \<Longrightarrow> isa_decode i = Some (Load n (dst i) (src i) (off i))"
  "map_of store_codes (opcode i) = Some n \<Longrightarrow>
     isa_decode i = Some (Store n (dst i) (off i) (if opcode i AND 0x07 = 3 then Reg (src i) else Const (imm i)))"
  "map_of cond_codes (opcode i) = Some c \<Longrightarrow> isa_decode i = Some (Jump c (dst i) (isa_arg i) (off i))"
  by (erule by_table; simp add: alu64_codes_def alu32_codes_def load_codes_def store_codes_def cond_codes_def
      isa_decode_defs)+

lemma table_straight:
  "map_of alu64_codes (opcode i) = Some f \<Longrightarrow> opcode i \<in> set straight_opcodes"
  "map_of alu32_codes (opcode i) = Some f \<Longrightarrow> opcode i \<in> set straight_opcodes"
  "map_of load_codes (opcode i) = Some n \<Longrightarrow> opcode i \<in> set straight_opcodes"
  "map_of store_codes (opcode i) = Some n \<Longrightarrow> opcode i \<in> set straight_opcodes"
  "map_of cond_codes (opcode i) = Some c \<Longrightarrow> opcode i \<in> set straight_opcodes"
  by (erule by_table; simp add: alu64_codes_def alu32_codes_def load_codes_def store_codes_def cond_codes_def
      straight_opcodes_def)+

lemma other_decode:
  "opcode i = 0x18 \<Longrightarrow> isa_decode i = Some (Wide (dst i) (imm i))"
  "opcode i = 0x87 \<Longrightarrow> isa_decode i = Some (Alu 64 Neg (dst i) (Const (imm i)))"
  "opcode i = 0x84 \<Longrightarrow> isa_decode i = Some (Alu 32 Neg (dst i) (Const (imm i)))"
  "opcode i \<in> {0xC4, 0xCC} \<Longrightarrow> isa_decode i = Some (Alu 32 Arsh (dst i) (isa_arg i))"
  "opcode i = 0x05 \<Longrightarrow> isa_decode i = Some (Jump JA (dst i) (isa_arg i) (off i))"
  "opcode i = 0x95 \<Longrightarrow> isa_decode i = Some Ret"
  "opcode i = 0x8D \<Longrightarrow> isa_decode i = Some (Syscall (imm i))"
  "opcode i = 0x85 \<Longrightarrow> isa_decode i = Some (if src i = 1 then Syscall (imm i) else Call (imm i))"
  by (auto simp: isa_decode_def isa_alu_def alu_codes_def isa_memory_def size_codes_def isa_jump_def isa_arg_def)

lemma straight_table:
  "opcode i \<in> set straight_opcodes \<Longrightarrow>
     map_of alu64_codes (opcode i) \<noteq> None \<or> map_of alu32_codes (opcode i) \<noteq> None \<or>
     map_of load_codes (opcode i) \<noteq> None \<or> map_of store_codes (opcode i) \<noteq> None \<or>
     map_of cond_codes (opcode i) \<noteq> None \<or> opcode i \<in> {0x18, 0x87, 0x84, 0xC4, 0xCC, 0x05}"
  unfolding map_of_eq_None_iff
  by (simp add: straight_opcodes_def alu64_codes_def alu32_codes_def load_codes_def store_codes_def
      cond_codes_def) (elim disjE; simp)

lemma opcode_fields:
  "(c :: u8) = (c AND 0x07) OR (if bit c 3 then 0x08 else 0) OR push_bit 4 (drop_bit 4 c)"
  "(c :: u8) = (c AND 0x07) OR (c AND 0x18) OR (c AND 0xE0)"
proof -
  have m: "(0x07 :: u8) = mask 3" "(0x18 :: u8) = push_bit 3 (mask 2)" "(0xE0 :: u8) = push_bit 5 (mask 3)"
    by (simp_all add: mask_eq_exp_minus_1)
  have "bit (0x08 :: u8) n \<longleftrightarrow> n = 3" for n
    using bit_exp_iff [of 3 n, where 'a = u8] by auto
  then have b: "bit (if bit c 3 then 0x08 else 0 :: u8) n \<longleftrightarrow> n = 3 \<and> bit c 3" for n by simp
  show "c = (c AND 0x07) OR (if bit c 3 then 0x08 else 0) OR push_bit 4 (drop_bit 4 c)"
  proof (unfold m, rule bit_word_eqI)
    fix n :: nat
    consider "(n :: nat) < 3" | "n = 3" | "4 \<le> n" by linarith
    then show "bit c n \<longleftrightarrow> bit ((c AND mask 3) OR (if bit c 3 then 0x08 else 0) OR push_bit 4 (drop_bit 4 c)) n"
      by cases (auto simp: bit_or_iff bit_and_iff bit_mask_iff b bit_push_bit_iff bit_drop_bit_eq dest: bit_imp_le_length)
  qed
  show "c = (c AND 0x07) OR (c AND 0x18) OR (c AND 0xE0)"
    unfolding m by (rule bit_word_eqI) (auto simp: bit_simps)
qed

lemma opcode_fieldsE:
  obtains a b k where "opcode i AND 0x07 = a" "bit (opcode i) 3 = b" "drop_bit 4 (opcode i) = k"
    "opcode i = a OR (if b then 0x08 else 0) OR push_bit 4 k"
  using opcode_fields(1) [of "opcode i"] by blast

lemma map_of_Some_mem: "map_of xs k = Some v \<Longrightarrow> k \<in> set (map fst xs)"
  by (auto dest!: map_of_SomeD intro: rev_image_eqI)

definition isa_opcodes :: "u8 list" where
  "isa_opcodes = straight_opcodes @ call_opcodes @ [0x94, 0x9C, 0xD4, 0xDC]"

text \<open>The opcode bytes a class, a source bit and an operation make up.\<close>

lemma alu_bytes:
  "list_all (\<lambda>k. list_all (\<lambda>b. list_all (\<lambda>a. (k = 0x8 \<longrightarrow> \<not> b) \<longrightarrow> (k = 0xD \<longrightarrow> a = 4) \<longrightarrow>
     a OR (if b then 0x08 else 0) OR push_bit 4 k \<in> set isa_opcodes) [7, 4]) [False, True])
     (0x8 # 0xD # map fst alu_codes)"
  by code_simp

lemma jump_bytes:
  "list_all (\<lambda>k. list_all (\<lambda>b. (k = 0x9 \<or> k = 0x0 \<longrightarrow> \<not> b) \<longrightarrow>
     5 OR (if b then 0x08 else 0) OR push_bit 4 k \<in> set isa_opcodes) [False, True])
     (0x8 # 0x9 # 0x0 # map fst jump_codes)"
  by code_simp

lemma memory_bytes:
  "list_all (\<lambda>w. list_all (\<lambda>a. a OR w OR 0x60 \<in> set isa_opcodes) [1, 2, 3]) (map fst size_codes)"
  "0 OR 0x18 OR 0 \<in> set isa_opcodes"
  by code_simp+

lemma isa_alu_opcode:
  assumes "isa_alu w i \<noteq> None" "opcode i AND 0x07 = 7 \<and> w = 64 \<or> opcode i AND 0x07 = 4 \<and> w = 32"
  shows "opcode i \<in> set isa_opcodes"
proof (cases i rule: opcode_fieldsE)
  fix a b k
  assume f: "opcode i AND 0x07 = a" "bit (opcode i) 3 = b" "drop_bit 4 (opcode i) = k"
    and c: "opcode i = a OR (if b then 0x08 else 0) OR push_bit 4 k"
  have "k \<in> set (0x8 # 0xD # map fst alu_codes)" "k = 0x8 \<longrightarrow> \<not> b" "k = 0xD \<longrightarrow> a = 4"
    using assms unfolding isa_alu_def Let_def f by (auto dest: map_of_Some_mem split: if_splits)
  moreover have "a \<in> set [7, 4]" "b \<in> set [False, True]" using assms(2) f(1) by auto
  ultimately show ?thesis
    unfolding c using alu_bytes unfolding list_all_iff by blast
qed

lemma isa_jump_opcode:
  assumes "isa_jump i \<noteq> None" "opcode i AND 0x07 = 5"
  shows "opcode i \<in> set isa_opcodes"
proof (cases i rule: opcode_fieldsE)
  fix a b k
  assume f: "opcode i AND 0x07 = a" "bit (opcode i) 3 = b" "drop_bit 4 (opcode i) = k"
    and c: "opcode i = a OR (if b then 0x08 else 0) OR push_bit 4 k"
  have "k \<in> set (0x8 # 0x9 # 0x0 # map fst jump_codes)" "k = 0x9 \<or> k = 0x0 \<longrightarrow> \<not> b"
    using assms unfolding isa_jump_def Let_def f by (auto dest: map_of_Some_mem split: if_splits)
  moreover have "a = 5" "b \<in> set [False, True]" using assms(2) f(1) by auto
  ultimately show ?thesis
    unfolding c using jump_bytes unfolding list_all_iff by blast
qed

lemma isa_memory_opcode:
  assumes "isa_memory i \<noteq> None" "opcode i AND 0x07 = 0 \<or> opcode i AND 0x07 = 1 \<or> opcode i AND 0x07 = 2 \<or> opcode i AND 0x07 = 3"
  shows "opcode i \<in> set isa_opcodes"
proof -
  obtain a b d where f: "opcode i AND 0x07 = a" "opcode i AND 0x18 = b" "opcode i AND 0xE0 = d"
    and c: "opcode i = a OR b OR d"
    using opcode_fields(2) [of "opcode i"] by blast
  have "b \<in> set (map fst size_codes)"
    using assms unfolding isa_memory_def Let_def f by (auto dest: map_of_Some_mem split: if_splits)
  moreover have "a = 0 \<and> d = 0 \<and> b = 0x18 \<or> a \<in> set [1, 2, 3] \<and> d = 0x60"
    using assms unfolding isa_memory_def Let_def f by (auto simp: size_codes_def split: if_splits)
  ultimately show ?thesis
    unfolding c using memory_bytes unfolding list_all_iff by blast
qed

lemma opcode_class:
  obtains "opcode i AND 0x07 = 7" | "opcode i AND 0x07 = 4" | "opcode i AND 0x07 = 5" | "opcode i AND 0x07 = 6"
    | "opcode i AND 0x07 = 0 \<or> opcode i AND 0x07 = 1 \<or> opcode i AND 0x07 = 2 \<or> opcode i AND 0x07 = 3"
proof -
  have m: "(0x07 :: u8) = mask 3" by (simp add: mask_eq_exp_minus_1)
  have "unat (opcode i AND 0x07) < 8"
    unfolding m take_bit_eq_mask [symmetric]
    using take_bit_nat_less_exp [of 3 "unat (opcode i)"] by (simp add: unsigned_take_bit_eq)
  moreover have "opcode i AND 0x07 = of_nat (unat (opcode i AND 0x07))" by simp
  ultimately obtain n where "n < 8" "opcode i AND 0x07 = of_nat n" by blast
  then show thesis using that by (auto simp: less_Suc_eq eval_nat_numeral)
qed

lemma isa_decode_opcode:
  assumes "isa_decode i \<noteq> None"
  shows "opcode i \<in> set isa_opcodes"
  by (rule opcode_class [of i])
    (use assms isa_alu_opcode [of 64 i] isa_alu_opcode [of 32 i] isa_jump_opcode [of i] isa_memory_opcode [of i]
     in \<open>auto simp only: isa_decode_def Let_def split: if_splits\<close>)

end
