(* ===== verification/Isa_Agreement.thy ===== *)
theory Isa_Agreement
  imports Isa_Decode
begin

text \<open>
  The interpreter's machine seen as a machine of the instruction set, and each group of
  arms of the interpreter against the instruction it implements: 64-bit and 32-bit
  arithmetic, negation, the wide load, loads, stores, jumps and system calls.
\<close>

section \<open>The interpreter's machine as a machine of the instruction set\<close>

definition isa_of :: "u64 list \<Rightarrow> vm \<Rightarrow> isa" where
  "isa_of text vm =
     \<lparr>rg = regs vm, ip = place text (int (pc vm)), bytes = mem_view (mem vm),
      frames = map (\<lambda>(p, rs). (place text (int p), rs)) (call_stack vm), answer = return_data vm\<rparr>"

lemma isa_of_simps [simp]:
  "rg (isa_of text vm) = regs vm" "ip (isa_of text vm) = place text (int (pc vm))"
  "bytes (isa_of text vm) = mem_view (mem vm)" "answer (isa_of text vm) = return_data vm"
  "frames (isa_of text vm) = map (\<lambda>(p, rs). (place text (int p), rs)) (call_stack vm)"
  by (simp_all add: isa_of_def)

lemma isa_of_eq_iff:
  "isa_of text vm = s \<longleftrightarrow> rg s = regs vm \<and> ip s = place text (int (pc vm)) \<and> bytes s = mem_view (mem vm) \<and>
     frames s = map (\<lambda>(p, rs). (place text (int p), rs)) (call_stack vm) \<and> answer s = return_data vm"
  by (cases s) (auto simp: isa_of_def)

text \<open>What a turn means on the machine of the instruction set; a stop means nothing.\<close>

definition outcome :: "u64 list \<Rightarrow> (sbpf_error, vm) res \<Rightarrow> isa option" where
  "outcome text r = (case r of Inr vm \<Rightarrow> Some (isa_of text vm) | Inl e \<Rightarrow> None)"

lemma outcome_simps [simp]:
  "outcome text (Inr vm) = Some (isa_of text vm)" "outcome text (Inl e) = None"
  by (simp_all add: outcome_def)

definition flow_outcome :: "u64 list \<Rightarrow> (sbpf_error, flow) res \<Rightarrow> isa option" where
  "flow_outcome text r = (case r of Inr (Next vm) \<Rightarrow> Some (isa_of text vm) | _ \<Rightarrow> None)"

lemma flow_outcome_simps [simp]:
  "flow_outcome text (Inr (Next vm)) = Some (isa_of text vm)"
  "flow_outcome text (Inr (Exit x vm)) = None" "flow_outcome text (Inl e) = None"
  by (simp_all add: flow_outcome_def)

lemma place_in [simp]: "p < length text \<Longrightarrow> place text (int p) = Some p"
  by (simp add: place_def)

lemma place_Some_iff: "place text k = Some p \<longleftrightarrow> k = int p \<and> p < length text"
  by (auto simp: place_def)

lemma place_out [simp]: "length text \<le> p \<Longrightarrow> place text (int p) = None"
  by (simp add: place_def)

lemma place_pc_rel:
  assumes "target_ok t" "length text \<le> 2 ^ 31" "p \<le> length text" "- (2 ^ 31) \<le> k" "k < 2 ^ 31"
  shows "place text (int (pc_rel t p k)) = place text (int p + k)"
proof -
  define w :: int where "w = 2 ^ usize_bits t"
  have w: "2 ^ 32 \<le> w" using assms(1) by (auto simp: target_ok_def w_def)
  have b: "- (2 ^ 31) \<le> int p + k" "int p + k < 2 ^ 32" using assms(2-5) by auto
  have "int (pc_rel t p k) = (int p + k) mod w" by (simp add: pc_rel_def w_def)
  also have "\<dots> = (if 0 \<le> int p + k then int p + k else int p + k + w)"
  proof (cases "0 \<le> int p + k")
    case False
    have "(int p + k) mod w = (int p + k + w) mod w" by simp
    also have "\<dots> = int p + k + w" using b w False by (intro mod_pos_pos_trivial) simp_all
    finally show ?thesis using False by simp
  qed (use b w in simp)
  finally show ?thesis using b w assms(2) by (simp add: place_def)
qed

section \<open>Straight instructions\<close>

lemma scast_low: "(ucast (scast (k :: u32) :: u64) :: u32) = k"
  by (rule bit_word_eqI) (auto simp: bit_simps)

lemma sh_imm: "unat (k AND 63 :: u32) = unat (scast k :: u64) mod 64" "unat (k AND 31 :: u32) = unat k mod 32"
proof -
  have "k AND 63 = (ucast (scast k :: u64) :: u32) AND 63" by (simp only: scast_low)
  then show "unat (k AND 63) = unat (scast k :: u64) mod 64" by (simp only: sh64_ucast)
  have "k AND 31 = take_bit 5 k" by (simp add: take_bit_eq_mask mask_eq_exp_minus_1)
  then have "unat (k AND 31) = take_bit 5 (unat k)" by (simp only: unsigned_take_bit_eq)
  then show "unat (k AND 31) = unat k mod 32" by (simp add: take_bit_eq_mod)
qed

lemma put_isa_of:
  "put (isa_of text vm) d v =
     (if d < 11 then map_option (\<lambda>x. isa_of text (vm\<lparr>regs := (regs vm)[d := x]\<rparr>)) v else None)"
  by (auto simp: put_def isa_of_def intro: option.map_cong)


lemma exec_alu64:
  assumes "map_of alu64_codes (opcode i) = Some f" "length (regs vm) = 11"
  shows "outcome text (the (exec_straight t text i vm)) =
     put (isa_of text vm) (dst i) (alu_result 64 f (regs vm ! dst i) (arg_val (isa_of text vm) (isa_arg i)))"
proof -
  have "(opcode i, f) \<in> set alu64_codes" using assms(1) by (rule map_of_SomeD)
  then have "outcome text (the (exec_straight t text i vm)) = put (isa_of text vm) (dst i)
      (case arg_val (isa_of text vm) (isa_arg i) of None \<Rightarrow> None | Some b \<Rightarrow> alu_word f (regs vm ! dst i) b)"
    unfolding alu64_codes_def list.set insert_iff prod.inject
    by (elim disjE conjE emptyE)
      (simp_all add: exec_straight_def arm_defs upd_defs isa_arg_def arg_val_def get_reg_def set_reg_def assms(2)
        sh_imm(1) [of "imm i"] sh64_ucast put_isa_of)
  then show ?thesis by (simp add: alu_result_64 alu_result_None split: option.split)
qed


lemma exec_alu32:
  assumes "map_of alu32_codes (opcode i) = Some f" "length (regs vm) = 11"
  shows "outcome text (the (exec_straight t text i vm)) =
     put (isa_of text vm) (dst i) (alu_result 32 f (regs vm ! dst i) (arg_val (isa_of text vm) (isa_arg i)))"
proof -
  have "(opcode i, f) \<in> set alu32_codes" using assms(1) by (rule map_of_SomeD)
  then have "outcome text (the (exec_straight t text i vm)) = put (isa_of text vm) (dst i)
      (case arg_val (isa_of text vm) (isa_arg i) of None \<Rightarrow> None
       | Some b \<Rightarrow> map_option ucast (alu_word f (ucast (regs vm ! dst i) :: u32) (ucast b)))"
    unfolding alu32_codes_def list.set insert_iff prod.inject
    by (elim disjE conjE emptyE)
      (simp_all add: exec_straight_def arm_defs upd_defs isa_arg_def arg_val_def get_reg_def set_reg_def assms(2)
        sh_imm(2) scast_low put_isa_of)
  then show ?thesis by (simp add: alu_result_32 alu_result_None split: option.split)
qed

lemma exec_arsh32:
  assumes "opcode i \<in> {0xC4, 0xCC}" "length (regs vm) = 11"
  shows "outcome text (the (exec_straight t text i vm)) = put (isa_of text vm) (dst i)
     (case arg_val (isa_of text vm) (isa_arg i) of None \<Rightarrow> None
      | Some b \<Rightarrow> Some (scast (signed_drop_bit (unat (ucast b :: u32) mod 32) (ucast (regs vm ! dst i) :: u32))))"
  using assms(1) unfolding insert_iff
  by (elim disjE emptyE)
    (simp_all add: exec_straight_def arm_defs upd_defs isa_arg_def arg_val_def get_reg_def set_reg_def assms(2)
      sh_imm(2) scast_low put_isa_of)

lemma exec_neg_codes:
  assumes "length (regs vm) = 11"
  shows "opcode i = 0x87 \<Longrightarrow> outcome text (the (exec_straight t text i vm)) =
      (if overflow_checks t \<and> regs vm ! dst i = 0x8000000000000000 then None
       else put (isa_of text vm) (dst i) (Some (- (regs vm ! dst i))))"
    and "opcode i = 0x84 \<Longrightarrow> outcome text (the (exec_straight t text i vm)) =
      (if overflow_checks t \<and> (ucast (regs vm ! dst i) :: u32) = 0x80000000 then None
       else put (isa_of text vm) (dst i) (Some (scast (- (ucast (regs vm ! dst i) :: u32)))))"
  by (simp_all add: exec_straight_def arm_defs upd_defs get_reg_def set_reg_def assms put_isa_of)

text \<open>Loads and stores.\<close>


lemma mapped_in_space:
  assumes "mem_ok t m" "mapped (mem_view m) a n" "1 \<le> n"
  shows "a + n < 2 ^ 64"
proof -
  have "mem_view m (a + (n - 1)) \<noteq> None"
    using assms(2,3) unfolding mapped_def by (elim allE [of _ "n - 1"]) simp
  then show ?thesis using mem_view_bound [OF assms(1), of "a + (n - 1)"] assms(3) by simp
qed

lemma load_with_isa:
  fixes rd :: "target \<Rightarrow> memory \<Rightarrow> u64 \<Rightarrow> (sbpf_error, 'a::len word option) res"
  assumes "vm_ok t vm" "1 \<le> n" "n \<le> 8" "\<And>m a. rd t m a = read_le n t m a"
    and "\<And>f a. ucast (from_le (view_bytes f a n) :: 'a word) = (from_le (view_bytes f a n) :: u64)"
  shows "outcome text (load_with (rd t) n i vm) =
     (if src i < 11 \<and> mapped (mem_view (mem vm)) (unat (regs vm ! src i + off64 i)) n
      then put (isa_of text vm) (dst i)
        (Some (from_le (view_bytes (mem_view (mem vm)) (unat (regs vm ! src i + off64 i)) n))) else None)"
proof -
  have ok: "length (regs vm) = 11" "mem_ok t (mem vm)" using assms(1) by (simp_all add: vm_ok_def)
  show ?thesis
    using mapped_in_space [OF ok(2) _ assms(2), of "unat (regs vm ! src i + off64 i)"] ok(1)
    by (auto simp: load_with_def with_src_def get_reg_def set_reg_def Let_def assms(4,5) put_def isa_of_def
        read_le_char [OF ok(2) assms(2,3)])
qed

lemma exec_loads:
  assumes "vm_ok t vm" "map_of load_codes (opcode i) = Some n"
  shows "outcome text (the (exec_straight t text i vm)) =
     (if src i < 11 \<and> mapped (mem_view (mem vm)) (unat (regs vm ! src i + off64 i)) n
      then put (isa_of text vm) (dst i)
        (Some (from_le (view_bytes (mem_view (mem vm)) (unat (regs vm ! src i + off64 i)) n))) else None)"
proof -
  have "(opcode i, n) \<in> set load_codes" using assms(2) by (rule map_of_SomeD)
  moreover note isa = load_with_isa [OF assms(1), where i = i and rd = read_u8]
    load_with_isa [OF assms(1), where i = i and rd = read_u16] load_with_isa [OF assms(1), where i = i and rd = read_u32]
    load_with_isa [OF assms(1), where i = i and rd = read_u64]
  ultimately show ?thesis unfolding load_codes_def list.set insert_iff prod.inject
    by (elim disjE conjE emptyE)
      (simp_all add: exec_straight_def arm_defs isa access_defs ucast_from_le_view ucast_from_le_view(1) [unfolded One_nat_def]
        del: not_None_eq)
qed

lemma store_with_isa:
  fixes wr :: "target \<Rightarrow> memory \<Rightarrow> u64 \<Rightarrow> 'a::len word \<Rightarrow> (sbpf_error, memory option) res"
  assumes "vm_ok t vm" "1 \<le> n" "n \<le> 8" "\<And>m a. wr t m a v = write_le n t m a v" "to_le n v = to_le n (x :: u64)"
  shows "outcome text (store_with (wr t) n i vm (Inr v)) =
     (if dst i < 11 \<and> mapped (mem_view (mem vm)) (unat (regs vm ! dst i + off64 i)) n
      then Some (isa_of text vm\<lparr>bytes := overlay (mem_view (mem vm)) (unat (regs vm ! dst i + off64 i)) (to_le n x)\<rparr>)
      else None)"
proof -
  have ok: "length (regs vm) = 11" "mem_ok t (mem vm)" using assms(1) by (simp_all add: vm_ok_def)
  let ?a = "regs vm ! dst i + off64 i"
  have "outcome text (bind_res (wr t (mem vm) ?a v) (\<lambda>r.
        bind_res (ok_or (InvalidMemoryAccess ?a n) r) (\<lambda>m. Inr (vm\<lparr>mem := m\<rparr>)))) =
      (if mapped (mem_view (mem vm)) (unat ?a) n
       then Some (isa_of text vm\<lparr>bytes := overlay (mem_view (mem vm)) (unat ?a) (to_le n x)\<rparr>) else None)"
  proof (rule write_le_cases [OF ok(2) assms(2,3) assms(4) [of "mem vm" ?a, symmetric]])
    assume "2 ^ 64 \<le> unat ?a + n" "wr t (mem vm) ?a v = Inl Panic"
    then show ?thesis
      using mapped_in_space [OF ok(2) _ assms(2), of "unat ?a"] by auto
  qed (simp_all add: assms(5) isa_of_def)
  then show ?thesis using ok(1)
    by (simp add: store_with_def with_dst_def get_reg_def Let_def)
qed


lemma to_le_scast:
  "to_le 1 (ucast k :: u8) = to_le 1 (scast (k :: u32) :: u64)" "to_le 2 (ucast k :: u16) = to_le 2 (scast k :: u64)"
  "to_le 4 k = to_le 4 (scast k :: u64)"
proof -
  have low: "to_le n (scast k :: u64) = to_le n k" if "n \<le> 4" for n
    using that by (intro nth_equalityI) (auto intro!: bit_word_eqI simp: nth_to_le bit_simps)
  show "to_le 1 (ucast k :: u8) = to_le 1 (scast k :: u64)" "to_le 2 (ucast k :: u16) = to_le 2 (scast k :: u64)"
    "to_le 4 k = to_le 4 (scast k :: u64)"
    by (simp_all add: low to_le_ucast del: to_le.simps)
qed

lemma store_reg_isa:
  fixes wr :: "target \<Rightarrow> memory \<Rightarrow> u64 \<Rightarrow> 'a::len word \<Rightarrow> (sbpf_error, memory option) res"
  assumes "vm_ok t vm" "1 \<le> n" "n \<le> 8" "8 * n \<le> LENGTH('a)" "\<And>m a v. wr t m a v = write_le n t m a v"
  shows "outcome text (store_with (wr t) n i vm (with_src i vm (\<lambda>s. Inr (ucast s)))) =
     (if src i < 11 \<and> dst i < 11 \<and> mapped (mem_view (mem vm)) (unat (regs vm ! dst i + off64 i)) n
      then Some (isa_of text vm\<lparr>bytes := overlay (mem_view (mem vm)) (unat (regs vm ! dst i + off64 i))
        (to_le n (regs vm ! src i))\<rparr>) else None)"
proof (cases "src i < 11")
  case True
  then have "with_src i vm (\<lambda>s. Inr (ucast s)) = (Inr (ucast (regs vm ! src i)) :: (sbpf_error, 'a word) res)"
    using assms(1) by (simp add: with_src_def get_reg_def vm_ok_def)
  moreover have "to_le n (ucast (regs vm ! src i) :: 'a word) = to_le n (regs vm ! src i)"
    by (rule to_le_ucast [OF assms(4)])
  ultimately show ?thesis
    using True store_with_isa [where wr = wr, OF assms(1-3,5)] by simp
next
  case False
  then show ?thesis using assms(1)
    by (simp add: with_src_def get_reg_def vm_ok_def store_with_def with_dst_def Let_def)
qed

lemma exec_stores:
  assumes "vm_ok t vm" "map_of store_codes (opcode i) = Some n"
  shows "outcome text (the (exec_straight t text i vm)) =
     (case arg_val (isa_of text vm) (if opcode i AND 0x07 = 3 then Reg (src i) else Const (imm i)) of
        Some x \<Rightarrow> (if dst i < 11 \<and> mapped (mem_view (mem vm)) (unat (regs vm ! dst i + off64 i)) n
          then Some (isa_of text vm\<lparr>bytes := overlay (mem_view (mem vm)) (unat (regs vm ! dst i + off64 i)) (to_le n x)\<rparr>)
          else None)
      | None \<Rightarrow> None)"
proof -
  have "(opcode i, n) \<in> set store_codes" using assms(2) by (rule map_of_SomeD)
  moreover note imms = store_with_isa [OF assms(1), of 1 write_u8 _ "imm64 i", OF _ _ _ to_le_scast(1)]
    store_with_isa [OF assms(1), of 2 write_u16 _ "imm64 i", OF _ _ _ to_le_scast(2)]
    store_with_isa [OF assms(1), of 4 write_u32 _ "imm64 i", OF _ _ _ to_le_scast(3)]
    store_with_isa [OF assms(1), of 8 write_u64 _ "imm64 i", OF _ _ _ refl]
  moreover note rgs = store_reg_isa [OF assms(1), of 1 write_u8] store_reg_isa [OF assms(1), of 2 write_u16]
    store_reg_isa [OF assms(1), of 4 write_u32] store_reg_isa [OF assms(1), of 8 write_u64, simplified]
  ultimately show ?thesis unfolding store_codes_def list.set insert_iff prod.inject
    by (elim disjE conjE emptyE)
      (simp_all add: exec_straight_def arm_defs access_defs arg_val_def del: not_None_eq to_le.simps One_nat_def)
qed

text \<open>The wide load: right unless the sign of the low half spoils the high half.\<close>

lemma wide_value_word: "wide_value lo hi = push_bit 32 (drop_bit 32 hi) OR ucast lo"
proof -
  have "of_nat (unat lo) = (ucast lo :: u64)" by simp
  moreover have "(of_nat (2 ^ 32 * (unat hi div 2 ^ 32)) :: u64) = push_bit 32 (drop_bit 32 hi)"
  proof -
    have "(of_nat (2 ^ 32 * (unat hi div 2 ^ 32)) :: u64) = of_nat (unat hi div 2 ^ 32) * 2 ^ 32"
      by (simp only: of_nat_mult) simp
    then show ?thesis by (simp only: alu64_words push_bit_eq_mult)
  qed
  moreover have "(ucast lo :: u64) + push_bit 32 (drop_bit 32 hi) = push_bit 32 (drop_bit 32 hi) OR ucast lo"
    by (subst disjunctive_add) (auto simp: bit_simps ac_simps dest: bit_imp_le_length)
  ultimately show ?thesis by (simp add: wide_value_def)
qed

lemma wide_value_iff:
  "push_bit 32 (drop_bit 32 hi) OR scast lo = wide_value lo hi \<longleftrightarrow> \<not> bit lo 31 \<or> drop_bit 32 hi = mask 32"
  (is "?l = _ \<longleftrightarrow> ?r")
proof -
  have l: "bit ?l n \<longleftrightarrow> n < 64 \<and> (if n < 32 then bit lo n else bit hi n \<or> bit lo 31)" for n
    by (cases "n < 31"; cases "n = 31") (auto simp: bit_simps min_def not_less dest: bit_imp_le_length)
  have w: "bit (wide_value lo hi) n \<longleftrightarrow> n < 64 \<and> (if n < 32 then bit lo n else bit hi n)" for n
    unfolding wide_value_word by (auto simp: bit_simps dest: bit_imp_le_length)
  have "?l = wide_value lo hi \<longleftrightarrow> (\<forall>n<64. 32 \<le> n \<longrightarrow> bit lo 31 \<longrightarrow> bit hi n)"
    by (auto simp: bit_eq_iff l w not_less)
  also have "\<dots> \<longleftrightarrow> ?r"
  proof (cases "bit lo 31")
    case True
    have short: "n < 32" if "bit hi (32 + n)" for n
      using bit_imp_le_length [OF that] by simp
    have "drop_bit 32 hi = mask 32 \<longleftrightarrow> (\<forall>n<32. bit hi (32 + n))"
      using short by (auto simp: bit_eq_iff bit_simps)
    also have "\<dots> \<longleftrightarrow> (\<forall>n<64. 32 \<le> n \<longrightarrow> bit hi n)"
      by (auto simp: le_iff_add)
    finally show ?thesis using True by simp
  qed simp
  finally show ?thesis .
qed

lemma exec_wide:
  assumes "opcode i = 0x18" "length (regs vm) = 11"
  shows "outcome text (the (exec_straight t text i vm)) =
     (if pc vm < length text then put (isa_of text (vm\<lparr>pc := pc vm + 1\<rparr>)) (dst i)
        (Some (push_bit 32 (drop_bit 32 (text ! pc vm)) OR imm64 i)) else None)"
  using assms by (simp add: exec_straight_def arm_defs set_reg_def put_def isa_of_def)

text \<open>Jumps.\<close>


lemma sint_scast: "sint (scast (k :: u32) :: u64) = sint k"
  by (rule sint_up_scast) (simp add: is_up)

lemma jset_word: "(a :: u64) AND b \<noteq> 0 \<longleftrightarrow> (\<exists>k\<in>{0..<64}. bit a k \<and> bit b k)"
  by (auto simp: bit_eq_iff bit_simps dest: bit_imp_le_length)

lemma off_place:
  assumes "target_ok t" "length text \<le> 2 ^ 31" "p \<le> length text"
  shows "place text (int (pc_rel t p (sint (k :: u16)))) = place text (int p + sint k)"
  using assms sint_lt [of k] sint_ge [of k] by (intro place_pc_rel) simp_all

lemma exec_jumps:
  assumes "vm_ok t vm" "length text \<le> 2 ^ 31" "pc vm \<le> length text"
  shows "opcode i = 0x05 \<Longrightarrow> outcome text (the (exec_straight t text i vm)) =
      Some (isa_of text vm\<lparr>ip := place text (int (pc vm) + sint (off i))\<rparr>)"
    and "map_of cond_codes (opcode i) = Some c \<Longrightarrow> outcome text (the (exec_straight t text i vm)) =
      (case arg_val (isa_of text vm) (isa_arg i) of
         Some x \<Rightarrow> (if dst i < 11 then Some (isa_of text vm\<lparr>ip := place text (int (pc vm) +
           (if cond_holds c (regs vm ! dst i) x then sint (off i) else 0))\<rparr>) else None)
       | None \<Rightarrow> None)"
proof -
  have ok: "length (regs vm) = 11" "target_ok t" using assms(1) by (simp_all add: vm_ok_def mem_ok_def)
  note jump = off_place [OF ok(2) assms(2,3)]
  show "opcode i = 0x05 \<Longrightarrow> outcome text (the (exec_straight t text i vm)) =
      Some (isa_of text vm\<lparr>ip := place text (int (pc vm) + sint (off i))\<rparr>)"
    by (simp add: exec_straight_def arm_defs jump_if_def isa_of_def jump)
  assume "map_of cond_codes (opcode i) = Some c"
  then have "(opcode i, c) \<in> set cond_codes" by (rule map_of_SomeD)
  then show "outcome text (the (exec_straight t text i vm)) =
      (case arg_val (isa_of text vm) (isa_arg i) of
         Some x \<Rightarrow> (if dst i < 11 then Some (isa_of text vm\<lparr>ip := place text (int (pc vm) +
           (if cond_holds c (regs vm ! dst i) x then sint (off i) else 0))\<rparr>) else None)
       | None \<Rightarrow> None)"
    unfolding cond_codes_def list.set insert_iff prod.inject
    by (elim disjE conjE emptyE)
      (simp_all add: exec_straight_def arm_defs jump_imm_def jump_reg_def upd_defs get_reg_def ok(1) isa_arg_def
        arg_val_def jump_if_def isa_of_def jump word_less_nat_alt word_le_nat_alt sint_scast jset_word del: bex_simps)
qed

section \<open>System calls\<close>

lemma small_range: "target_ok t \<Longrightarrow> n < 2 ^ 31 \<Longrightarrow> (n :: nat) < 2 ^ (usize_bits t - 1)"
  by (auto simp: target_ok_def)

lemma shipped_memory_calls:
  fixes m :: memory and a b n :: u64
  assumes "shipped t sys" "mem_ok t m" "unat a + unat n < 2 ^ 64"
  shows "\<exists>m'. sol_memset sys a v n m = Inr m' \<and> mem_ok t m' \<and>
      mem_view m' = overlay (mem_view m) (unat a) (replicate (unat n) v)"
    and "unat b + unat n < 2 ^ 64 \<Longrightarrow> unat n < 2 ^ 31 \<Longrightarrow>
      \<exists>m'. sol_memmove sys a b n m = Inr m' \<and> mem_ok t m' \<and>
        mem_view m' = overlay (mem_view m) (unat a) (view_bytes (mem_view m) (unat b) (unat n))"
    and "unat b + unat n < 2 ^ 64 \<Longrightarrow> unat n < 2 ^ 31 \<Longrightarrow>
      unat a + unat n \<le> unat b \<or> unat b + unat n \<le> unat a \<Longrightarrow>
      \<exists>m'. sol_memcpy sys a b n m = Inr m' \<and> mem_ok t m' \<and>
        mem_view m' = overlay (mem_view m) (unat a) (view_bytes (mem_view m) (unat b) (unat n))"
proof -
  have t: "target_ok t" using assms(2) by (simp add: mem_ok_def)
  show "\<exists>m'. sol_memset sys a v n m = Inr m' \<and> mem_ok t m' \<and>
      mem_view m' = overlay (mem_view m) (unat a) (replicate (unat n) v)"
    using guest_sys.memset_fills [OF assms(2,3)] stub_sys.memset_fills [OF assms(2,3)] assms(1)
    unfolding shipped_def by blast
  assume b: "unat b + unat n < 2 ^ 64" and n: "unat n < 2 ^ 31"
  show "\<exists>m'. sol_memmove sys a b n m = Inr m' \<and> mem_ok t m' \<and>
      mem_view m' = overlay (mem_view m) (unat a) (view_bytes (mem_view m) (unat b) (unat n))"
    using guest_sys.memmove_copies [OF assms(2) b assms(3) small_range [OF t n]]
      stub_sys.memmove_copies [OF assms(2) b assms(3) small_range [OF t n]] assms(1)
    unfolding shipped_def by blast
  assume "unat a + unat n \<le> unat b \<or> unat b + unat n \<le> unat a"
  then show "\<exists>m'. sol_memcpy sys a b n m = Inr m' \<and> mem_ok t m' \<and>
      mem_view m' = overlay (mem_view m) (unat a) (view_bytes (mem_view m) (unat b) (unat n))"
    using guest_sys.memcpy_copies [OF assms(2) b assms(3) small_range [OF t n]]
      stub_sys.memcpy_copies [OF assms(2) b assms(3) small_range [OF t n]] assms(1)
    unfolding shipped_def by blast
qed

lemma syscall_isa:
  assumes "vm_ok t vm" "shipped t sys" "isa_syscall h (isa_of text vm) = Some s"
  shows "outcome text (dispatch_syscall t sys h vm) = Some s"
proof -
  have ok: "length (regs vm) = 11" "mem_ok t (mem vm)" "target_ok t"
    using assms(1) by (simp_all add: vm_ok_def mem_ok_def)
  let ?a = "regs vm ! 1" and ?b = "regs vm ! 2" and ?n = "regs vm ! 3"
  note calls = shipped_memory_calls [OF assms(2) ok(2), of ?a ?n]
  have fetch: "fetch_bytes (read_u8 t) t (mem vm) ?a (unat ?b) 0 =
      (Inr (view_bytes (mem_view (mem vm)) (unat ?a) (unat ?b)) :: (sbpf_error, _) res)" "as_usize t ?b = unat ?b"
    if "unat ?a + unat ?b < 2 ^ 64" "unat ?b < 2 ^ 31"
  proof -
    show "as_usize t ?b = unat ?b" using that(2) ok(3) by (auto simp: as_usize_def target_ok_def)
    show "fetch_bytes (read_u8 t) t (mem vm) ?a (unat ?b) 0 =
        (Inr (view_bytes (mem_view (mem vm)) (unat ?a) (unat ?b)) :: (sbpf_error, _) res)"
      using vm_mem.fetch_bytes_view [OF ok(2), of ?a 0 "unat ?b" t] that(1) by simp
  qed
  note unfolded = dispatch_syscall_def isa_syscall_def Let_def ok(1) isa_of_def
  have moved: "outcome text (dispatch_syscall t sys h vm) = Some s"
    if "dispatch_syscall t sys h vm = bind_res (Inr m) (\<lambda>m. set_reg (vm\<lparr>mem := m\<rparr>) 0 0)"
      and "s = isa_of text vm\<lparr>rg := (regs vm)[0 := 0], bytes := mem_view m\<rparr>" for m
    using that by (simp add: ok(1) isa_of_def)
  consider "h = SOL_MEMCPY" | "h = SOL_MEMMOVE" | "h = SOL_MEMSET" | "h = SOL_SET_RETURN_DATA \<or> h = 5"
    | "h \<notin> {SOL_MEMCPY, SOL_MEMMOVE, SOL_MEMSET, SOL_SET_RETURN_DATA, 5}" by blast
  then show ?thesis
  proof cases
    case 1
    with assms(3) obtain m where "sol_memcpy sys ?a ?b ?n (mem vm) = Inr m"
        "mem_view m = overlay (mem_view (mem vm)) (unat ?a) (view_bytes (mem_view (mem vm)) (unat ?b) (unat ?n))"
      using calls(3) [of ?b] by (force simp: isa_syscall_def Let_def simp del: One_nat_def split: if_splits)
    then show ?thesis using 1 assms(3)
      by (intro moved [of m]) (auto simp: unfolded simp del: One_nat_def split: if_splits)
  next
    case 2
    with assms(3) obtain m where "sol_memmove sys ?a ?b ?n (mem vm) = Inr m"
        "mem_view m = overlay (mem_view (mem vm)) (unat ?a) (view_bytes (mem_view (mem vm)) (unat ?b) (unat ?n))"
      using calls(2) [of ?b] by (force simp: isa_syscall_def Let_def simp del: One_nat_def split: if_splits)
    then show ?thesis using 2 assms(3)
      by (intro moved [of m]) (auto simp: unfolded simp del: One_nat_def split: if_splits)
  next
    case 3
    with assms(3) obtain m where "sol_memset sys ?a (ucast ?b) ?n (mem vm) = Inr m"
        "mem_view m = overlay (mem_view (mem vm)) (unat ?a) (replicate (unat ?n) (ucast ?b))"
      using calls(1) by (force simp: isa_syscall_def Let_def simp del: One_nat_def split: if_splits)
    then show ?thesis using 3 assms(3)
      by (intro moved [of m]) (auto simp: unfolded simp del: One_nat_def split: if_splits)
  next
    case 4
    with assms(3) have r: "unat ?a + unat ?b < 2 ^ 64" "unat ?b < 2 ^ 31"
      by (auto simp: isa_syscall_def Let_def simp del: One_nat_def split: if_splits)
    show ?thesis using 4 assms(3) small_range [OF ok(3) r(2)] r
      by (auto simp: unfolded with_capacity_def fetch simp del: One_nat_def split: if_splits)
  next
    case 5
    then show ?thesis using assms(3)
      by (auto simp: unfolded simp del: One_nat_def split: if_splits)
  qed
qed

end
