(* ===== verification/Isa_Refinement.thy ===== *)
theory Isa_Refinement
  imports Isa_Agreement
begin

text \<open>
  The interpreter implements the instruction set: a turn is a step of the instruction set
  exactly where the interpreter follows it, and whole runs compute what the instruction set
  computes.
\<close>

section \<open>Where the interpreter follows the instruction set\<close>

text \<open>
  The interpreter has no 32-bit remainder and no byte swap; it sign-extends the low half of
  a wide load (which makes no difference when the high half is all ones) and the results of the 32-bit negation and arithmetic shifts; with overflow
  checks it panics on the negation of the least value.
\<close>

definition right_value :: "target \<Rightarrow> u64 \<Rightarrow> insn \<Rightarrow> u64 \<Rightarrow> bool" where
  "right_value t d i hi \<longleftrightarrow>
     (opcode i = 0x18 \<longrightarrow> \<not> bit (imm i) 31 \<or> drop_bit 32 hi = mask 32) \<and>
     (opcode i = 0x87 \<longrightarrow> \<not> (overflow_checks t \<and> d = 0x8000000000000000)) \<and>
     (opcode i = 0x84 \<longrightarrow> \<not> bit (- (ucast d :: u32)) 31) \<and>
     (opcode i \<in> {0xC4, 0xCC} \<longrightarrow> \<not> bit d 31)"

definition follows :: "target \<Rightarrow> u64 list \<Rightarrow> vm \<Rightarrow> bool" where
  "follows t text vm \<longleftrightarrow> opcode (fetched text vm) \<notin> {0x94, 0x9C, 0xD4, 0xDC} \<and>
     right_value t (regs vm ! dst (fetched text vm)) (fetched text vm) (text ! (pc vm + 1))"

definition syscall_at :: "u64 list \<Rightarrow> vm \<Rightarrow> bool" where
  "syscall_at text vm \<longleftrightarrow> opcode (fetched text vm) = 0x8D \<or>
     opcode (fetched text vm) = 0x85 \<and> src (fetched text vm) = 1"

text \<open>The next instruction of the instruction set, at the machine of the interpreter.\<close>

lemma isa_next_isa_of:
  "isa_next text (isa_of text vm) =
     (if pc vm < length text then (case isa_decode (fetched text vm) of None \<Rightarrow> None
        | Some ins \<Rightarrow> isa_exec text (pc vm) ins (isa_of text vm)) else None)"
  by (simp add: isa_next_def isa_at_def fetched_def not_less split: option.split)

lemma step_outcome_straight:
  assumes "pc vm < length text" "opcode (fetched text vm) \<in> set straight_opcodes"
  shows "flow_outcome text (step t sys text vm) =
     outcome text (the (exec_straight t text (fetched text vm) (vm\<lparr>pc := pc vm + 1\<rparr>)))"
proof -
  let ?r = "the (exec_straight t text (fetched text vm) (vm\<lparr>pc := pc vm + 1\<rparr>))"
  have "step t sys text vm = bind_res ?r (\<lambda>vm'. Inr (Next vm'))"
    using assms by (simp add: step_fetched exec_insn_straight)
  then show ?thesis by (cases ?r) simp_all
qed

lemma isa_of_next: "isa_of text (vm\<lparr>pc := Suc (pc vm)\<rparr>) = (isa_of text vm)\<lparr>ip := place text (int (pc vm) + 1)\<rparr>"
  by (simp add: isa_of_def ac_simps)

lemma arg_val_ip [simp]: "arg_val (s\<lparr>ip := p\<rparr>) a = arg_val s a"
  by (simp add: arg_val_def split: arg.split)

lemma vm_ok_regs_mem: "vm_ok t vm \<Longrightarrow> length (regs vm) = 11 \<and> mem_ok t (mem vm) \<and> target_ok t"
  by (simp add: vm_ok_def mem_ok_def)

lemma scast_ucast_iff: "(scast (x :: u32) :: u64) = ucast x \<longleftrightarrow> \<not> bit x 31"
proof -
  have "bit (scast x :: u64) n \<longleftrightarrow> n < 64 \<and> (if n < 32 then bit x n else bit x 31)" for n
    by (cases "n < 31"; cases "n = 31") (auto simp: bit_simps min_def not_less)
  moreover have "bit (ucast x :: u64) n \<longleftrightarrow> n < 32 \<and> bit x n" for n
    by (auto simp: bit_simps dest: bit_imp_le_length)
  ultimately have "(scast x :: u64) = ucast x \<longleftrightarrow> (\<forall>n :: nat. 32 \<le> n \<and> n < 64 \<longrightarrow> \<not> bit x 31)"
    by (auto simp: bit_eq_iff not_less)
  then show ?thesis by (auto intro: exI [of _ 32])
qed

lemmas ucast_scast_iff = scast_ucast_iff [unfolded eq_commute [of "scast _"]]

lemma rg_update_eq_iff: "s\<lparr>rg := a\<rparr> = s\<lparr>rg := b\<rparr> \<longleftrightarrow> a = b" for s :: isa
  by (cases s) simp

lemma put_Some_iff:
  assumes "put s d (Some x) = Some s'" "length (rg s) = 11"
  shows "put s d v = Some s' \<longleftrightarrow> v = Some x"
proof -
  have d: "d < 11" "s' = s\<lparr>rg := (rg s)[d := x]\<rparr>" using assms(1) by (auto simp: put_def split: if_splits)
  then have "(rg s)[d := y] = (rg s)[d := x] \<longleftrightarrow> y = x" for y
    using assms(2) by (metis nth_list_update_eq)
  then show ?thesis using d by (cases v) (auto simp: put_def rg_update_eq_iff)
qed

lemma put_None [simp]: "put s d None = None"
  by (simp add: put_def)

lemma neg32_min: "(ucast (d :: u64) :: u32) = 0x80000000 \<Longrightarrow> bit (- (ucast d :: u32)) 31"
  by simp

lemma arsh32_sign: "bit (signed_drop_bit k (ucast (d :: u64) :: u32)) 31 \<longleftrightarrow> bit d 31"
  by (cases "k = 0") (auto simp: bit_simps min_def)

text \<open>The opcodes whose result may differ, and when it does not.\<close>

lemma doubtful_outcome:
  assumes "length (regs vm) = 11" "opcode i \<in> {0x87, 0x84, 0xC4, 0xCC}" "isa_decode i = Some (Alu w f (dst i) a)"
    and "alu_result w f (regs vm ! dst i) (arg_val (isa_of text vm) a) = Some x"
  shows "\<exists>v. outcome text (the (exec_straight t text i vm)) = put (isa_of text vm) (dst i) v \<and>
     (v = Some x \<longleftrightarrow> right_value t (regs vm ! dst i) i hi)"
proof -
  let ?d = "regs vm ! dst i"
  consider "opcode i = 0x87" | "opcode i = 0x84" | "opcode i \<in> {0xC4, 0xCC}" using assms(2) by auto
  then show ?thesis
  proof cases
    case 1
    then show ?thesis
      using assms(3,4) exec_neg_codes(1) [OF assms(1) 1, of "text" t]
      by (intro exI [of _ "if overflow_checks t \<and> ?d = 0x8000000000000000 then None else Some (- ?d)"])
        (auto simp: other_decode(2) right_value_def arg_val_def alu_result_64)
  next
    case 2
    then show ?thesis
      using assms(3,4) exec_neg_codes(2) [OF assms(1) 2, of "text" t]
      by (intro exI [of _ "if overflow_checks t \<and> (ucast ?d :: u32) = 0x80000000 then None
          else Some (scast (- (ucast ?d :: u32)))"])
        (auto simp: other_decode(3) right_value_def arg_val_def alu_result_32 scast_ucast_iff ucast_scast_iff dest: neg32_min)
  next
    case 3
    have a: "a = isa_arg i" "w = 32" "f = Arsh" using assms(3) other_decode(4) [OF 3] by simp_all
    obtain b where b: "arg_val (isa_of text vm) (isa_arg i) = Some b"
      using assms(4) unfolding a by (cases "arg_val (isa_of text vm) (isa_arg i)") simp_all
    show ?thesis
      using exec_arsh32 [OF 3 assms(1), of "text" t] assms(4) 3
      by (intro exI [of _ "Some (scast (signed_drop_bit (unat (ucast b :: u32) mod 32) (ucast ?d :: u32)))"])
        (auto simp: a b alu_result_32 right_value_def scast_ucast_iff ucast_scast_iff arsh32_sign)
  qed
qed

section \<open>One turn\<close>

text \<open>All other opcodes: every result is right.\<close>

lemma rg_ip [simp]:
  "rg (isa_of text vm\<lparr>ip := p\<rparr>) = regs vm" "bytes (isa_of text vm\<lparr>ip := p\<rparr>) = mem_view (mem vm)"
  by simp_all

lemma table_right_value:
  "map_of alu64_codes (opcode i) = Some f \<Longrightarrow> right_value t d i hi"
  "map_of alu32_codes (opcode i) = Some f \<Longrightarrow> right_value t d i hi"
  "map_of load_codes (opcode i) = Some n \<Longrightarrow> right_value t d i hi"
  "map_of store_codes (opcode i) = Some n \<Longrightarrow> right_value t d i hi"
  "map_of cond_codes (opcode i) = Some c \<Longrightarrow> right_value t d i hi"
  "opcode i = 0x05 \<Longrightarrow> right_value t d i hi"
  by (auto simp: right_value_def alu64_codes_def alu32_codes_def load_codes_def store_codes_def cond_codes_def)

lemma cond_not_JA: "map_of cond_codes k = Some c \<Longrightarrow> c \<noteq> JA"
  by (erule by_table) (simp add: cond_codes_def)

lemma plain_outcome:
  assumes "vm_ok t vm" "length text \<le> 2 ^ 31" "pc vm < length text"
    and "opcode (fetched text vm) \<in> set straight_opcodes"
    and "opcode (fetched text vm) \<notin> {0x18, 0x87, 0x84, 0xC4, 0xCC}"
  shows "outcome text (the (exec_straight t text (fetched text vm) (vm\<lparr>pc := pc vm + 1\<rparr>))) =
       isa_next text (isa_of text vm) \<and> right_value t d (fetched text vm) hi"
proof -
  let ?i = "fetched text vm" and ?vm = "vm\<lparr>pc := pc vm + 1\<rparr>"
  have ok: "vm_ok t ?vm" "length (regs ?vm) = 11" "pc ?vm \<le> length text"
    using assms(1,3) by (simp_all add: vm_ok_def)
  note next_isa = isa_next_isa_of assms(3) isa_of_next
  consider (alu64) f where "map_of alu64_codes (opcode ?i) = Some f"
    | (alu32) f where "map_of alu32_codes (opcode ?i) = Some f"
    | (ld) n where "map_of load_codes (opcode ?i) = Some n"
    | (st) n where "map_of store_codes (opcode ?i) = Some n"
    | (cond) c where "map_of cond_codes (opcode ?i) = Some c" | (ja) "opcode ?i = 0x05"
    using straight_table [OF assms(4)] assms(5) by blast
  then show ?thesis
  proof cases
    case alu64
    then show ?thesis
      using exec_alu64 [OF alu64 ok(2), of "text" t]
      by (simp add: next_isa table_decode(1) [OF alu64] table_right_value(1) [OF alu64])
  next
    case alu32
    then show ?thesis
      using exec_alu32 [OF alu32 ok(2), of "text" t]
      by (simp add: next_isa table_decode(2) [OF alu32] table_right_value(2) [OF alu32])
  next
    case ld
    then show ?thesis
      using exec_loads [OF ok(1) ld, of "text"]
      by (simp add: next_isa table_decode(3) [OF ld] table_right_value(3) [OF ld] Let_def)
  next
    case st
    then show ?thesis
      using exec_stores [OF ok(1) st, of "text"]
      by (simp add: next_isa table_decode(4) [OF st] table_right_value(4) [OF st] Let_def cong: option.case_cong if_cong)
  next
    case cond
    then show ?thesis
      using exec_jumps(2) [OF ok(1) assms(2) ok(3) cond] cond_not_JA [OF cond]
      by (simp add: next_isa table_decode(5) [OF cond] table_right_value(5) [OF cond] add.commute [of 1] cong: option.case_cong if_cong)
  next
    case ja
    then show ?thesis
      using exec_jumps(1) [OF ok(1) assms(2) ok(3) ja]
      by (simp add: next_isa other_decode(5) [OF ja] table_right_value(6) [OF ja] add.commute [of 1])
  qed
qed

lemma wide_outcome:
  assumes "vm_ok t vm" "pc vm < length text" "opcode (fetched text vm) = 0x18"
  shows "outcome text (the (exec_straight t text (fetched text vm) (vm\<lparr>pc := pc vm + 1\<rparr>))) =
      (if pc vm + 1 < length text then put (isa_of text vm\<lparr>ip := place text (int (pc vm) + 2)\<rparr>) (dst (fetched text vm))
         (Some (push_bit 32 (drop_bit 32 (text ! (pc vm + 1))) OR imm64 (fetched text vm))) else None)"
    and "isa_next text (isa_of text vm) =
      (if pc vm + 1 < length text then put (isa_of text vm\<lparr>ip := place text (int (pc vm) + 2)\<rparr>) (dst (fetched text vm))
         (Some (wide_value (imm (fetched text vm)) (text ! (pc vm + 1)))) else None)"
proof -
  have "isa_of text (vm\<lparr>pc := Suc (Suc (pc vm))\<rparr>) = isa_of text vm\<lparr>ip := place text (int (pc vm) + 2)\<rparr>"
    by (simp add: isa_of_def ac_simps)
  then show "outcome text (the (exec_straight t text (fetched text vm) (vm\<lparr>pc := pc vm + 1\<rparr>))) =
      (if pc vm + 1 < length text then put (isa_of text vm\<lparr>ip := place text (int (pc vm) + 2)\<rparr>) (dst (fetched text vm))
         (Some (push_bit 32 (drop_bit 32 (text ! (pc vm + 1))) OR imm64 (fetched text vm))) else None)"
    using exec_wide [OF assms(3), of "vm\<lparr>pc := pc vm + 1\<rparr>" "text" t] assms(1) by (simp add: vm_ok_def)
  show "isa_next text (isa_of text vm) =
      (if pc vm + 1 < length text then put (isa_of text vm\<lparr>ip := place text (int (pc vm) + 2)\<rparr>) (dst (fetched text vm))
         (Some (wide_value (imm (fetched text vm)) (text ! (pc vm + 1)))) else None)"
    using assms(2) by (simp add: isa_next_isa_of other_decode(1) [OF assms(3)])
qed

text \<open>The two facts about a turn that the properties need, for the doubtful opcodes together.\<close>

lemma put_agree:
  assumes "out = put s d v" "nxt = put s d (Some x)" "v = Some x \<longleftrightarrow> R" "length (rg s) = 11"
  shows "(nxt = Some s' \<longrightarrow> (out = Some s' \<longleftrightarrow> R)) \<and> (R \<longrightarrow> out = nxt)"
  using assms put_Some_iff [of s d x s' v] by auto

lemma doubtful_agree:
  assumes "vm_ok t vm" "pc vm < length text" "opcode (fetched text vm) \<in> {0x18, 0x87, 0x84, 0xC4, 0xCC}"
  defines "nxt \<equiv> isa_next text (isa_of text vm)"
    and "out \<equiv> outcome text (the (exec_straight t text (fetched text vm) (vm\<lparr>pc := pc vm + 1\<rparr>)))"
    and "R \<equiv> right_value t (regs vm ! dst (fetched text vm)) (fetched text vm) (text ! (pc vm + 1))"
  shows "(nxt = Some s \<longrightarrow> (out = Some s \<longleftrightarrow> R)) \<and> (R \<longrightarrow> out = nxt)"
proof (cases "opcode (fetched text vm) = 0x18")
  case True
  have "R \<longleftrightarrow> push_bit 32 (drop_bit 32 (text ! (pc vm + 1))) OR imm64 (fetched text vm) =
      wide_value (imm (fetched text vm)) (text ! (pc vm + 1))"
    using True by (simp add: R_def right_value_def wide_value_iff)
  then show ?thesis
    unfolding nxt_def out_def wide_outcome [OF assms(1,2) True]
    using assms(1) by (cases "pc vm + 1 < length text") (auto simp: vm_ok_def dest!: put_Some_iff)
next
  case False
  let ?i = "fetched text vm" and ?vm = "vm\<lparr>pc := pc vm + 1\<rparr>"
  have o: "opcode ?i \<in> {0x87, 0x84, 0xC4, 0xCC}" and l: "length (regs ?vm) = 11"
    using assms(1,3) False by (auto simp: vm_ok_def)
  obtain w f a where dec: "isa_decode ?i = Some (Alu w f (dst ?i) a)" and w: "w = 64 \<or> w = 32" "f = Neg \<or> f = Arsh"
    using o by (auto simp: other_decode)
  have nxt: "nxt = put (isa_of text ?vm) (dst ?i) (alu_result w f (regs vm ! dst ?i) (arg_val (isa_of text ?vm) a))"
    using assms(2) by (simp add: nxt_def isa_next_isa_of dec isa_of_next)
  show ?thesis
  proof (cases "alu_result w f (regs vm ! dst ?i) (arg_val (isa_of text ?vm) a)")
    case None
    then have "arg_val (isa_of text ?vm) a = None"
      using w by (auto simp: alu_result_def split: option.split_asm)
    then have "opcode ?i \<in> {0xC4, 0xCC}" "arg_val (isa_of text ?vm) (isa_arg ?i) = None"
      using o dec by (auto simp: other_decode arg_val_def)
    then have "out = None" using exec_arsh32 [OF _ l, of ?i "text" t] by (simp add: out_def)
    then show ?thesis using nxt None by simp
  next
    case (Some x)
    then obtain v where "out = put (isa_of text ?vm) (dst ?i) v" "v = Some x \<longleftrightarrow> R"
      using doubtful_outcome [OF l o dec, of "text" x t "text ! (pc vm + 1)"] by (auto simp: out_def R_def)
    moreover have "length (rg (isa_of text ?vm)) = 11" using l by (simp only: isa_of_simps)
    ultimately show ?thesis using nxt unfolding Some by (intro put_agree)
  qed
qed

lemma straight_agree:
  assumes "vm_ok t vm" "length text \<le> 2 ^ 31" "pc vm < length text"
    and "opcode (fetched text vm) \<in> set straight_opcodes"
  shows "(isa_next text (isa_of text vm) = Some s \<longrightarrow>
       (flow_outcome text (step t sys text vm) = Some s \<longleftrightarrow> follows t text vm)) \<and>
     (follows t text vm \<longrightarrow> flow_outcome text (step t sys text vm) = isa_next text (isa_of text vm))"
proof -
  have "follows t text vm \<longleftrightarrow>
      right_value t (regs vm ! dst (fetched text vm)) (fetched text vm) (text ! (pc vm + 1))"
    using assms(4) by (auto simp: follows_def straight_opcodes_def)
  then show ?thesis
    unfolding step_outcome_straight [OF assms(3,4)]
    using doubtful_agree [OF assms(1,3), of s] plain_outcome [OF assms]
    by (cases "opcode (fetched text vm) \<in> {0x18, 0x87, 0x84, 0xC4, 0xCC}") auto
qed

lemma call_follows: "opcode (fetched text vm) \<in> set call_opcodes \<Longrightarrow> follows t text vm"
  by (auto simp: follows_def right_value_def call_opcodes_def)

lemma syscall_step:
  assumes "pc vm < length text" "syscall_at text vm"
  shows "flow_outcome text (step t sys text vm) =
       outcome text (dispatch_syscall t sys (imm (fetched text vm)) (vm\<lparr>pc := pc vm + 1\<rparr>))"
    and "isa_decode (fetched text vm) = Some (Syscall (imm (fetched text vm)))"
proof -
  let ?r = "dispatch_syscall t sys (imm (fetched text vm)) (vm\<lparr>pc := pc vm + 1\<rparr>)"
  have "step t sys text vm = bind_res ?r (\<lambda>vm'. Inr (Next vm'))"
    using assms by (auto simp: step_fetched exec_insn_call call_opcodes_def exec_call_def syscall_at_def)
  then show "flow_outcome text (step t sys text vm) = outcome text ?r" by (cases ?r) simp_all
  show "isa_decode (fetched text vm) = Some (Syscall (imm (fetched text vm)))"
    using assms(2) by (auto simp: syscall_at_def other_decode)
qed

lemma call_place:
  assumes "target_ok t" "length text \<le> 2 ^ 31" "p < length text"
  shows "place text (int (pc_rel t (p + 1) (sint (k :: u32)))) = place text (int p + 1 + sint k)"
  using assms sint_lt [of k] sint_ge [of k] place_pc_rel [of t "text" "p + 1" "sint k"] by (simp add: add.commute [of 1])

lemma call_agree:
  assumes "vm_ok t vm" "length text \<le> 2 ^ 31" "pc vm < length text" "\<not> syscall_at text vm"
    and "opcode (fetched text vm) \<in> set call_opcodes"
  shows "flow_outcome text (step t sys text vm) = isa_next text (isa_of text vm)"
proof -
  have ok: "length (regs vm) = 11" "target_ok t" "list_all (\<lambda>frame. length (snd frame) = 11) (call_stack vm)"
    using assms(1) by (simp_all add: vm_ok_def mem_ok_def)
  consider "opcode (fetched text vm) = 0x85" "src (fetched text vm) \<noteq> 1" | "opcode (fetched text vm) = 0x95"
    using assms(4,5) by (auto simp: syscall_at_def call_opcodes_def)
  then show ?thesis
  proof cases
    case 1
    then show ?thesis
      using call_place [OF ok(2) assms(2,3), of "imm (fetched text vm)"] assms(3)
      by (auto simp: step_fetched exec_insn_call call_opcodes_def exec_call_def isa_next_isa_of other_decode
          MAX_CALL_DEPTH_def isa_of_eq_iff add.commute [of 1])
  next
    case 2
    then show ?thesis
      using ok assms(3)
      by (cases "call_stack vm")
        (auto simp: step_fetched exec_insn_call call_opcodes_def exec_call_def isa_next_isa_of other_decode isa_of_eq_iff)
  qed
qed

lemma decode_Ret:
  assumes "isa_decode i = Some Ret"
  shows "opcode i = 0x95"
proof -
  have "opcode i \<in> set isa_opcodes" using isa_decode_opcode [of i] assms by simp
  then consider "opcode i \<in> set straight_opcodes" | "opcode i \<in> {0x85, 0x8D, 0x95}" | "opcode i \<in> {0x94, 0x9C, 0xD4, 0xDC}"
    unfolding isa_opcodes_def call_opcodes_def by auto
  then show ?thesis
  proof cases
    case 1
    then show ?thesis using straight_table [OF 1] assms by (auto simp: table_decode other_decode)
  next
    case 2
    then show ?thesis using assms by (auto simp: other_decode split: if_splits)
  next
    case 3
    then show ?thesis using assms by (auto simp: isa_decode_defs)
  qed
qed

lemma step_agree:
  assumes "vm_ok t vm" "shipped t sys" "length text \<le> 2 ^ 31"
  shows "(isa_next text (isa_of text vm) = Some s \<longrightarrow>
       (flow_outcome text (step t sys text vm) = Some s \<longleftrightarrow> follows t text vm)) \<and>
     (follows t text vm \<and> \<not> syscall_at text vm \<longrightarrow>
       flow_outcome text (step t sys text vm) = isa_next text (isa_of text vm))"
proof (cases "pc vm < length text")
  case in_text: True
  let ?i = "fetched text vm"
  consider "opcode ?i \<in> set straight_opcodes" | "opcode ?i \<in> set call_opcodes" "syscall_at text vm"
    | "opcode ?i \<in> set call_opcodes" "\<not> syscall_at text vm"
    | "opcode ?i \<notin> set straight_opcodes" "opcode ?i \<notin> set call_opcodes" by blast
  then show ?thesis
  proof cases
    case 1
    then show ?thesis using straight_agree [OF assms(1,3) in_text] by blast
  next
    case 2
    have "isa_next text (isa_of text vm) =
        isa_syscall (imm ?i) (isa_of text (vm\<lparr>pc := pc vm + 1\<rparr>))"
      using in_text syscall_step(2) [OF in_text 2(2)] by (simp add: isa_next_isa_of isa_of_next)
    then show ?thesis
      using syscall_isa [of t "vm\<lparr>pc := pc vm + 1\<rparr>" sys "imm ?i" "text" s] assms(1,2) call_follows [OF 2(1)]
        syscall_step(1) [OF in_text 2(2), of t sys] 2(2) by auto
  next
    case 3
    then show ?thesis using call_agree [OF assms(1,3) in_text 3(2,1)] call_follows [OF 3(1)] by simp
  next
    case 4
    then have "step t sys text vm = Inl (Fault (UnknownOpcode (opcode ?i)))"
      using in_text by (simp add: step_fetched exec_insn_unknown)
    moreover have "isa_next text (isa_of text vm) = None" if "opcode ?i \<notin> {0x94, 0x9C, 0xD4, 0xDC}"
      using isa_decode_opcode [of ?i] 4 that
      by (cases "isa_decode ?i") (auto simp: isa_next_isa_of isa_opcodes_def)
    ultimately show ?thesis by (auto simp: follows_def)
  qed
next
  case False
  then show ?thesis by (simp add: isa_next_isa_of step_def)
qed

text \<open>
  C4: the interpreter implements the instruction set. Wherever the instruction set defines a
  next state, the turn of the interpreter reaches it except in these cases, and in all of
  these it does not: a 32-bit remainder, a byte swap, a wide load whose low half is negative
  and whose high half is not all ones, a 32-bit negation with a negative result, a 32-bit
  arithmetic shift of a value with bit 31 set, and, with overflow checks, the 64-bit negation
  of the least value (\<open>follows\<close>). Outside these cases and outside system calls the turn goes on
  only where the instruction set does.
\<close>

theorem interpreter_implements_isa:
  assumes "vm_ok t vm" "shipped t sys" "length text \<le> 2 ^ 31"
  shows "(isa_next text (isa_of text vm) = Some s \<longrightarrow>
       (flow_outcome text (step t sys text vm) = Some s \<longleftrightarrow> follows t text vm)) \<and>
     (follows t text vm \<and> \<not> syscall_at text vm \<longrightarrow>
       flow_outcome text (step t sys text vm) = isa_next text (isa_of text vm))"
  by (rule step_agree [OF assms])

definition wide_text :: "u64 list" where
  "wide_text = [0x8000000000000018, 0x100000000, 0x95]"

theorem interpreter_implements_isa_witness:
  "isa_next wide_text (isa_of wide_text (demo_vm (replicate 11 0))) =
     Some (isa_of wide_text (demo_vm ((replicate 11 0)[0 := 0x180000000])\<lparr>pc := 2\<rparr>)) \<and>
   flow_outcome wide_text (step host64 (guest_syscalls host64) wide_text (demo_vm (replicate 11 0))) \<noteq>
     Some (isa_of wide_text (demo_vm ((replicate 11 0)[0 := 0x180000000])\<lparr>pc := 2\<rparr>))"
proof
  let ?vm = "demo_vm (replicate 11 0)"
  have f: "fetched wide_text ?vm = \<lparr>opcode = 0x18, dst = 0, src = 0, off = 0, imm = 0x80000000\<rparr>"
    by (simp add: fetched_def decode_def wide_text_def demo_vm_def)
  have l: "length wide_text = 3" "wide_text ! 1 = 0x100000000" "wide_text ! Suc 0 = 0x100000000" "pc ?vm = 0"
    by (simp_all add: wide_text_def demo_vm_def)
  show n: "isa_next wide_text (isa_of wide_text ?vm) =
      Some (isa_of wide_text (demo_vm ((replicate 11 0)[0 := 0x180000000])\<lparr>pc := 2\<rparr>))"
    by (simp add: isa_next_isa_of f other_decode(1) l put_def wide_value_def isa_of_eq_iff) (simp add: demo_vm_def)
  have "\<not> follows host64 wide_text ?vm"
    by (simp add: follows_def right_value_def f l mask_eq_exp_minus_1)
  then show "flow_outcome wide_text (step host64 (guest_syscalls host64) wide_text ?vm) \<noteq>
      Some (isa_of wide_text (demo_vm ((replicate 11 0)[0 := 0x180000000])\<lparr>pc := 2\<rparr>))"
    using interpreter_implements_isa [of host64 ?vm "guest_syscalls host64" wide_text] n l by simp
qed

end
