(* ===== verification/Simulation.thy ===== *)
theory Simulation
  imports Main
begin

text \<open>
  The contract of an implementation: a step of the implementation, seen through an
  abstraction function, is a step of the specification or changes nothing, on the states of
  an invariant. Then whole runs of the implementation are runs of the specification.
\<close>

locale simulation =
  fixes step :: "'s \<Rightarrow> 's \<Rightarrow> bool"
    and spec :: "'a \<Rightarrow> 'a \<Rightarrow> bool"
    and abs :: "'s \<Rightarrow> 'a"
    and inv :: "'s \<Rightarrow> bool"
  assumes keeps_inv: "inv s \<Longrightarrow> step s s' \<Longrightarrow> inv s'"
    and simulates: "inv s \<Longrightarrow> step s s' \<Longrightarrow> spec\<^sup>=\<^sup>= (abs s) (abs s')"
begin

lemma run_keeps_inv:
  assumes "step\<^sup>*\<^sup>* s s'" "inv s"
  shows "inv s'"
  using assms by (induction rule: rtranclp_induct) (auto intro: keeps_inv)

lemma run_simulates:
  assumes "step\<^sup>*\<^sup>* s s'" "inv s"
  shows "spec\<^sup>*\<^sup>* (abs s) (abs s')"
  using assms
proof (induction rule: rtranclp_induct)
  case (step s1 s2)
  have "inv s1" by (rule run_keeps_inv [OF step.hyps(1) step.prems])
  from simulates [OF this step.hyps(2)] step.IH [OF step.prems] show ?case
    by (auto intro: rtranclp.rtrancl_into_rtrancl)
qed simp

text \<open>A property that the steps of the specification keep holds of every state a run reaches.\<close>

lemma spec_invariant:
  assumes "step\<^sup>*\<^sup>* s s'" "inv s" "P (abs s)" "\<And>a b. spec a b \<Longrightarrow> P a \<Longrightarrow> P b"
  shows "P (abs s')"
  using run_simulates [OF assms(1,2)] assms(3)
  by (induction rule: rtranclp_induct) (auto intro: assms(4))

end

end
