(* ===== verification/Isa_Runs.thy ===== *)
theory Isa_Runs
  imports Isa_Refinement Simulation
begin

text \<open>
  Whole runs: a program whose text has none of the instructions on which the interpreter
  departs from the instruction set computes in the interpreter what the instruction set
  computes, and, when it makes no system call, nothing else.
\<close>

section \<open>Texts on which nothing departs\<close>

definition regular_insn :: "target \<Rightarrow> insn \<Rightarrow> bool" where
  "regular_insn t i \<longleftrightarrow> opcode i \<notin> {0x94, 0x9C, 0xD4, 0xDC, 0x84, 0xC4, 0xCC} \<and>
     (opcode i = 0x87 \<longrightarrow> \<not> overflow_checks t) \<and> (opcode i = 0x18 \<longrightarrow> \<not> bit (imm i) 31)"

definition regular :: "target \<Rightarrow> u64 list \<Rightarrow> bool" where
  "regular t text \<longleftrightarrow> length text \<le> 2 ^ 31 \<and> list_all (\<lambda>w. regular_insn t (decode w)) text"

definition calls_system :: "u64 list \<Rightarrow> bool" where
  "calls_system text \<longleftrightarrow> list_ex (\<lambda>w. opcode (decode w) = 0x8D \<or>
     opcode (decode w) = 0x85 \<and> src (decode w) = 1) text"

lemma regular_follows: "regular t text \<Longrightarrow> pc vm < length text \<Longrightarrow> follows t text vm"
  by (auto simp: regular_def regular_insn_def follows_def right_value_def fetched_def list_all_length)

lemma no_syscall_at: "\<not> calls_system text \<Longrightarrow> pc vm < length text \<Longrightarrow> \<not> syscall_at text vm"
  by (auto simp: calls_system_def syscall_at_def fetched_def list_ex_length)

section \<open>Forwards\<close>

lemma flow_outcome_Some: "flow_outcome text r = Some s \<longleftrightarrow> (\<exists>vm. r = Inr (Next vm) \<and> isa_of text vm = s)"
  by (cases r) (auto simp: flow_outcome_def split: flow.splits)

lemma next_in_text: "isa_next text (isa_of text vm) = Some s \<Longrightarrow> pc vm < length text"
  by (simp add: isa_next_isa_of split: if_splits)

lemma isa_step_vm:
  assumes "vm_ok t vm" "shipped t sys" "regular t text" "isa_step text (isa_of text vm) s"
  obtains vm' where "step t sys text vm = Inr (Next vm')" "isa_of text vm' = s" "vm_ok t vm'"
proof -
  have n: "isa_next text (isa_of text vm) = Some s" using assms(4) by (simp add: isa_step_def)
  have "length text \<le> 2 ^ 31" using assms(3) by (simp add: regular_def)
  with n have "flow_outcome text (step t sys text vm) = Some s"
    using step_agree [OF assms(1,2), of "text" s] regular_follows [OF assms(3) next_in_text [OF n]] by blast
  then obtain vm' where vm': "step t sys text vm = Inr (Next vm')" "isa_of text vm' = s"
    by (auto simp: flow_outcome_Some)
  moreover have "vm_ok t vm'"
    using guest_sys.step_is_safe [OF assms(1), of "text"] stub_sys.step_is_safe [OF assms(1), of "text"]
      assms(2) vm'(1) unfolding shipped_def by auto
  ultimately show thesis by (rule that)
qed

lemma done_exit:
  assumes "isa_done text (isa_of text vm)" "vm_ok t vm"
  shows "step t sys text vm = Inr (Exit (regs vm ! 0) (vm\<lparr>pc := pc vm + 1\<rparr>))"
proof -
  have p: "pc vm < length text" "isa_decode (fetched text vm) = Some Ret" "call_stack vm = []"
    using assms(1) by (auto simp: isa_done_def isa_at_def place_def fetched_def split: if_splits)
  then show ?thesis
    using decode_Ret [OF p(2)] assms(2)
    by (simp add: step_fetched exec_insn_call call_opcodes_def exec_call_def vm_ok_def)
qed

lemma isa_run_vm:
  assumes "(isa_step text)\<^sup>*\<^sup>* a s" "isa_done text s" "a = isa_of text vm" "vm_ok t vm" "shipped t sys" "regular t text"
  shows "\<exists>vm'. run t sys text vm = Some (Inr (rg s ! 0, vm')) \<and> return_data vm' = answer s \<and>
     mem_view (mem vm') = bytes s"
  using assms
proof (induction arbitrary: vm rule: converse_rtranclp_induct)
  case base
  then show ?case
    using done_exit [of "text" vm t sys] by (subst run.simps) simp
next
  case (step a b)
  obtain vm1 where v: "step t sys text vm = Inr (Next vm1)" "isa_of text vm1 = b" "vm_ok t vm1"
    using isa_step_vm [OF step.prems(3-5)] step.hyps(1) step.prems(2) by blast
  obtain vm' where "run t sys text vm1 = Some (Inr (rg s ! 0, vm'))" "return_data vm' = answer s" "mem_view (mem vm') = bytes s"
    using step.IH [OF step.prems(1) v(2) [symmetric] v(3) step.prems(4,5)] by blast
  then show ?case using v(1) by (subst run.simps) simp
qed

text \<open>
  C5: what the instruction set computes, the interpreter computes: if the instruction set
  leads a program of regular instructions from the machine's state to a final return, then
  the run of the interpreter ends, returns the \<open>r0\<close> of that state and leaves its memory
  and its return data.
\<close>

theorem isa_result_is_run_result:
  assumes "vm_ok t vm" "shipped t sys" "regular t text"
    and "(isa_step text)\<^sup>*\<^sup>* (isa_of text vm) s" "isa_done text s"
  shows "\<exists>vm'. run t sys text vm = Some (Inr (rg s ! 0, vm')) \<and> return_data vm' = answer s \<and>
     mem_view (mem vm') = bytes s"
  by (rule isa_run_vm [OF assms(4,5) refl assms(1-3)])

text \<open>The program that loads 5 and returns, on the instruction set.\<close>

lemma regular_demo: "regular host64 demo_text" "\<not> calls_system demo_text"
  by (simp_all add: regular_def regular_insn_def calls_system_def demo_text_def decode_def)

lemma demo_isa_run:
  defines "s \<equiv> isa_of demo_text (demo_vm ((replicate 11 0)[0 := 5])\<lparr>pc := 1\<rparr>)"
  shows "(isa_step demo_text)\<^sup>*\<^sup>* (isa_of demo_text (demo_vm (replicate 11 0))) s" "isa_done demo_text s" "rg s ! 0 = 5"
proof -
  let ?vm = "demo_vm (replicate 11 0)"
  have f: "fetched demo_text ?vm = \<lparr>opcode = 0xB7, dst = 0, src = 0, off = 0, imm = 5\<rparr>"
    by (simp add: fetched_def decode_def demo_text_def demo_vm_def)
  have l: "length demo_text = 2" "demo_text ! 1 = 0x95" "demo_text ! Suc 0 = 0x95" "pc ?vm = 0"
    by (simp_all add: demo_text_def demo_vm_def)
  have "isa_step demo_text (isa_of demo_text ?vm) s"
    unfolding s_def
    by (simp add: isa_step_def isa_next_isa_of f l isa_decode_defs arg_val_def alu_result_def put_def isa_of_eq_iff)
      (simp add: demo_vm_def)
  then show "(isa_step demo_text)\<^sup>*\<^sup>* (isa_of demo_text ?vm) s" by (intro r_into_rtranclp)
  show "isa_done demo_text s" "rg s ! 0 = 5"
    by (simp_all add: s_def isa_done_def isa_at_def place_def l decode_def other_decode demo_vm_def)
qed

theorem isa_result_is_run_result_witness:
  "\<exists>vm'. run host64 (guest_syscalls host64) demo_text (demo_vm (replicate 11 0)) = Some (Inr (5, vm'))"
  using isa_result_is_run_result [OF _ _ regular_demo(1) demo_isa_run(1,2), of "guest_syscalls host64"] demo_isa_run(3)
  by auto

section \<open>Backwards\<close>

definition self_contained :: "target \<Rightarrow> syscalls \<Rightarrow> u64 list \<Rightarrow> vm \<Rightarrow> bool" where
  "self_contained t sys text vm \<longleftrightarrow> vm_ok t vm \<and> shipped t sys \<and> regular t text \<and> \<not> calls_system text"

interpretation isa_sim: simulation "turn t sys text" "isa_step text" "isa_of text" "self_contained t sys text"
  for t sys "text"
proof unfold_locales
  fix vm vm'
  assume s: "self_contained t sys text vm" and n: "turn t sys text vm vm'"
  then have ok: "vm_ok t vm" "shipped t sys" "regular t text" "\<not> calls_system text"
    by (simp_all add: self_contained_def)
  have p: "pc vm < length text" using n by (auto simp: turn_def step_def split: if_splits)
  have "flow_outcome text (step t sys text vm) = isa_next text (isa_of text vm)"
    using step_agree [OF ok(1,2), of "text"] regular_follows [OF ok(3) p] no_syscall_at [OF ok(4) p] ok(3)
    by (auto simp: regular_def)
  then show "(isa_step text)\<^sup>=\<^sup>= (isa_of text vm) (isa_of text vm')"
    using n by (simp add: turn_def isa_step_def)
  have "vm_ok t vm'"
    using guest_sys.step_is_safe [OF ok(1), of "text"] stub_sys.step_is_safe [OF ok(1), of "text"]
      ok(2) n unfolding shipped_def turn_def by auto
  then show "self_contained t sys text vm'" using ok by (simp add: self_contained_def)
qed

lemma run_fuel_turns:
  "run_fuel n t sys text vm = Some (Inr (x, vm')) \<Longrightarrow>
   \<exists>vm0. (turn t sys text)\<^sup>*\<^sup>* vm vm0 \<and> step t sys text vm0 = Inr (Exit x vm')"
proof (induction n arbitrary: vm)
  case (Suc n)
  show ?case
  proof (cases "step t sys text vm")
    case (Inr f)
    then show ?thesis
      using Suc by (cases f) (auto simp: turn_def intro: converse_rtranclp_into_rtranclp)
  qed (use Suc.prems in simp)
qed simp

lemma exit_done:
  assumes "step t sys text vm = Inr (Exit x vm')"
  shows "isa_done text (isa_of text vm)" "x = regs vm ! 0"
  using step_Exit [OF assms] by (auto simp: isa_done_def isa_at_def fetched_def other_decode)

text \<open>
  C6: for a program of regular instructions without system calls the interpreter and the
  instruction set compute the same: a run returns \<open>x\<close> exactly when the instruction set
  reaches a final return with \<open>x\<close> in \<open>r0\<close>.
\<close>

theorem run_iff_isa:
  assumes "vm_ok t vm" "shipped t sys" "regular t text" "\<not> calls_system text"
  shows "(\<exists>vm'. run t sys text vm = Some (Inr (x, vm'))) \<longleftrightarrow>
     (\<exists>s. (isa_step text)\<^sup>*\<^sup>* (isa_of text vm) s \<and> isa_done text s \<and> rg s ! 0 = x)"
proof
  assume "\<exists>vm'. run t sys text vm = Some (Inr (x, vm'))"
  then obtain n vm' where "run_fuel n t sys text vm = Some (Inr (x, vm'))" by (auto simp: run_iff_fuel)
  then obtain vm0 where v: "(turn t sys text)\<^sup>*\<^sup>* vm vm0" "step t sys text vm0 = Inr (Exit x vm')"
    using run_fuel_turns by blast
  have "self_contained t sys text vm" using assms by (simp add: self_contained_def)
  from isa_sim.run_simulates [OF v(1) this] exit_done [OF v(2)]
  show "\<exists>s. (isa_step text)\<^sup>*\<^sup>* (isa_of text vm) s \<and> isa_done text s \<and> rg s ! 0 = x"
    by (intro exI [of _ "isa_of text vm0"]) simp
next
  assume "\<exists>s. (isa_step text)\<^sup>*\<^sup>* (isa_of text vm) s \<and> isa_done text s \<and> rg s ! 0 = x"
  then show "\<exists>vm'. run t sys text vm = Some (Inr (x, vm'))"
    using isa_run_vm [OF _ _ refl assms(1-3)] by blast
qed

theorem run_iff_isa_witness:
  "\<exists>vm'. run host64 (stub_syscalls host64) demo_text (demo_vm (replicate 11 0)) = Some (Inr (5, vm'))"
  using run_iff_isa [OF _ _ regular_demo, of "demo_vm (replicate 11 0)" "stub_syscalls host64" 5] demo_isa_run
  by auto

end
