(* ===== verification/Finite_Machine.thy ===== *)
theory Finite_Machine
  imports Prelude
begin

text \<open>
  Deterministic machines whose states stay in a finite set: a run that goes on for as many
  turns as the set has states goes on for ever, and a run goes on for ever exactly when it
  reaches a state that it reaches again.
\<close>

section \<open>Turns of a machine\<close>

primrec iterate :: "('s \<Rightarrow> 's option) \<Rightarrow> nat \<Rightarrow> 's \<Rightarrow> 's option" where
  "iterate f 0 s = Some s"
| "iterate f (Suc n) s = (case f s of None \<Rightarrow> None | Some s' \<Rightarrow> iterate f n s')"

definition goes_on :: "('s \<Rightarrow> 's option) \<Rightarrow> 's \<Rightarrow> bool" where
  "goes_on f s \<longleftrightarrow> (\<forall>n. iterate f n s \<noteq> None)"

lemma iterate_add: "iterate f (m + n) s = (case iterate f m s of None \<Rightarrow> None | Some s' \<Rightarrow> iterate f n s')"
  by (induction m arbitrary: s) (simp_all split: option.split)

lemma iterate_before:
  assumes "iterate f n s \<noteq> None" "m \<le> n"
  shows "\<exists>x. iterate f m s = Some x"
  using assms iterate_add [of f m "n - m" s] by (auto split: option.splits)

lemma iterate_rtranclp: "iterate f n s = Some s' \<Longrightarrow> (\<lambda>x y. f x = Some y)\<^sup>*\<^sup>* s s'"
  by (induction n arbitrary: s) (auto intro: converse_rtranclp_into_rtranclp split: option.splits)

lemma rtranclp_iterate:
  assumes "(\<lambda>x y. f x = Some y)\<^sup>*\<^sup>* s s'"
  shows "\<exists>n. iterate f n s = Some s'"
  using assms
proof (induction rule: converse_rtranclp_induct)
  case base
  then show ?case by (intro exI [of _ 0]) simp
next
  case (step a b)
  then obtain n where "iterate f n b = Some s'" by blast
  then show ?case using step.hyps(1) by (intro exI [of _ "Suc n"]) simp
qed

lemma iterate_tranclp:
  "(\<exists>n. iterate f (Suc n) s = Some s') \<longleftrightarrow> (\<lambda>x y. f x = Some y)\<^sup>+\<^sup>+ s s'"
proof
  assume "\<exists>n. iterate f (Suc n) s = Some s'"
  then obtain n t where "f s = Some t" "iterate f n t = Some s'" by (auto split: option.splits)
  then show "(\<lambda>x y. f x = Some y)\<^sup>+\<^sup>+ s s'" by (intro rtranclp_into_tranclp2 iterate_rtranclp)
next
  assume "(\<lambda>x y. f x = Some y)\<^sup>+\<^sup>+ s s'"
  then obtain t where "f s = Some t" "(\<lambda>x y. f x = Some y)\<^sup>*\<^sup>* t s'" by (auto dest: tranclpD)
  then show "\<exists>n. iterate f (Suc n) s = Some s'" using rtranclp_iterate [of f t s'] by auto
qed

text \<open>A state that is reached again is reached again and again.\<close>

lemma revisit_goes_on:
  assumes "iterate f (Suc p) x = Some x"
  shows "goes_on f x"
proof -
  have many: "iterate f (k * Suc p) x = Some x" for k
  proof (induction k)
    case (Suc k)
    then show ?case unfolding mult_Suc by (simp only: iterate_add assms option.case)
  qed simp
  have "n \<le> n * Suc p" for n by simp
  then show ?thesis using iterate_before many unfolding goes_on_def by (metis option.distinct(1))
qed

lemma reach_goes_on:
  assumes "iterate f i s = Some x" "goes_on f x"
  shows "goes_on f s"
  unfolding goes_on_def
proof
  fix n
  obtain y where "iterate f n x = Some y" using assms(2) by (auto simp: goes_on_def)
  then have "iterate f (i + n) s \<noteq> None" using assms(1) by (simp add: iterate_add)
  then show "iterate f n s \<noteq> None" using iterate_before [of f "i + n" s n] by auto
qed

section \<open>Finitely many states\<close>

locale finite_machine =
  fixes next_state :: "'s \<Rightarrow> 's option" and states :: "'s set"
  assumes finite_states: "finite states"
    and next_in: "s \<in> states \<Longrightarrow> next_state s = Some s' \<Longrightarrow> s' \<in> states"
begin

lemma iterate_in: "s \<in> states \<Longrightarrow> iterate next_state n s = Some s' \<Longrightarrow> s' \<in> states"
  by (induction n arbitrary: s) (auto dest: next_in split: option.splits)

lemma long_run_revisits:
  assumes "s \<in> states" "iterate next_state (card states) s \<noteq> None"
  shows "\<exists>i p x. iterate next_state i s = Some x \<and> iterate next_state (Suc p) x = Some x"
proof -
  let ?at = "\<lambda>n. the (iterate next_state n s)"
  have at: "iterate next_state n s = Some (?at n)" if "n \<le> card states" for n
    using iterate_before [OF assms(2) that] by auto
  have "?at ` {..card states} \<subseteq> states"
  proof
    fix x
    assume "x \<in> ?at ` {..card states}"
    then obtain n where "n \<le> card states" "x = ?at n" by auto
    then show "x \<in> states" using iterate_in [OF assms(1) at] by simp
  qed
  then have "card (?at ` {..card states}) \<le> card states" by (intro card_mono finite_states)
  then have "\<not> inj_on ?at {..card states}" by (intro pigeonhole) simp
  then obtain i j where "i \<le> card states" "j \<le> card states" "i < j" "?at i = ?at j"
    unfolding inj_on_def by (metis atMost_iff linorder_less_linear)
  then obtain x where s: "iterate next_state i s = Some x" "iterate next_state (i + Suc (j - i - 1)) s = Some x"
    using at [of i] at [of j] by simp
  have "iterate next_state (Suc (j - i - 1)) x = Some x"
    using s(2) unfolding iterate_add s(1) option.case .
  with s(1) show ?thesis by blast
qed

lemma goes_on_iff_long:
  assumes "s \<in> states" "card states \<le> n"
  shows "goes_on next_state s \<longleftrightarrow> iterate next_state n s \<noteq> None"
proof
  assume "iterate next_state n s \<noteq> None"
  then have "iterate next_state (card states) s \<noteq> None" using iterate_before assms(2) by fastforce
  then show "goes_on next_state s"
    using long_run_revisits [OF assms(1)] revisit_goes_on reach_goes_on by metis
qed (simp add: goes_on_def)

lemma goes_on_iff_revisits:
  assumes "s \<in> states"
  shows "goes_on next_state s \<longleftrightarrow>
     (\<exists>x. (\<lambda>a b. next_state a = Some b)\<^sup>*\<^sup>* s x \<and> (\<lambda>a b. next_state a = Some b)\<^sup>+\<^sup>+ x x)"
proof
  assume "goes_on next_state s"
  then obtain i p x where "iterate next_state i s = Some x" "iterate next_state (Suc p) x = Some x"
    using long_run_revisits [OF assms] by (auto simp: goes_on_def)
  then show "\<exists>x. (\<lambda>a b. next_state a = Some b)\<^sup>*\<^sup>* s x \<and> (\<lambda>a b. next_state a = Some b)\<^sup>+\<^sup>+ x x"
    using iterate_rtranclp iterate_tranclp by fast
next
  assume "\<exists>x. (\<lambda>a b. next_state a = Some b)\<^sup>*\<^sup>* s x \<and> (\<lambda>a b. next_state a = Some b)\<^sup>+\<^sup>+ x x"
  then obtain x i p where "iterate next_state i s = Some x" "iterate next_state (Suc p) x = Some x"
    using rtranclp_iterate iterate_tranclp by metis
  then show "goes_on next_state s" using revisit_goes_on reach_goes_on by metis
qed

end

end
