(* ===== verification/Sbpf_Hang.thy ===== *)
theory Sbpf_Hang
  imports Isa_Runs Finite_Machine
begin

text \<open>
  Runs that do not end. The loop of the interpreter has no instruction budget, but its
  machine has finitely many states: eleven registers, a program counter of the width of the
  address space, a bounded call stack, two regions of fixed length and return data that fit
  the address space. So a run never ends exactly when it comes back to a state it was in,
  and whether it ends is settled after as many turns as there are states, which are counted
  from the length of the text, the memory sizes, the width of the address space and the bound
  of the call stack.
\<close>

named_theorems roam_intros \<open>a group of arms keeps the program counter in bounds\<close>

section \<open>Where an arm may take the program counter\<close>

definition roams :: "nat \<Rightarrow> vm \<Rightarrow> (sbpf_error, vm) res \<Rightarrow> bool" where
  "roams B vm r \<longleftrightarrow> (\<forall>vm'. r = Inr vm' \<longrightarrow> pc vm' \<le> B \<and> return_data vm' = return_data vm)"

definition arms_roam :: "nat \<Rightarrow> vm \<Rightarrow> arm \<Rightarrow> bool" where
  "arms_roam B vm a \<longleftrightarrow> (\<forall>r. a = Some r \<longrightarrow> roams B vm r)"

lemma roams_simps [simp]:
  "roams B vm (Inl e)"
  "roams B vm (Inr vm') \<longleftrightarrow> pc vm' \<le> B \<and> return_data vm' = return_data vm"
  by (auto simp: roams_def)

lemma roams_bind [roam_intros]: "(\<And>a. roams B vm (f a)) \<Longrightarrow> roams B vm (bind_res r f)"
  by (cases r) simp_all

lemma roams_set_reg [roam_intros]:
  "pc vm' \<le> B \<Longrightarrow> return_data vm' = return_data vm \<Longrightarrow> roams B vm (set_reg vm' k v)"
  by (simp add: set_reg_def)

lemma roams_with [roam_intros]:
  "(\<And>s. roams B vm (f s)) \<Longrightarrow> roams B vm (with_src i vm' f)"
  "(\<And>s. roams B vm (f s)) \<Longrightarrow> roams B vm (with_dst i vm' f)"
  by (auto simp: with_src_def with_dst_def intro!: roams_bind)

lemma roams_upd [roam_intros]: "pc vm \<le> B \<Longrightarrow> roams B vm (upd64 f i vm)" "pc vm \<le> B \<Longrightarrow> roams B vm (upd32 g i vm)"
  by (auto simp: upd64_def upd32_def intro!: roam_intros)

lemma roams_load_store [roam_intros]:
  "pc vm \<le> B \<Longrightarrow> roams B vm (load_with rd n i vm)" "pc vm \<le> B \<Longrightarrow> roams B vm (store_with wr n i vm val)"
  by (auto simp: load_with_def store_with_def Let_def intro!: roam_intros)

lemma pc_rel_less: "pc_rel t p k < 2 ^ usize_bits t"
  by (simp add: pc_rel_def nat_less_iff)

lemma roams_jump [roam_intros]:
  assumes "pc vm \<le> B" "2 ^ usize_bits t \<le> B"
  shows "roams B vm (jump_if t c i vm)" "roams B vm (jump_imm t p i vm)" "roams B vm (jump_reg t q i vm)"
  using assms less_imp_le [OF less_le_trans [OF pc_rel_less assms(2)]]
  by (auto simp: jump_imm_def jump_reg_def jump_if_def intro!: roam_intros)

lemma straight_arms_roam:
  assumes "pc vm \<le> B" "length text \<le> B" "2 ^ usize_bits t \<le> B"
  shows "list_all (arms_roam B vm) [exec_mov i vm, exec_lddw text i vm, exec_add i vm, exec_sub i vm,
     exec_mul i vm, exec_div i vm, exec_mod i vm, exec_neg t i vm, exec_or i vm, exec_and i vm,
     exec_xor i vm, exec_lsh i vm, exec_rsh i vm, exec_arsh i vm, exec_load t i vm,
     exec_store_reg t i vm, exec_store_imm t i vm, exec_jump t i vm, exec_jump_signed t i vm]"
  unfolding arms_roam_def exec_mov_def exec_lddw_def exec_add_def exec_sub_def exec_mul_def
    exec_div_def exec_mod_def exec_neg_def exec_or_def exec_and_def exec_xor_def
    exec_lsh_def exec_rsh_def exec_arsh_def exec_load_def exec_store_reg_def exec_store_imm_def
    exec_jump_def exec_jump_signed_def Let_def list.pred_inject
  by (intro conjI TrueI; use assms in \<open>auto intro!: roam_intros split: if_splits\<close>)

lemma first_some_roams: "list_all (arms_roam B vm) xs \<Longrightarrow> arms_roam B vm (first_some xs)"
  by (induction xs rule: first_some.induct) (auto simp: arms_roam_def)

lemma exec_straight_roams:
  assumes "pc vm \<le> B" "length text \<le> B" "2 ^ usize_bits t \<le> B"
  shows "arms_roam B vm (exec_straight t text i vm)"
  unfolding exec_straight_def by (rule first_some_roams, rule straight_arms_roam [OF assms])

lemma length_fetch_bytes: "fetch_bytes rd t m s k i = Inr bs \<Longrightarrow> length bs = k"
  by (induction k arbitrary: i bs) (auto simp: bind_res_Inr_iff)

text \<open>A system call leaves the program counter and sets return data of a length that fits.\<close>

lemma dispatch_confined:
  assumes "dispatch_syscall t sys hash vm = Inr vm'"
  shows "pc vm' = pc vm \<and> (return_data vm' = return_data vm \<or> length (return_data vm') < 2 ^ usize_bits t)"
proof -
  have p: "n < 2 ^ usize_bits t" if "with_capacity t n = (Inr u :: (sbpf_error, unit) res)" for n u
  proof -
    have "n < 2 ^ (usize_bits t - 1)" using that by (simp add: with_capacity_def split: if_splits)
    also have "(2::nat) ^ (usize_bits t - 1) \<le> 2 ^ usize_bits t" by (intro power_increasing) simp_all
    finally show ?thesis .
  qed
  show ?thesis
    using assms unfolding dispatch_syscall_def Let_def
    by (auto simp: bind_res_Inr_iff set_reg_def dest!: length_fetch_bytes p split: if_splits)
qed

section \<open>Finitely many machines\<close>

text \<open>The machines over memories of one shape, with counters and return data up to \<open>B\<close>.\<close>

definition machines :: "nat \<Rightarrow> memory \<Rightarrow> vm set" where
  "machines B m0 = {vm. length (regs vm) = 11 \<and> pc vm \<le> B \<and> length (call_stack vm) \<le> MAX_CALL_DEPTH \<and>
     (\<forall>f \<in> set (call_stack vm). fst f \<le> B \<and> length (snd f) = 11) \<and> same_shape m0 (mem vm) \<and>
     length (return_data vm) \<le> B}"

lemma finite_words: "finite {xs :: 'a::len word list. length xs = n}" "finite {xs :: 'a word list. length xs \<le> n}"
  using finite_lists_length_eq [of "UNIV :: 'a word set" n] finite_lists_length_le [of "UNIV :: 'a word set" n] by simp_all

lemma finite_memories: "finite {m. same_shape m0 m}"
proof (rule finite_subset)
  let ?mk = "\<lambda>(h, s). \<lparr>heap = h, stack = s, stack_base = stack_base m0, heap_base = heap_base m0\<rparr>"
  show "{m. same_shape m0 m} \<subseteq> ?mk ` ({h. length h = length (heap m0)} \<times> {s. length s = length (stack m0)})"
  proof
    fix m
    assume "m \<in> {m. same_shape m0 m}"
    then have "m = ?mk (heap m, stack m)" "length (heap m) = length (heap m0)" "length (stack m) = length (stack m0)"
      by (simp_all add: same_shape_def)
    then show "m \<in> ?mk ` ({h. length h = length (heap m0)} \<times> {s. length s = length (stack m0)})"
      by (intro image_eqI [of _ _ "(heap m, stack m)"]) simp_all
  qed
  show "finite (?mk ` ({h. length h = length (heap m0)} \<times> {s. length s = length (stack m0)}))"
    by (intro finite_imageI finite_cartesian_product finite_words)
qed

lemma finite_machines: "finite (machines B m0)"
proof (rule finite_subset)
  let ?mk = "\<lambda>(r, p, c, m, d). \<lparr>regs = r, pc = p, call_stack = c, mem = m, return_data = d\<rparr>"
  let ?frames = "{..B} \<times> {r :: u64 list. length r = 11}"
  let ?parts = "{r. length r = 11} \<times> {..B} \<times> {c. set c \<subseteq> ?frames \<and> length c \<le> MAX_CALL_DEPTH} \<times>
      {m. same_shape m0 m} \<times> {d. length d \<le> B}"
  show "machines B m0 \<subseteq> ?mk ` ?parts"
  proof
    fix vm
    assume "vm \<in> machines B m0"
    then have "(regs vm, pc vm, call_stack vm, mem vm, return_data vm) \<in> ?parts"
      by (force simp: machines_def)
    moreover have "vm = ?mk (regs vm, pc vm, call_stack vm, mem vm, return_data vm)" by simp
    ultimately show "vm \<in> ?mk ` ?parts" by (intro image_eqI)
  qed
  show "finite (?mk ` ?parts)"
    by (intro finite_imageI finite_cartesian_product finite_lists_length_le finite_words finite_memories) simp_all
qed

section \<open>How many machines\<close>

text \<open>
  The number of these machines is at most the product over the fields: the registers, the
  program counter, a call stack of at most \<open>MAX_CALL_DEPTH\<close> frames, the two regions and the
  return data.
\<close>

definition machine_count :: "nat \<Rightarrow> nat \<Rightarrow> nat \<Rightarrow> nat" where
  "machine_count B h s =
     (2 ^ 64) ^ 11 * ((B + 1) * ((\<Sum>k\<le>MAX_CALL_DEPTH. ((B + 1) * (2 ^ 64) ^ 11) ^ k) *
       (256 ^ h * 256 ^ s * (\<Sum>k\<le>B. 256 ^ k))))"

lemma card_words:
  "card {xs :: 'a::len word list. length xs = n} = (2 ^ LENGTH('a)) ^ n"
  "card {xs :: 'a word list. length xs \<le> n} = (\<Sum>k\<le>n. (2 ^ LENGTH('a)) ^ k)"
  using card_lists_length_eq [of "UNIV :: 'a word set" n] card_lists_length_le [of "UNIV :: 'a word set" n]
  by (simp_all add: card_word)

lemma card_memories: "card {m. same_shape m0 m} \<le> 256 ^ length (heap m0) * 256 ^ length (stack m0)"
proof -
  let ?of = "\<lambda>m. (heap m, stack m)"
  let ?bytes = "{h :: u8 list. length h = length (heap m0)} \<times> {s :: u8 list. length s = length (stack m0)}"
  have "card {m. same_shape m0 m} \<le> card ?bytes"
  proof (rule card_inj_on_le)
    show "inj_on ?of {m. same_shape m0 m}"
      by (rule inj_onI) (auto simp: same_shape_def intro: memory.equality)
    show "?of ` {m. same_shape m0 m} \<subseteq> ?bytes" by (auto simp: same_shape_def)
    show "finite ?bytes" by (intro finite_cartesian_product finite_words)
  qed
  then show ?thesis by (simp add: card_cartesian_product card_words)
qed

lemma card_machines: "card (machines B m0) \<le> machine_count B (length (heap m0)) (length (stack m0))"
proof -
  let ?of = "\<lambda>vm. (regs vm, pc vm, call_stack vm, mem vm, return_data vm)"
  let ?regs = "{r :: u64 list. length r = 11}" and ?memories = "{m. same_shape m0 m}"
  let ?calls = "{c. set c \<subseteq> {..B} \<times> ?regs \<and> length c \<le> MAX_CALL_DEPTH}" and ?data = "{d :: u8 list. length d \<le> B}"
  have "card (machines B m0) \<le> card (?regs \<times> {..B} \<times> ?calls \<times> ?memories \<times> ?data)"
  proof (rule card_inj_on_le)
    show "inj_on ?of (machines B m0)" by (rule inj_onI) (auto intro: vm.equality)
    show "?of ` machines B m0 \<subseteq> ?regs \<times> {..B} \<times> ?calls \<times> ?memories \<times> ?data"
      by (force simp: machines_def)
    show "finite (?regs \<times> {..B} \<times> ?calls \<times> ?memories \<times> ?data)"
      by (intro finite_cartesian_product finite_lists_length_le finite_words finite_memories) simp_all
  qed
  also have "\<dots> = card ?regs * ((B + 1) * (card ?calls * (card ?memories * card ?data)))"
    by (simp add: card_cartesian_product)
  also have "card ?calls = (\<Sum>k\<le>MAX_CALL_DEPTH. ((B + 1) * (2 ^ 64) ^ 11) ^ k)"
    by (subst card_lists_length_le) (simp_all add: finite_words card_cartesian_product card_words)
  finally have "card (machines B m0) \<le> (2 ^ 64) ^ 11 * ((B + 1) * ((\<Sum>k\<le>MAX_CALL_DEPTH. ((B + 1) * (2 ^ 64) ^ 11) ^ k) *
      (card ?memories * (\<Sum>k\<le>B. 256 ^ k))))" by (simp add: card_words)
  also have "\<dots> \<le> machine_count B (length (heap m0)) (length (stack m0))"
    unfolding machine_count_def by (intro mult_left_mono mult_right_mono card_memories) simp_all
  finally show ?thesis .
qed

section \<open>The machine of the interpreter\<close>

definition next_vm :: "target \<Rightarrow> syscalls \<Rightarrow> u64 list \<Rightarrow> vm \<Rightarrow> vm option" where
  "next_vm t sys text vm = (case step t sys text vm of Inr (Next vm') \<Rightarrow> Some vm' | _ \<Rightarrow> None)"

lemma next_vm_turn: "(\<lambda>a b. next_vm t sys text a = Some b) = turn t sys text"
  by (auto simp: next_vm_def turn_def fun_eq_iff split: sum.splits flow.splits)

lemma run_fuel_None: "run_fuel n t sys text vm = None \<longleftrightarrow> iterate (next_vm t sys text) n vm \<noteq> None"
  by (induction n arbitrary: vm) (auto simp: next_vm_def split: sum.split flow.split)

lemma run_None: "run t sys text vm = None \<longleftrightarrow> goes_on (next_vm t sys text) vm"
proof -
  have "run t sys text vm = None \<longleftrightarrow> (\<forall>n. run_fuel n t sys text vm = None)"
    using run_iff_fuel [of t sys "text" vm] by (metis not_Some_eq)
  then show ?thesis by (simp only: goes_on_def run_fuel_None)
qed

text \<open>A bound above the text, the address space and the return data of the start.\<close>

definition enough :: "target \<Rightarrow> u64 list \<Rightarrow> nat \<Rightarrow> nat" where
  "enough t text d = 2 ^ usize_bits t + length text + d"

definition confined :: "target \<Rightarrow> u64 list \<Rightarrow> nat \<Rightarrow> memory \<Rightarrow> vm set" where
  "confined t text d m0 = {vm \<in> machines (enough t text d) m0. mem_ok t (mem vm)}"

lemma confined_vm_ok: "vm \<in> confined t text d m0 \<Longrightarrow> vm_ok t vm"
  by (auto simp: confined_def machines_def vm_ok_def list_all_iff)

lemma shipped_dispatch_frame:
  assumes "shipped t sys" "mem_ok t (mem vm)" "dispatch_syscall t sys h vm = Inr vm'"
  shows "frame vm vm'"
  using guest_sys.dispatch_syscall_safe [OF assms(2), of h] stub_sys.dispatch_syscall_safe [OF assms(2), of h] assms(1,3)
  unfolding shipped_def by (auto simp: arm_safe_def)

lemma confined_frame:
  assumes "vm \<in> confined t text d m0" "frame vm vm'" "pc vm' \<le> enough t text d"
    and "length (return_data vm') \<le> enough t text d"
  shows "vm' \<in> confined t text d m0"
  using assms by (auto simp: confined_def machines_def frame_def intro: same_shape_trans mem_ok_same_shape)

lemma call_confined:
  assumes sh: "shipped t sys" and c: "vm \<in> confined t text d m0"
    and x: "exec_call t sys i vm = Some (Inr (Next vm'))"
  shows "vm' \<in> confined t text d m0"
proof -
  have B: "2 ^ usize_bits t \<le> enough t text d" by (simp add: enough_def)
  have ok: "mem_ok t (mem vm)" "length (return_data vm) \<le> enough t text d" "pc vm \<le> enough t text d"
    using c by (simp_all add: confined_def machines_def)
  have sys_call: "vm' \<in> confined t text d m0" if "dispatch_syscall t sys (imm i) vm = Inr vm'"
    using shipped_dispatch_frame [OF sh ok(1) that] dispatch_confined [OF that] ok B
    by (intro confined_frame [OF c]) auto
  have "pc_rel t (pc vm) k \<le> enough t text d" for k using pc_rel_less [of t "pc vm" k] B by linarith
  then show ?thesis
    using x sys_call c unfolding exec_call_def
    by (auto simp: bind_res_Inr_iff get_reg_Inr_iff set_reg_def confined_def machines_def
        split: if_splits list.splits) fastforce+
qed

lemma next_confined:
  assumes sh: "shipped t sys" and c: "vm \<in> confined t text d m0" and n: "next_vm t sys text vm = Some vm'"
  shows "vm' \<in> confined t text d m0"
proof -
  let ?i = "fetched text vm" and ?vm = "vm\<lparr>pc := pc vm + 1\<rparr>" and ?B = "enough t text d"
  have s: "step t sys text vm = Inr (Next vm')" using n by (auto simp: next_vm_def split: sum.splits flow.splits)
  then have l: "pc vm < length text" by (auto simp: step_def split: if_splits)
  with s have x: "exec_insn t sys text ?i ?vm = Inr (Next vm')" by (simp add: step_fetched)
  have B: "pc ?vm \<le> ?B" "length text \<le> ?B" "2 ^ usize_bits t \<le> ?B" using l by (simp_all add: enough_def)
  have cv: "?vm \<in> confined t text d m0"
    using c B(1) by (intro confined_frame [OF c]) (simp_all add: frame_def confined_def machines_def)
  then have ok: "mem_ok t (mem ?vm)" "length (return_data ?vm) \<le> ?B" by (simp_all add: confined_def machines_def)
  show ?thesis
  proof (cases "exec_straight t text ?i ?vm")
    case (Some r)
    then have "r = Inr vm'" using x by (auto simp: exec_insn_def bind_res_Inr_iff)
    then have "frame ?vm vm'" "pc vm' \<le> ?B" "return_data vm' = return_data ?vm"
      using exec_straight_safe [OF ok(1), of "text" ?i] exec_straight_roams [OF B, of ?i] Some
      by (simp_all add: arms_safe_def arms_roam_def)
    then show ?thesis using ok(2) by (intro confined_frame [OF cv]) simp_all
  next
    case None
    then have "exec_call t sys ?i ?vm = Some (Inr (Next vm'))" using x by (auto simp: exec_insn_def split: option.splits)
    from call_confined [OF sh cv this] show ?thesis .
  qed
qed

interpretation vm_machine: finite_machine "next_vm t sys text"
  "if shipped t sys then confined t text d m0 else {}" for t sys "text" d m0
proof unfold_locales
  have "finite (confined t text d m0)" unfolding confined_def by (simp add: finite_machines)
  then show "finite (if shipped t sys then confined t text d m0 else {})" by simp
next
  fix vm vm'
  assume "vm \<in> (if shipped t sys then confined t text d m0 else {})" "next_vm t sys text vm = Some vm'"
  then show "vm' \<in> (if shipped t sys then confined t text d m0 else {})"
    using next_confined [of t sys vm "text" d m0 vm'] by (simp split: if_splits)
qed

lemma confined_start:
  assumes "vm_ok t vm" "same_shape m0 (mem vm)"
    and "pc vm + sum_list (map fst (call_stack vm)) + length (return_data vm) \<le> d"
  shows "vm \<in> confined t text d m0"
proof -
  have "fst f \<le> d" if "f \<in> set (call_stack vm)" for f
    using member_le_sum_list [of "fst f" "map fst (call_stack vm)"] that assms(3) by simp
  then show ?thesis using assms by (auto simp: confined_def machines_def vm_ok_def enough_def list_all_iff trans_le_add2)
qed

text \<open>
  C8: runs that do not end: a run never returns exactly when it reaches a machine that it
  comes back to after one or more turns.
\<close>

theorem run_hangs_iff_revisits:
  assumes "vm_ok t vm" "shipped t sys"
  shows "run t sys text vm = None \<longleftrightarrow>
     (\<exists>vm'. (turn t sys text)\<^sup>*\<^sup>* vm vm' \<and> (turn t sys text)\<^sup>+\<^sup>+ vm' vm')"
proof -
  let ?d = "pc vm + sum_list (map fst (call_stack vm)) + length (return_data vm)"
  have "vm \<in> confined t text ?d (mem vm)" by (rule confined_start [OF assms(1)]) simp_all
  then show ?thesis
    using vm_machine.goes_on_iff_revisits [of vm t sys "text" ?d "mem vm"] assms(2)
    by (simp add: run_None next_vm_turn)
qed

theorem run_hangs_iff_revisits_witness:
  "run host64 (guest_syscalls host64) [0xFFFF0005] (demo_vm (replicate 11 0)) = None"
proof -
  let ?vm = "demo_vm (replicate 11 0)" and ?turn = "turn host64 (guest_syscalls host64) [0xFFFF0005]"
  have "?turn ?vm ?vm"
    by (simp add: turn_def step_fetched exec_insn_straight straight_opcodes_def exec_straight_def
        arm_defs jump_if_def pc_rel_def fetched_def decode_def demo_vm_def host64_def)
  then show ?thesis
    using run_hangs_iff_revisits [of host64 ?vm "guest_syscalls host64" "[0xFFFF0005]"] by auto
qed

lemma Vm_new_start:
  assumes "Vm_new t m = Inr vm" "mem_ok t m"
  shows "vm_ok t vm" "mem vm = m" "pc vm = 0" "call_stack vm = []" "return_data vm = []"
  using assms by (auto simp: Vm_new_def bind_res_Inr_iff vm_ok_def)

text \<open>
  The number of turns after which a run from a fresh machine over this memory is settled.
\<close>

definition turns_enough :: "target \<Rightarrow> u64 list \<Rightarrow> memory \<Rightarrow> nat" where
  "turns_enough t text m =
     machine_count (2 ^ usize_bits t + length text) (length (heap m)) (length (stack m))"

lemma card_confined: "card (if shipped t sys then confined t text 0 m else {}) \<le> turns_enough t text m"
proof -
  have "card (confined t text 0 m) \<le> card (machines (enough t text 0) m)"
    unfolding confined_def by (intro card_mono finite_machines) blast
  also have "\<dots> \<le> turns_enough t text m"
    using card_machines [of "enough t text 0" m] by (simp add: turns_enough_def enough_def)
  finally show ?thesis by simp
qed

text \<open>
  C9: whether a run ends is settled after a number of turns given by a formula: with \<open>B\<close> the size
  of the address space and the length of the text together, as many turns as there are choices
  of eleven registers, a program counter up to \<open>B\<close>, a call stack of at most 64 frames, the bytes
  of the heap and the stack, and return data up to \<open>B\<close> bytes. A run from a fresh machine that
  has not ended by then never ends, whichever of the two implementations serves the system
  calls.
\<close>

theorem fresh_runs_settled:
  assumes "mem_ok t m" "shipped t sys" "Vm_new t m = Inr vm"
  shows "run t sys text vm = run_fuel (turns_enough t text m) t sys text vm"
proof -
  note start = Vm_new_start [OF assms(3,1)]
  have "vm \<in> confined t text 0 m" by (rule confined_start) (simp_all add: start)
  then have "run t sys text vm = None \<longleftrightarrow> run_fuel (turns_enough t text m) t sys text vm = None"
    using vm_machine.goes_on_iff_long [of vm t sys "text" 0 m, OF _ card_confined] assms(2)
    by (simp add: run_None run_fuel_None)
  then show ?thesis
    using run_fuel_run [of "turns_enough t text m" t sys "text" vm]
    by (cases "run_fuel (turns_enough t text m) t sys text vm") auto
qed

theorem fresh_runs_settled_witness:
  "\<exists>vm. Vm_new host64 (Memory_new 16 16) = Inr vm \<and> run host64 (stub_syscalls host64) [0xFFFF0005] vm =
     run_fuel (turns_enough host64 [0xFFFF0005] (Memory_new 16 16)) host64 (stub_syscalls host64) [0xFFFF0005] vm"
proof -
  obtain vm where vm: "Vm_new host64 (Memory_new 16 16) = Inr vm"
    by (simp add: Vm_new_def add_u64_def host64_def)
  have "mem_ok host64 (Memory_new 16 16)" by (simp add: mem_ok_new)
  from fresh_runs_settled [OF this _ vm, of "stub_syscalls host64"] vm show ?thesis
    by (auto simp: shipped_def)
qed

end
