(* ===== verification/Elf_Loader.thy ===== *)
theory Elf_Loader
  imports Prelude
begin

text \<open>
  The loader of the program text (\<open>load_text\<close>, the same function in
  \<open>m6-interpreter/conformance/src/main.rs\<close> and \<open>m6-interpreter/prover/src/main.rs\<close>): it
  finds the section named \<open>.text\<close> in the section table of an ELF file and splits it into
  instruction words. Malformed files make it panic; the theorem says what it returns on
  files whose section table is in range.
\<close>

section \<open>The code\<close>

text \<open>\<open>uN::from_le_bytes(elf[a+lo..a+hi].try_into().unwrap())\<close>\<close>

definition le_field :: "target \<Rightarrow> u8 list \<Rightarrow> nat \<Rightarrow> nat \<Rightarrow> nat \<Rightarrow> ('e, 'a::len word) res" where
  "le_field t elf a lo hi =
     bind_res (usize_add t a lo) (\<lambda>from.
     bind_res (usize_add t a hi) (\<lambda>upto.
     bind_res (slice elf from upto) (\<lambda>bs. Inr (from_le bs))))"

fun chunks_exact8 :: "u8 list \<Rightarrow> u8 list list" where
  "chunks_exact8 (a # b # c # d # e # f # g # h # bs) = [a, b, c, d, e, f, g, h] # chunks_exact8 bs"
| "chunks_exact8 _ = []"

text \<open>\<open>iter().position(p)\<close>\<close>

primrec position :: "('a \<Rightarrow> bool) \<Rightarrow> 'a list \<Rightarrow> nat option" where
  "position p [] = None"
| "position p (x # xs) = (if p x then Some 0 else map_option Suc (position p xs))"

definition dot_text :: "u8 list" where
  "dot_text = [0x2E, 0x74, 0x65, 0x78, 0x74]"

definition section_words :: "target \<Rightarrow> u8 list \<Rightarrow> nat \<Rightarrow> ('e, u64 list) res" where
  "section_words t elf sh =
     bind_res (le_field t elf sh 24 32) (\<lambda>off64. let off = as_usize t (off64 :: u64) in
     bind_res (le_field t elf sh 32 40) (\<lambda>size64. let sz = as_usize t (size64 :: u64) in
     bind_res (usize_add t off sz) (\<lambda>upto.
     bind_res (slice elf off upto) (\<lambda>bs. Inr (map from_le (chunks_exact8 bs))))))"

text \<open>The loop over the section headers, \<open>k\<close> of which are left from index \<open>i\<close> on.\<close>

primrec load_text_from ::
  "target \<Rightarrow> u8 list \<Rightarrow> nat \<Rightarrow> nat \<Rightarrow> nat \<Rightarrow> nat \<Rightarrow> nat \<Rightarrow> ('e, u64 list) res"
where
  "load_text_from t elf shoff shentsize shstr_off 0 i = Inl Panic"
| "load_text_from t elf shoff shentsize shstr_off (Suc k) i =
     bind_res (usize_mul t i shentsize) (\<lambda>ofs.
     bind_res (usize_add t shoff ofs) (\<lambda>sh.
     bind_res (le_field t elf sh 0 4) (\<lambda>name_off.
     bind_res (usize_add t shstr_off (as_usize t (name_off :: u32))) (\<lambda>ns.
     if length elf < ns then Inl Panic
     else bind_res (case position (\<lambda>b. b = 0) (drop ns elf) of
              None \<Rightarrow> Inr ns | Some p \<Rightarrow> usize_add t ns p) (\<lambda>ne.
          bind_res (slice elf ns ne) (\<lambda>name.
          if name = dot_text then section_words t elf sh
          else load_text_from t elf shoff shentsize shstr_off k (Suc i)))))))"

definition load_text :: "target \<Rightarrow> u8 list \<Rightarrow> ('e, u64 list) res" where
  "load_text t elf =
     bind_res (le_field t elf 0 40 48) (\<lambda>shoff64. let e_shoff = as_usize t (shoff64 :: u64) in
     bind_res (le_field t elf 0 58 60) (\<lambda>entsize. let e_shentsize = as_usize t (entsize :: u16) in
     bind_res (le_field t elf 0 60 62) (\<lambda>num. let e_shnum = as_usize t (num :: u16) in
     bind_res (le_field t elf 0 62 64) (\<lambda>ndx. let e_shstrndx = as_usize t (ndx :: u16) in
     bind_res (usize_mul t e_shstrndx e_shentsize) (\<lambda>ofs.
     bind_res (usize_add t e_shoff ofs) (\<lambda>shstr_sh.
     bind_res (le_field t elf shstr_sh 24 32) (\<lambda>str64. let shstr_off = as_usize t (str64 :: u64) in
       load_text_from t elf e_shoff e_shentsize shstr_off e_shnum 0)))))))"

section \<open>What an ELF file says\<close>

definition field :: "u8 list \<Rightarrow> nat \<Rightarrow> nat \<Rightarrow> nat" where
  "field elf a n = unat (from_le (take n (drop a elf)) :: u64)"

definition shdr :: "u8 list \<Rightarrow> nat \<Rightarrow> nat" where
  "shdr elf i = field elf 40 8 + i * field elf 58 2"

definition shnum :: "u8 list \<Rightarrow> nat" where
  "shnum elf = field elf 60 2"

definition name_start :: "u8 list \<Rightarrow> nat \<Rightarrow> nat" where
  "name_start elf i = field elf (shdr elf (field elf 62 2) + 24) 8 + field elf (shdr elf i) 4"

text \<open>A name runs to the next zero byte; a name that no zero byte ends counts as empty.\<close>

definition section_name :: "u8 list \<Rightarrow> nat \<Rightarrow> u8 list" where
  "section_name elf i =
     (let bs = drop (name_start elf i) elf
      in if 0 \<in> set bs then takeWhile (\<lambda>b. b \<noteq> 0) bs else [])"

definition section_bytes :: "u8 list \<Rightarrow> nat \<Rightarrow> u8 list" where
  "section_bytes elf i = take (field elf (shdr elf i + 32) 8) (drop (field elf (shdr elf i + 24) 8) elf)"

definition elf_ok :: "target \<Rightarrow> u8 list \<Rightarrow> bool" where
  "elf_ok t elf \<longleftrightarrow> usize_bits t = 64 \<and> 64 \<le> length elf \<and> length elf < 2 ^ 63 \<and>
     shdr elf (field elf 62 2) + 40 \<le> length elf \<and>
     (\<forall>i < shnum elf. shdr elf i + 40 \<le> length elf \<and> name_start elf i \<le> length elf \<and>
        (section_name elf i = dot_text \<longrightarrow>
           field elf (shdr elf i + 24) 8 + field elf (shdr elf i + 32) 8 \<le> length elf))"

section \<open>Correctness\<close>

lemma unat_from_le:
  assumes "8 * length bs \<le> LENGTH('a)" "LENGTH('a) \<le> 64"
  shows "unat (from_le bs :: 'a::len word) = unat (from_le bs :: u64)"
proof (rule bit_eqI)
  fix n
  show "bit (unat (from_le bs :: 'a word)) n = bit (unat (from_le bs :: u64)) n"
    using assms by (auto simp: bit_unsigned_iff bit_from_le)
qed

lemma le_field_in_range:
  assumes "lo \<le> hi" "a + hi \<le> length elf" "length elf < 2 ^ usize_bits t"
    and "8 * (hi - lo) \<le> LENGTH('a)" "LENGTH('a) \<le> 64" "LENGTH('a) \<le> usize_bits t"
  shows "\<exists>w :: 'a::len word. le_field t elf a lo hi = Inr w \<and> as_usize t w = field elf (a + lo) (hi - lo)"
proof -
  let ?bs = "take (hi - lo) (drop (a + lo) elf)"
  have "le_field t elf a lo hi = Inr (from_le ?bs :: 'a word)"
    using assms(1-3) by (simp add: le_field_def slice_def)
  moreover have "unat (from_le ?bs :: 'a word) < 2 ^ usize_bits t"
    by (rule less_le_trans [OF unsigned_less power_increasing [OF assms(6)]]) simp
  then have "as_usize t (from_le ?bs :: 'a word) = field elf (a + lo) (hi - lo)"
    using assms(4,5) by (simp add: as_usize_def field_def unat_from_le [where 'a = 'a])
  ultimately show ?thesis by blast
qed

lemma position_takeWhile:
  "position p xs = (if \<exists>x\<in>set xs. p x then Some (length (takeWhile (\<lambda>x. \<not> p x) xs)) else None)"
  by (induction xs) auto

lemma chunks_exact8_words:
  assumes "length rest < 8"
  shows "map from_le (chunks_exact8 (concat (map (to_le 8) ws) @ rest)) = (ws :: u64 list)"
proof (induction ws)
  case Nil
  have "chunks_exact8 rest = []"
    using assms by (cases rest rule: chunks_exact8.cases) simp_all
  then show ?case by simp
next
  case (Cons w ws)
  obtain a b c d e f g h where w: "to_le 8 w = [a, b, c, d, e, f, g, h]"
    by (simp add: to_le_numeral)
  have "from_le [a, b, c, d, e, f, g, h] = w"
    unfolding w [symmetric] by (rule from_le_to_le_full(4))
  then show ?case using Cons.IH by (simp add: w del: from_le.simps)
qed

lemma section_words_ok:
  assumes "usize_bits t = 64" "length elf < 2 ^ 63" "shdr elf i + 40 \<le> length elf"
    and "field elf (shdr elf i + 24) 8 + field elf (shdr elf i + 32) 8 \<le> length elf"
  shows "section_words t elf (shdr elf i) = Inr (map from_le (chunks_exact8 (section_bytes elf i)))"
proof -
  have len: "length elf < 2 ^ usize_bits t" using assms(1,2) by simp
  obtain w1 w2 :: u64 where w: "le_field t elf (shdr elf i) 24 32 = (Inr w1 :: ('a, u64) res)"
      "as_usize t w1 = field elf (shdr elf i + 24) 8"
      "le_field t elf (shdr elf i) 32 40 = (Inr w2 :: ('a, u64) res)"
      "as_usize t w2 = field elf (shdr elf i + 32) 8"
    using le_field_in_range [OF _ _ len, of 24 32 "shdr elf i", where 'a = 64]
      le_field_in_range [OF _ _ len, of 32 40 "shdr elf i", where 'a = 64] assms(1,3) by auto
  show ?thesis
    using assms(4) len by (simp add: section_words_def w Let_def slice_def section_bytes_def)
qed

text \<open>The name of a section: from its start to the next zero byte.\<close>

lemma section_name_slice:
  fixes f :: "u8 list \<Rightarrow> ('e, 'b) res"
  assumes "name_start elf i \<le> length elf" "length elf < 2 ^ usize_bits t"
  shows "bind_res (case position (\<lambda>b. b = 0) (drop (name_start elf i) elf) of None \<Rightarrow> Inr (name_start elf i)
       | Some p \<Rightarrow> usize_add t (name_start elf i) p) (\<lambda>ne. bind_res (slice elf (name_start elf i) ne) f) =
     f (section_name elf i)"
proof -
  let ?bs = "drop (name_start elf i) elf"
  have "length (takeWhile (\<lambda>b. b \<noteq> 0) ?bs) \<le> length ?bs" by (rule length_takeWhile_le)
  then have l: "name_start elf i + length (takeWhile (\<lambda>b. b \<noteq> 0) ?bs) \<le> length elf" using assms(1) by simp
  have "take (length (takeWhile (\<lambda>b. b \<noteq> 0) ?bs)) ?bs = takeWhile (\<lambda>b. b \<noteq> 0) ?bs"
    by (simp add: takeWhile_eq_take [symmetric])
  then show ?thesis using l assms
    by (auto simp: position_takeWhile section_name_def Let_def slice_def)
qed

lemma load_text_from_ok:
  assumes ok: "elf_ok t elf" and "i + k = shnum elf"
  shows "load_text_from t elf (field elf 40 8) (field elf 58 2)
       (field elf (shdr elf (field elf 62 2) + 24) 8) k i =
     (case List.find (\<lambda>j. section_name elf j = dot_text) [i..<shnum elf] of
        None \<Rightarrow> Inl Panic
      | Some j \<Rightarrow> Inr (map from_le (chunks_exact8 (section_bytes elf j))))"
  using assms(2)
proof (induction k arbitrary: i)
  case 0
  then show ?case by simp
next
  case (Suc k)
  then have i: "i < shnum elf" by simp
  have bits: "usize_bits t = 64" and len: "length elf < 2 ^ 63" using ok by (simp_all add: elf_ok_def)
  then have len': "length elf < 2 ^ usize_bits t" by simp
  have sh: "shdr elf i + 40 \<le> length elf" and ns: "name_start elf i \<le> length elf"
    and body: "section_name elf i = dot_text \<Longrightarrow>
      field elf (shdr elf i + 24) 8 + field elf (shdr elf i + 32) 8 \<le> length elf"
    using ok i by (simp_all add: elf_ok_def)
  obtain w :: u32 where w: "le_field t elf (shdr elf i) 0 4 = (Inr w :: ('a, u32) res)"
      "as_usize t w = field elf (shdr elf i) 4"
    using le_field_in_range [OF _ _ len', of 0 4 "shdr elf i", where 'a = 32] sh bits by auto
  note name = section_name_slice [OF ns len']
  have o: "usize_mul t i (field elf 58 2) = (Inr (i * field elf 58 2) :: ('a, nat) res)"
      "usize_add t (field elf 40 8) (i * field elf 58 2) = (Inr (shdr elf i) :: ('a, nat) res)"
      "usize_add t (field elf (shdr elf (field elf 62 2) + 24) 8) (field elf (shdr elf i) 4) =
       (Inr (name_start elf i) :: ('a, nat) res)"
    using sh ns len' by (simp_all add: shdr_def name_start_def)
  have step: "load_text_from t elf (field elf 40 8) (field elf 58 2)
       (field elf (shdr elf (field elf 62 2) + 24) 8) (Suc k) i =
     (if section_name elf i = dot_text then section_words t elf (shdr elf i)
      else load_text_from t elf (field elf 40 8) (field elf 58 2)
       (field elf (shdr elf (field elf 62 2) + 24) 8) k (Suc i) :: ('a, u64 list) res)"
    using ns
    by (simp add: o w name)
  have "section_words t elf (shdr elf i) =
      (Inr (map from_le (chunks_exact8 (section_bytes elf i))) :: ('a, u64 list) res)"
    if "section_name elf i = dot_text"
    by (rule section_words_ok [OF bits len sh body [OF that]])
  then show ?case
    unfolding step using Suc.IH [of "Suc i"] Suc.prems i by (simp add: upt_conv_Cons)
qed

lemma load_text_char:
  assumes "elf_ok t elf"
  shows "load_text t elf =
     (case List.find (\<lambda>j. section_name elf j = dot_text) [0..<shnum elf] of
        None \<Rightarrow> Inl Panic
      | Some j \<Rightarrow> Inr (map from_le (chunks_exact8 (section_bytes elf j))))"
proof -
  have bits: "usize_bits t = 64" and l: "64 \<le> length elf" and len: "length elf < 2 ^ usize_bits t"
    and str: "shdr elf (field elf 62 2) + 40 \<le> length elf"
    using assms by (simp_all add: elf_ok_def)
  obtain w1 w5 :: u64 and w2 w3 w4 :: u16 where w:
      "le_field t elf 0 40 48 = (Inr w1 :: ('a, u64) res)" "as_usize t w1 = field elf 40 8"
      "le_field t elf 0 58 60 = (Inr w2 :: ('a, u16) res)" "as_usize t w2 = field elf 58 2"
      "le_field t elf 0 60 62 = (Inr w3 :: ('a, u16) res)" "as_usize t w3 = field elf 60 2"
      "le_field t elf 0 62 64 = (Inr w4 :: ('a, u16) res)" "as_usize t w4 = field elf 62 2"
      "le_field t elf (shdr elf (field elf 62 2)) 24 32 = (Inr w5 :: ('a, u64) res)"
      "as_usize t w5 = field elf (shdr elf (field elf 62 2) + 24) 8"
    using le_field_in_range [OF _ _ len, of 40 48 0, where 'a = 64]
      le_field_in_range [OF _ _ len, of 58 60 0, where 'a = 16]
      le_field_in_range [OF _ _ len, of 60 62 0, where 'a = 16]
      le_field_in_range [OF _ _ len, of 62 64 0, where 'a = 16]
      le_field_in_range [OF _ _ len, of 24 32 "shdr elf (field elf 62 2)", where 'a = 64] bits l str
    by auto
  have o: "usize_mul t (field elf 62 2) (field elf 58 2) = (Inr (field elf 62 2 * field elf 58 2) :: ('a, nat) res)"
      "usize_add t (field elf 40 8) (field elf 62 2 * field elf 58 2) =
       (Inr (shdr elf (field elf 62 2)) :: ('a, nat) res)"
    using str len by (simp_all add: shdr_def)
  show ?thesis
    using load_text_from_ok [OF assms, of 0 "shnum elf"]
    by (simp add: load_text_def Let_def w o shnum_def [symmetric])
qed

text \<open>
  A file of one section: the header, one section header (of 40 bytes, named at offset 8 of
  the section itself), an exit instruction and the name.
\<close>

definition demo_elf :: "u8 list" where
  "demo_elf =
     replicate 40 0 @ to_le 8 (64 :: u64) @ replicate 10 0 @ to_le 2 (40 :: u16) @ to_le 2 (1 :: u16) @
     to_le 2 (0 :: u16) @
     to_le 4 (8 :: u32) @ replicate 20 0 @ to_le 8 (104 :: u64) @ to_le 8 (8 :: u64) @
     to_le 8 (0x95 :: u64) @ dot_text @ [0]"

lemma demo_elf_bytes:
  "demo_elf = [0,0,0,0,0,0,0,0,0,0,0,0,0,0,0,0,0,0,0,0,0,0,0,0,0,0,0,0,0,0,0,0,0,0,0,0,0,0,0,0,
     64,0,0,0,0,0,0,0, 0,0,0,0,0,0,0,0,0,0, 40,0, 1,0, 0,0,
     8,0,0,0, 0,0,0,0,0,0,0,0,0,0,0,0,0,0,0,0,0,0,0,0, 104,0,0,0,0,0,0,0, 8,0,0,0,0,0,0,0,
     0x95,0,0,0,0,0,0,0, 0x2E,0x74,0x65,0x78,0x74, 0]"
  by (simp add: demo_elf_def to_le_numeral replicate_numeral dot_text_def)

lemma demo_elf_fields:
  "field demo_elf 40 8 = 64" "field demo_elf 58 2 = 40" "field demo_elf 60 2 = 1"
  "field demo_elf 62 2 = 0" "field demo_elf 64 4 = 8" "field demo_elf 88 8 = 104" "field demo_elf 96 8 = 8"
  by (simp_all add: field_def demo_elf_bytes)

lemma demo_elf_name: "section_name demo_elf 0 = dot_text"
  by (simp add: section_name_def name_start_def shdr_def demo_elf_fields)
    (simp add: demo_elf_bytes dot_text_def)

lemma demo_elf_ok: "usize_bits t = 64 \<Longrightarrow> elf_ok t demo_elf"
proof -
  assume "usize_bits t = 64"
  moreover have "length demo_elf = 118" by (simp add: demo_elf_bytes)
  ultimately show ?thesis
    by (simp add: elf_ok_def shdr_def shnum_def name_start_def demo_elf_fields)
qed

lemma demo_elf_words:
  "(case List.find (\<lambda>j. section_name demo_elf j = dot_text) [0..<shnum demo_elf] of
      None \<Rightarrow> Inl Panic
    | Some j \<Rightarrow> Inr (map from_le (chunks_exact8 (section_bytes demo_elf j)))) =
   (Inr [0x95] :: ('e, u64 list) res)"
  by (simp_all add: shnum_def demo_elf_fields demo_elf_name section_bytes_def shdr_def)
    (simp_all add: demo_elf_bytes)

lemma load_demo_elf: "usize_bits t = 64 \<Longrightarrow> load_text t demo_elf = Inr [0x95]"
  unfolding demo_elf_words [symmetric] by (rule load_text_char) (simp add: demo_elf_ok)

text \<open>
  C35: on an ELF file whose section table, section names and text section are in range, the
  loader returns the instruction words of the first section named \<open>.text\<close>, and panics when
  there is none.
\<close>

theorem load_text_finds_text:
  assumes "elf_ok t elf"
  shows "load_text t elf =
     (case List.find (\<lambda>j. section_name elf j = dot_text) [0..<shnum elf] of
        None \<Rightarrow> Inl Panic
      | Some j \<Rightarrow> Inr (map from_le (chunks_exact8 (section_bytes elf j))))"
  by (rule load_text_char [OF assms])

theorem load_text_finds_text_witness:
  "load_text \<lparr>usize_bits = 64, overflow_checks = True\<rparr> demo_elf = (Inr [0x95] :: (unit, u64 list) res)"
  unfolding demo_elf_words [symmetric]
  by (rule load_text_finds_text) (simp add: demo_elf_ok)

end
