(* ===== verification/Harness.thy ===== *)
theory Harness
  imports Sbpf_Effects Elf_Loader
begin

text \<open>
  The code around the interpreter: the conformance harness
  (\<open>m6-interpreter/conformance/src/main.rs\<close>), the zkVM guest
  (\<open>m6-interpreter/zkvm-guest/src/main.rs\<close>) and the host prover
  (\<open>m6-interpreter/prover/src/main.rs\<close>). Harness and guest put a pointer and an input
  buffer into the heap, start the interpreter on the program text and report \<open>r0\<close>. The
  zkVM (its input channel, prover and verifier) is a parameter.
\<close>

section \<open>The code\<close>

text \<open>The input buffer, built alike by the harness and the prover.\<close>

definition build_input_buffer :: "u64 \<Rightarrow> u64 \<Rightarrow> u8 list" where
  "build_input_buffer balance threshold =
     to_le 8 (0 :: u64) @ to_le 8 (16 :: u64) @ to_le 8 balance @ to_le 8 threshold @ replicate 32 0"

text \<open>\<open>for (i, &b) in buf.iter().enumerate() { mem.write_u8(dst + i as u64, b).unwrap(); }\<close>\<close>

primrec store_bytes_unwrap :: "target \<Rightarrow> u64 \<Rightarrow> u8 list \<Rightarrow> nat \<Rightarrow> memory \<Rightarrow> ('e, memory) res" where
  "store_bytes_unwrap t d [] i m = Inr m"
| "store_bytes_unwrap t d (b # bs) i m =
     bind_res (add_u64 t d (of_nat i)) (\<lambda>a.
     bind_res (write_u8 t m a b) (\<lambda>w.
     bind_res (unwrap w) (\<lambda>m'. store_bytes_unwrap t d bs (Suc i) m')))"

definition harness_setup :: "target \<Rightarrow> u8 list \<Rightarrow> (sbpf_error, vm) res" where
  "harness_setup t buf =
     (let m0 = Memory_new 65536 65536; ptr_slot = heap_base m0
      in bind_res (add_u64 t (heap_base m0) 8) (\<lambda>buf_ptr.
         bind_res (write_u64 t m0 ptr_slot buf_ptr) (\<lambda>w.
         bind_res (unwrap w) (\<lambda>m1.
         bind_res (store_bytes_unwrap t buf_ptr buf 0 m1) (\<lambda>m2.
         bind_res (Vm_new t m2) (\<lambda>vm. set_reg vm 1 ptr_slot))))))"

definition run_predicate ::
  "target \<Rightarrow> u64 list \<Rightarrow> u64 \<Rightarrow> u64 \<Rightarrow> (sbpf_error, u64 \<times> u8 list) res option"
where
  "run_predicate t text balance threshold =
     (case harness_setup t (build_input_buffer balance threshold) of
        Inl e \<Rightarrow> Some (Inl e)
      | Inr vm \<Rightarrow> map_option (\<lambda>r. bind_res r (\<lambda>(r0, vm'). Inr (r0, return_data vm')))
                    (run t (stub_syscalls t) text vm))"

text \<open>The guest ignores failed writes.\<close>

definition guest_setup :: "target \<Rightarrow> u8 list \<Rightarrow> (sbpf_error, vm) res" where
  "guest_setup t buf =
     (let m0 = Memory_new 65536 65536; ptr_slot = heap_base m0
      in bind_res (add_u64 t (heap_base m0) 8) (\<lambda>buf_ptr.
         bind_res (write_u64 t m0 ptr_slot buf_ptr) (\<lambda>w.
         let m1 = unwrap_or m0 w in
         bind_res (store_bytes (write_u8 t) t buf_ptr buf 0 m1) (\<lambda>m2.
         bind_res (Vm_new t m2) (\<lambda>vm. set_reg vm 1 ptr_slot)))))"

text \<open>The reads of the zkVM environment, over a stream of type \<open>'s\<close>; they may panic.\<close>

record 's env_reader =
  env_u32 :: "'s \<Rightarrow> (sbpf_error, u32 \<times> 's) res"
  env_u64 :: "'s \<Rightarrow> (sbpf_error, u64 \<times> 's) res"
  env_u8 :: "'s \<Rightarrow> (sbpf_error, u8 \<times> 's) res"

primrec read_many :: "('s \<Rightarrow> (sbpf_error, 'a \<times> 's) res) \<Rightarrow> nat \<Rightarrow> 's \<Rightarrow> (sbpf_error, 'a list \<times> 's) res" where
  "read_many rd 0 s = Inr ([], s)"
| "read_many rd (Suc k) s =
     bind_res (rd s) (\<lambda>(a, s'). bind_res (read_many rd k s') (\<lambda>(as, s''). Inr (a # as, s'')))"

definition guest_inputs :: "target \<Rightarrow> 's env_reader \<Rightarrow> 's \<Rightarrow> (sbpf_error, u64 list \<times> u8 list) res" where
  "guest_inputs t env s =
     bind_res (env_u32 env s) (\<lambda>(bytecode_len, s).
     bind_res (with_capacity t (8 * unat bytecode_len)) (\<lambda>_.
     bind_res (read_many (env_u64 env) (unat bytecode_len) s) (\<lambda>(bytecode, s).
     bind_res (env_u32 env s) (\<lambda>(buf_len, s).
     bind_res (with_capacity t (unat buf_len)) (\<lambda>_.
     bind_res (read_many (env_u8 env) (unat buf_len) s) (\<lambda>(input_buffer, s).
       Inr (bytecode, input_buffer)))))))"

text \<open>What the guest commits to the journal.\<close>

definition committed :: "(sbpf_error, u64 \<times> vm) res \<Rightarrow> (sbpf_error, u64 \<times> bool) res" where
  "committed r = (case r of
     Inr (r0, vm) \<Rightarrow> Inr (r0, True)
   | Inl (Fault e) \<Rightarrow> Inr (0xFFFFFFFFFFFFFFFF, False)
   | Inl s \<Rightarrow> Inl s)"

definition guest_main :: "target \<Rightarrow> 's env_reader \<Rightarrow> 's \<Rightarrow> (sbpf_error, u64 \<times> bool) res option" where
  "guest_main t env s =
     (case guest_inputs t env s of
        Inl e \<Rightarrow> Some (Inl e)
      | Inr (bytecode, input_buffer) \<Rightarrow>
          (case guest_setup t input_buffer of
             Inl e \<Rightarrow> Some (Inl e)
           | Inr vm \<Rightarrow> map_option committed (run t (guest_syscalls t) bytecode vm)))"

section \<open>The machine at entry\<close>

text \<open>
  The machine the guest starts: the heap holds the pointer to the buffer, as much of the
  buffer as fits, and zeros.
\<close>

definition entry_heap :: "u8 list \<Rightarrow> u8 list" where
  "entry_heap buf = to_le 8 (0x300000008 :: u64) @ take 65528 buf @ replicate (65528 - length buf) 0"

definition entry_vm :: "u8 list \<Rightarrow> vm" where
  "entry_vm buf =
     \<lparr>regs = [0, 0x300000000, 0, 0, 0, 0, 0, 0, 0, 0, 0x100010000], pc = 0, call_stack = [],
      mem = \<lparr>heap = entry_heap buf, stack = replicate 65536 0,
             stack_base = 0x100000000, heap_base = 0x300000000\<rparr>,
      return_data = []\<rparr>"

lemma memory_eqI:
  assumes "mem_ok t m" "mem_ok t m'" "same_shape m m'" "mem_view m = mem_view m'"
  shows "m = m'"
proof -
  have "region m h = region m' h" for h
  proof (rule nth_equalityI)
    show l: "length (region m h) = length (region m' h)"
      using assms(3) by (simp add: same_shape_def region_def)
    fix i
    assume "i < length (region m h)"
    then show "region m h ! i = region m' h ! i"
      using mem_view_at [OF assms(1), of i h] mem_view_at [OF assms(2), of i h] assms(4) l by simp
  qed
  from this [of True] this [of False] show ?thesis
    using assms(3) by (simp add: region_def same_shape_def)
qed

lemma overlay_cut:
  assumes "\<And>a. d + k \<le> a \<Longrightarrow> f a = None"
  shows "overlay f d bs = overlay f d (take k bs)"
  using assms by (auto simp: overlay_def fun_eq_iff)

definition slot_memory :: memory where
  "slot_memory = (Memory_new 65536 65536)\<lparr>heap := to_le 8 (0x300000008 :: u64) @ replicate 65528 0\<rparr>"

lemma slot_memory_ok: "target_ok t \<Longrightarrow> mem_ok t slot_memory"
  by (simp add: mem_ok_def slot_memory_def Memory_new_def)

lemma write_slot:
  assumes "target_ok t"
  shows "write_u64 t (Memory_new 65536 65536) 0x300000000 0x300000008 =
     (Inr (Some slot_memory) :: (sbpf_error, memory option) res)"
proof -
  have "mem_ok t (Memory_new 65536 65536)" using assms by (simp add: mem_ok_new)
  from write_le_at [OF this, of 8 "0x300000000" True 0 "0x300000008 :: u64"]
  show ?thesis
    by (simp add: write_u64_def region_def region_base_def set_region_def Memory_new_def slot_memory_def
        splice_def)
qed

lemma load_buffer:
  assumes "target_ok t" "length buf < 2 ^ 32"
  shows "store_bytes (write_u8 t) t 0x300000008 buf 0 slot_memory =
     (Inr (slot_memory\<lparr>heap := entry_heap buf\<rparr>) :: (sbpf_error, memory) res)"
proof -
  note ok = slot_memory_ok [OF assms(1)]
  obtain m' where m': "store_bytes (write_u8 t) t 0x300000008 buf 0 slot_memory =
        (Inr m' :: (sbpf_error, memory) res)" "mem_ok t m'"
      "mem_view m' = overlay (mem_view slot_memory) 0x300000008 buf"
    using vm_mem.store_bytes_overlay [OF ok, of "0x300000008" 0 buf t] assms(2) by auto
  have sh: "same_shape slot_memory m'"
    using store_bytes_safe [OF ok, of "0x300000008" buf 0, where 'a = sbpf_error] m'(1)
    by (simp add: mem_safe_def)
  have heap: "splice 8 (take 65528 buf) (heap slot_memory) = entry_heap buf"
    by (simp add: splice_def slot_memory_def entry_heap_def min_def)
  have len: "8 + length (take 65528 buf) \<le> length (region slot_memory True)"
    by (simp add: region_def slot_memory_def)
  have "mem_view slot_memory a = None" if "0x300000008 + 65528 \<le> a" for a
  proof (rule ccontr)
    assume "mem_view slot_memory a \<noteq> None"
    then show False
      using that mem_view_Some_iff [OF ok, of a]
      by (auto simp: slot_memory_def Memory_new_def region_def region_base_def split: if_splits)
  qed
  then have "mem_view m' = overlay (mem_view slot_memory) 0x300000008 (take 65528 buf)"
    unfolding m'(3) by (rule overlay_cut)
  also have "\<dots> = mem_view (set_region slot_memory True (entry_heap buf))"
    using mem_view_splice [OF ok len] heap by (simp add: region_def region_base_def)
  finally have v: "mem_view m' = mem_view (set_region slot_memory True (entry_heap buf))" .
  have sh': "same_shape slot_memory (set_region slot_memory True (entry_heap buf))"
    by (rule set_region_same_shape) (simp add: region_def slot_memory_def entry_heap_def)
  have "m' = set_region slot_memory True (entry_heap buf)"
    using sh sh' by (intro memory_eqI [OF m'(2) mem_ok_same_shape [OF ok sh'] _ v]) (simp add: same_shape_def)
  then show ?thesis using m'(1) by (simp add: set_region_def)
qed

lemma store_bytes_unwrap_eq:
  assumes "store_bytes (write_u8 t) t d bs i m = (Inr m' :: (sbpf_error, memory) res)" "mem_ok t m"
    and "unat d + i + length bs < 2 ^ 64" "mapped (mem_view m) (unat d + i) (length bs)"
  shows "store_bytes_unwrap t d bs i m = (Inr m' :: (sbpf_error, memory) res)"
  using assms
proof (induction bs arbitrary: i m)
  case (Cons b bs)
  have a: "add_u64 t d (of_nat i) = (Inr (d + of_nat i) :: (sbpf_error, u64) res)" "unat (d + of_nat i) = unat d + i"
    using vm_mem.add_index [of d i] Cons.prems(3) by simp_all
  have "mem_view m (unat d + i + 0) \<noteq> None"
    using Cons.prems(4) unfolding mapped_def by (elim allE [of _ 0]) simp
  then obtain m1 where m1: "write_u8 t m (d + of_nat i) b = (Inr (Some m1) :: (sbpf_error, memory option) res)"
      "mem_ok t m1" "mem_view m1 = (mem_view m)(unat d + i \<mapsto> b)"
    using vm_mem.wr_mapped [OF Cons.prems(2), of "d + of_nat i" b] Cons.prems(3) a(2) by auto
  have mp: "mapped (mem_view m1) (unat d + Suc i) (length bs)"
    unfolding mapped_def
  proof (intro allI impI)
    fix j
    assume "j < length bs"
    then have "mem_view m (unat d + i + Suc j) \<noteq> None"
      using Cons.prems(4) unfolding mapped_def by (elim allE [of _ "Suc j"]) simp
    then show "mem_view m1 (unat d + Suc i + j) \<noteq> None" by (simp add: m1(3))
  qed
  have "store_bytes_unwrap t d bs (Suc i) m1 = (Inr m' :: (sbpf_error, memory) res)"
    using Cons.prems(1,3) m1(1) a by (intro Cons.IH m1(2) mp) simp_all
  then show ?case using m1(1) a by (simp add: unwrap_def)
qed simp

lemma initial_regs: "(replicate 11 (0 :: u64))[10 := sp] = [0, 0, 0, 0, 0, 0, 0, 0, 0, 0, sp]"
  by (simp add: replicate_numeral)

lemma Vm_new_entry:
  "Vm_new t (slot_memory\<lparr>heap := entry_heap buf\<rparr>) =
   Inr (entry_vm buf\<lparr>regs := [0, 0, 0, 0, 0, 0, 0, 0, 0, 0, 0x100010000]\<rparr>)"
  by (simp add: Vm_new_def slot_memory_def Memory_new_def entry_vm_def add_u64_def initial_regs)

lemma heap_base_new [simp]: "heap_base (Memory_new hs ss) = 0x300000000"
  by (simp add: Memory_new_def)

lemma guest_entry_setup: "target_ok t \<Longrightarrow> length buf < 2 ^ 32 \<Longrightarrow> guest_setup t buf = Inr (entry_vm buf)"
  using load_buffer [of t buf] write_slot [of t]
  by (simp add: guest_setup_def Let_def add_u64_def Vm_new_entry entry_vm_def)

text \<open>
  Whatever the input buffer, the guest starts the interpreter on the machine of
  \<open>entry_vm\<close>: \<open>r1\<close> points to a slot that points to the buffer, \<open>r10\<close> to the end of a
  zeroed stack; a buffer longer than 65528 bytes is silently cut off.
\<close>

theorem guest_entry_machine:
  assumes "target_ok t" "length buf < 2 ^ 32"
  shows "guest_setup t buf = Inr (entry_vm buf)"
  by (rule guest_entry_setup [OF assms])

theorem guest_entry_machine_witness: "guest_setup host64 [1, 2, 3] = Inr (entry_vm [1, 2, 3])"
  using guest_entry_machine [of host64 "[1, 2, 3]"] by simp

lemma harness_entry_machine:
  assumes "target_ok t" "length buf \<le> 65528"
  shows "harness_setup t buf = Inr (entry_vm buf)"
proof -
  note ok = slot_memory_ok [OF assms(1)]
  have l: "store_bytes (write_u8 t) t 0x300000008 buf 0 slot_memory =
      (Inr (slot_memory\<lparr>heap := entry_heap buf\<rparr>) :: (sbpf_error, memory) res)"
    using load_buffer [OF assms(1), of buf] assms(2) by simp
  have "mem_view slot_memory (0x300000008 + j) \<noteq> None" if "j < length buf" for j
  proof -
    have "8 + j < length (region slot_memory True)"
      using that assms(2) by (simp add: region_def slot_memory_def)
    from mem_view_at [OF ok this] show ?thesis by (simp add: region_base_def)
  qed
  then have "mapped (mem_view slot_memory) 0x300000008 (length buf)"
    by (simp add: mapped_def)
  then have "store_bytes_unwrap t 0x300000008 buf 0 slot_memory =
      (Inr (slot_memory\<lparr>heap := entry_heap buf\<rparr>) :: (sbpf_error, memory) res)"
    using store_bytes_unwrap_eq [OF l ok] assms(2) by simp
  then show ?thesis
    using write_slot [OF assms(1)]
    by (simp add: harness_setup_def Let_def add_u64_def Vm_new_entry entry_vm_def unwrap_def)
qed

lemma length_build_input_buffer [simp]: "length (build_input_buffer b th) = 64"
  by (simp add: build_input_buffer_def)

lemma vm_ok_entry: "target_ok t \<Longrightarrow> vm_ok t (entry_vm buf)"
  by (simp add: vm_ok_def entry_vm_def mem_ok_def entry_heap_def)

text \<open>
  The conformance harness and the zkVM guest start the interpreter on the same machine
  for the same input.
\<close>

theorem harness_and_guest_start_alike:
  assumes "target_ok t" "target_ok t'"
  shows "harness_setup t (build_input_buffer balance threshold) =
     guest_setup t' (build_input_buffer balance threshold)"
  using assms by (simp add: harness_entry_machine guest_entry_setup)

definition guest32 :: target where "guest32 = \<lparr>usize_bits = 32, overflow_checks = False\<rparr>"

lemma target_ok_guest32 [simp]: "target_ok guest32"
  by (simp add: target_ok_def guest32_def)

theorem harness_and_guest_start_alike_witness:
  "harness_setup host64 (build_input_buffer 100 50) = guest_setup guest32 (build_input_buffer 100 50)"
  using harness_and_guest_start_alike [of host64 guest32 100 50] by simp

end
