(* ===== verification/Rust_Strings.thy ===== *)
theory Rust_Strings
  imports Prelude
begin

text \<open>
  What the sources use of Rust's strings. A string is its list of Unicode scalar values;
  lengths and slice bounds count bytes of the UTF-8 encoding, and a slice that would cut a
  character in two panics. Also the hexadecimal parser of the integer types
  (\<open>u32::from_str_radix(s, 16)\<close>) and the format \<open>{:08x}\<close>.
\<close>

type_synonym str = "nat list"

section \<open>Bytes of a string\<close>

definition utf8_len :: "nat \<Rightarrow> nat" where
  "utf8_len c = (if c < 0x80 then 1 else if c < 0x800 then 2 else if c < 0x10000 then 3 else 4)"

definition str_len :: "str \<Rightarrow> nat" where
  "str_len s = sum_list (map utf8_len s)"

text \<open>\<open>s.split_at(n)\<close>, \<open>None\<close> when \<open>n\<close> is not a character boundary of \<open>s\<close>.\<close>

primrec split_bytes :: "nat \<Rightarrow> str \<Rightarrow> (str \<times> str) option" where
  "split_bytes n [] = (if n = 0 then Some ([], []) else None)"
| "split_bytes n (c # cs) =
     (if n = 0 then Some ([], c # cs)
      else if utf8_len c \<le> n then map_option (\<lambda>(a, b). (c # a, b)) (split_bytes (n - utf8_len c) cs)
      else None)"

text \<open>\<open>&s[a..b]\<close>\<close>

definition str_slice :: "str \<Rightarrow> nat \<Rightarrow> nat \<Rightarrow> ('e, str) res" where
  "str_slice s a b =
     (if b < a then Inl Panic
      else case split_bytes a s of
        None \<Rightarrow> Inl Panic
      | Some (_, r) \<Rightarrow> (case split_bytes (b - a) r of None \<Rightarrow> Inl Panic | Some (m, _) \<Rightarrow> Inr m))"

definition ascii :: "str \<Rightarrow> bool" where
  "ascii s \<longleftrightarrow> list_all (\<lambda>c. c < 0x80) s"

lemma ascii_simps [simp]:
  "ascii []" "ascii (c # s) \<longleftrightarrow> c < 0x80 \<and> ascii s" "ascii (s @ s') \<longleftrightarrow> ascii s \<and> ascii s'"
  by (simp_all add: ascii_def)

lemma str_len_simps [simp]:
  "str_len [] = 0" "str_len (c # s) = utf8_len c + str_len s" "str_len (s @ s') = str_len s + str_len s'"
  by (simp_all add: str_len_def)

lemma utf8_len_pos [simp]: "0 < utf8_len c" "utf8_len c = Suc 0 \<longleftrightarrow> c < 0x80"
  by (simp_all add: utf8_len_def)

lemma str_len_ascii [simp]: "ascii s \<Longrightarrow> str_len s = length s"
  by (induction s) (simp_all add: utf8_len_def)

lemma str_len_0_iff [simp]: "str_len s = 0 \<longleftrightarrow> s = []"
  by (cases s) simp_all

lemma split_bytes_Some_iff: "split_bytes n s = Some (a, b) \<longleftrightarrow> s = a @ b \<and> str_len a = n"
proof (induction s arbitrary: n a b)
  case Nil
  show ?case by (cases "n = 0") auto
next
  case (Cons c cs)
  show ?case
  proof (cases a)
    case Nil
    then show ?thesis by (cases "n = 0") auto
  next
    case (Cons x xs)
    have "split_bytes n (c # cs) = Some (a, b) \<longleftrightarrow>
        utf8_len c \<le> n \<and> x = c \<and> split_bytes (n - utf8_len c) cs = Some (xs, b)"
      using utf8_len_pos(1) [of c] by (cases "n = 0") (auto simp: Cons simp del: utf8_len_pos(1))
    also have "\<dots> \<longleftrightarrow> c # cs = a @ b \<and> str_len a = n"
      unfolding Cons.IH Cons by auto
    finally show ?thesis .
  qed
qed

text \<open>A slice is the part of the string with that many bytes before it and in it.\<close>

lemma str_slice_Inr_iff:
  "str_slice s a b = Inr m \<longleftrightarrow> a \<le> b \<and> (\<exists>p r. s = p @ m @ r \<and> str_len p = a \<and> str_len m = b - a)"
proof
  assume "str_slice s a b = Inr m"
  then obtain p q r where "a \<le> b" "split_bytes a s = Some (p, q)" "split_bytes (b - a) q = Some (m, r)"
    by (auto simp: str_slice_def split: if_splits option.splits)
  then show "a \<le> b \<and> (\<exists>p r. s = p @ m @ r \<and> str_len p = a \<and> str_len m = b - a)"
    by (auto simp: split_bytes_Some_iff)
next
  assume "a \<le> b \<and> (\<exists>p r. s = p @ m @ r \<and> str_len p = a \<and> str_len m = b - a)"
  then obtain p r where "a \<le> b" "split_bytes a s = Some (p, m @ r)" "split_bytes (b - a) (m @ r) = Some (m, r)"
    by (auto simp: split_bytes_Some_iff)
  then show "str_slice s a b = Inr m" by (simp add: str_slice_def)
qed

lemma str_slice_Inl: "str_slice s a b = Inl e \<Longrightarrow> e = Panic"
  by (auto simp: str_slice_def split: if_splits option.splits)

lemma str_slice_ascii:
  assumes "ascii s" "a \<le> b" "b \<le> length s"
  shows "str_slice s a b = Inr (take (b - a) (drop a s))"
proof -
  have "s = take a s @ take (b - a) (drop a s) @ drop (b - a) (drop a s)"
    by (metis append_take_drop_id)
  moreover have "ascii (take a s)" "ascii (take (b - a) (drop a s))"
    using assms(1) by (auto simp: ascii_def list_all_iff dest: in_set_takeD in_set_dropD)
  ultimately show ?thesis
    unfolding str_slice_Inr_iff using assms(2,3) by (intro conjI exI) auto
qed

section \<open>trim\<close>

text \<open>\<open>char::is_whitespace\<close>: the property \<open>White_Space\<close>.\<close>

definition is_whitespace :: "nat \<Rightarrow> bool" where
  "is_whitespace c \<longleftrightarrow> 9 \<le> c \<and> c \<le> 13 \<or> 0x2000 \<le> c \<and> c \<le> 0x200A \<or>
     c \<in> {0x20, 0x85, 0xA0, 0x1680, 0x2028, 0x2029, 0x202F, 0x205F, 0x3000}"

definition trim :: "str \<Rightarrow> str" where
  "trim s = rev (dropWhile is_whitespace (rev (dropWhile is_whitespace s)))"

lemma trim_between:
  assumes "list_all is_whitespace ws" "list_all is_whitespace ws'" "s \<noteq> []"
    and "\<not> is_whitespace (hd s)" "\<not> is_whitespace (last s)"
  shows "trim (ws @ s @ ws') = s"
proof -
  have "dropWhile is_whitespace (ws @ s @ ws') = s @ ws'"
    using assms(1,3,4) by (cases s) (simp_all add: list_all_iff)
  moreover have "dropWhile is_whitespace (rev ws' @ rev s) = dropWhile is_whitespace (rev s)"
    by (rule dropWhile_append2) (use assms(2) in \<open>simp add: list_all_iff\<close>)
  moreover have "dropWhile is_whitespace (rev s) = rev s"
    using assms(3,5) by (cases s rule: rev_cases) simp_all
  ultimately show ?thesis by (simp add: trim_def)
qed

section \<open>Hexadecimal numbers\<close>

datatype int_error = Empty | InvalidDigit | PosOverflow

text \<open>\<open>char::to_digit(16)\<close>\<close>

definition to_digit :: "nat \<Rightarrow> nat option" where
  "to_digit c = (if 0x30 \<le> c \<and> c \<le> 0x39 then Some (c - 0x30)
     else if 0x61 \<le> c \<and> c \<le> 0x66 then Some (c - 0x57)
     else if 0x41 \<le> c \<and> c \<le> 0x46 then Some (c - 0x37)
     else None)"

primrec parse_digits :: "u32 \<Rightarrow> str \<Rightarrow> (int_error, u32) res" where
  "parse_digits acc [] = Inr acc"
| "parse_digits acc (c # cs) =
     (case to_digit c of
        None \<Rightarrow> Inl (Fault InvalidDigit)
      | Some d \<Rightarrow> if 2 ^ 32 \<le> unat acc * 16 + d then Inl (Fault PosOverflow)
                  else parse_digits (acc * 16 + of_nat d) cs)"

definition from_hex :: "str \<Rightarrow> (int_error, u32) res" where
  "from_hex s =
     (if s = [] then Inl (Fault Empty)
      else if s = [0x2B] \<or> s = [0x2D] then Inl (Fault InvalidDigit)
      else parse_digits 0 (if hd s = 0x2B then tl s else s))"

text \<open>The format \<open>{:08x}\<close>: lower-case digits, no leading zeros, padded to a width of eight.\<close>

definition hex_char :: "nat \<Rightarrow> nat" where
  "hex_char d = (if d < 10 then 0x30 + d else 0x57 + d)"

fun hex_digits :: "nat \<Rightarrow> nat list" where
  "hex_digits n = (if n < 16 then [n] else hex_digits (n div 16) @ [n mod 16])"

declare hex_digits.simps [simp del]

definition format_08x :: "u32 \<Rightarrow> str" where
  "format_08x w = (let s = map hex_char (hex_digits (unat w)) in replicate (8 - length s) 0x30 @ s)"

definition hex_value :: "nat list \<Rightarrow> nat" where
  "hex_value ds = foldl (\<lambda>a d. a * 16 + d) 0 ds"

lemma foldl_hex: "foldl (\<lambda>a d. a * 16 + d) (k :: nat) ds = k * 16 ^ length ds + hex_value ds"
proof (induction ds arbitrary: k)
  case (Cons d ds)
  show ?case
    unfolding hex_value_def foldl.simps Cons.IH [of "k * 16 + d"] Cons.IH [of "0 * 16 + d"]
    by (simp add: algebra_simps)
qed (simp add: hex_value_def)

lemma hex_value_simps [simp]:
  "hex_value [] = 0" "hex_value (d # ds) = d * 16 ^ length ds + hex_value ds"
  "hex_value (ds @ [d]) = hex_value ds * 16 + d"
proof -
  show "hex_value [] = 0" "hex_value (ds @ [d]) = hex_value ds * 16 + d" by (simp_all add: hex_value_def)
  show "hex_value (d # ds) = d * 16 ^ length ds + hex_value ds"
    using foldl_hex [of d ds] by (simp add: hex_value_def)
qed

lemma hex_value_digits: "hex_value (hex_digits n) = n"
proof (induction n rule: hex_digits.induct)
  case (1 n)
  then show ?case by (subst hex_digits.simps) simp
qed

lemma hex_digits_bounds:
  "list_all (\<lambda>d. d < 16) (hex_digits n)" "hex_digits n \<noteq> []"
  by (induction n rule: hex_digits.induct) (subst hex_digits.simps; simp)+

lemma length_hex_digits: "n < 16 ^ Suc k \<Longrightarrow> length (hex_digits n) \<le> Suc k"
proof (induction k arbitrary: n)
  case 0
  then show ?case by (subst hex_digits.simps) simp
next
  case (Suc k)
  then have "n div 16 < 16 ^ Suc k" by (simp add: less_mult_imp_div_less)
  from Suc.IH [OF this] show ?case by (subst hex_digits.simps) simp
qed

lemma to_digit_hex_char [simp]: "d < 16 \<Longrightarrow> to_digit (hex_char d) = Some d"
  by (simp add: to_digit_def hex_char_def)

text \<open>The digits of a string, if all are digits.\<close>

definition digits_of :: "str \<Rightarrow> nat list option" where
  "digits_of s = those (map to_digit s)"

lemma digits_of_simps [simp]:
  "digits_of [] = Some []"
  "digits_of (c # s) = (case to_digit c of None \<Rightarrow> None | Some d \<Rightarrow> map_option ((#) d) (digits_of s))"
  unfolding digits_of_def by simp_all

lemma digits_of_hex_chars: "list_all (\<lambda>d. d < 16) ds \<Longrightarrow> digits_of (map hex_char ds) = Some ds"
  by (induction ds) simp_all

lemma digits_of_length: "digits_of s = Some ds \<Longrightarrow> length ds = length s"
  by (induction s arbitrary: ds) (auto split: option.splits)

lemma to_digit_lt: "to_digit c = Some d \<Longrightarrow> d < 16"
  by (auto simp: to_digit_def split: if_splits)

lemma digits_of_lt: "digits_of s = Some ds \<Longrightarrow> list_all (\<lambda>d. d < 16) ds"
  by (induction s arbitrary: ds) (auto split: option.splits dest: to_digit_lt)

lemma digits_of_ascii: "digits_of s = Some ds \<Longrightarrow> ascii s"
  by (induction s arbitrary: ds) (auto simp: to_digit_def split: option.splits if_splits)

lemma hex_value_lt: "list_all (\<lambda>d. d < 16) ds \<Longrightarrow> hex_value ds < 16 ^ length ds"
proof (induction ds)
  case (Cons d ds)
  then have "d * 16 ^ length ds + hex_value ds < d * 16 ^ length ds + 16 ^ length ds" by simp
  also have "\<dots> = (d + 1) * 16 ^ length ds" by simp
  also have "\<dots> \<le> 16 * 16 ^ length ds" using Cons.prems by (intro mult_right_mono) simp_all
  finally show ?case by simp
qed simp

text \<open>The parser computes the value of the digits when it fits.\<close>

lemma parse_digits_value:
  assumes "digits_of s = Some ds" "unat acc * 16 ^ length ds + hex_value ds < 2 ^ 32"
  shows "parse_digits acc s = Inr (of_nat (unat acc * 16 ^ length ds + hex_value ds))"
  using assms
proof (induction s arbitrary: acc ds)
  case (Cons c s)
  then obtain d ds' where d: "to_digit c = Some d" "digits_of s = Some ds'" "ds = d # ds'"
    by (auto split: option.splits)
  let ?v = "unat acc * 16 + d"
  have v: "?v * 16 ^ length ds' + hex_value ds' < 2 ^ 32"
    using Cons.prems(2) by (simp add: d(3) algebra_simps)
  have "?v * 1 \<le> ?v * 16 ^ length ds'" by (rule mult_left_mono) simp_all
  then have "?v \<le> ?v * 16 ^ length ds' + hex_value ds'" unfolding mult_1_right by (rule trans_le_add1)
  from this v have lt: "?v < 2 ^ 32" by (rule le_less_trans)
  then have u: "unat (acc * 16 + of_nat d) = ?v"
  proof -
    have "acc * 16 + of_nat d = (of_nat ?v :: u32)" by simp
    then show ?thesis using lt by (simp only: unat_of_nat) simp
  qed
  have "parse_digits (acc * 16 + of_nat d) s = Inr (of_nat (?v * 16 ^ length ds' + hex_value ds'))"
    using Cons.IH [OF d(2), of "acc * 16 + of_nat d"] v by (simp only: u)
  then show ?case
    using lt d by (simp add: algebra_simps)
qed simp

lemma parse_digits_Inr: "parse_digits acc s = Inr w \<Longrightarrow> \<exists>ds. digits_of s = Some ds"
  by (induction s arbitrary: acc) (auto split: option.splits if_splits)

lemma parse_digits_faults: "parse_digits acc s = Inl e \<Longrightarrow> \<exists>x. e = Fault x"
  by (induction s arbitrary: acc) (auto split: option.splits if_splits)

lemma from_hex_faults: "from_hex s = Inl e \<Longrightarrow> \<exists>x. e = Fault x"
  by (auto simp: from_hex_def split: if_splits dest: parse_digits_faults)

text \<open>
  A text of a word: eight digits, or a plus sign and seven digits. The parser accepts
  these and nothing else of that length.
\<close>

definition word_text :: "str \<Rightarrow> u32 \<Rightarrow> bool" where
  "word_text s w \<longleftrightarrow> length s = 8 \<and>
     (\<exists>ds. digits_of (if hd s = 0x2B then tl s else s) = Some ds \<and> w = of_nat (hex_value ds))"

lemma from_hex_word_text:
  assumes "length s = 8"
  shows "from_hex s = Inr w \<longleftrightarrow> word_text s w"
proof -
  let ?s = "if hd s = 0x2B then tl s else s"
  have ne: "s \<noteq> []" "s \<noteq> [0x2B]" "s \<noteq> [0x2D]" using assms by auto
  have h: "from_hex s = parse_digits 0 ?s" by (simp add: from_hex_def ne)
  have "parse_digits 0 ?s = Inr (of_nat (hex_value ds))" if d: "digits_of ?s = Some ds" for ds
  proof -
    have "length ds \<le> 8" using digits_of_length [OF d] assms by (simp split: if_splits)
    then have "hex_value ds < 2 ^ 32"
      using hex_value_lt [OF digits_of_lt [OF d]] power_increasing [of "length ds" 8 "16 :: nat"] by simp
    then show ?thesis using parse_digits_value [OF d, of 0] by simp
  qed
  then show ?thesis
    unfolding h word_text_def using parse_digits_Inr [of 0 ?s w] assms by auto
qed

lemma word_text_ascii: "word_text s w \<Longrightarrow> ascii s"
  by (cases s) (auto simp: word_text_def simp del: digits_of_simps dest!: digits_of_ascii split: if_splits)

lemma format_08x_text:
  "word_text (format_08x w) w" "length (format_08x w) = 8" "\<not> is_whitespace (hd (format_08x w))"
  "\<not> is_whitespace (last (format_08x w))" "list_all (\<lambda>c. \<exists>d < 16. c = hex_char d) (format_08x w)"
proof -
  let ?ds = "hex_digits (unat w)"
  let ?z = "replicate (8 - length ?ds) 0 @ ?ds"
  have "unat w < 16 ^ Suc 7" using unsigned_less [of w] by simp
  then have len: "length ?ds \<le> 8" using length_hex_digits [of "unat w" 7] by simp
  have f: "format_08x w = map hex_char ?z"
    by (simp add: format_08x_def hex_char_def map_replicate_const)
  have lt: "list_all (\<lambda>d. d < 16) ?z" using hex_digits_bounds(1) [of "unat w"] by (auto simp: list_all_iff)
  then have d: "digits_of (format_08x w) = Some ?z" unfolding f by (rule digits_of_hex_chars)
  have "hex_value (replicate k 0 @ ds) = hex_value ds" for k ds
    by (induction k) simp_all
  then have v: "hex_value ?z = unat w" by (simp add: hex_value_digits)
  show l: "length (format_08x w) = 8" using len unfolding f by simp
  show a: "list_all (\<lambda>c. \<exists>d < 16. c = hex_char d) (format_08x w)"
    using lt unfolding f list_all_iff set_map by blast
  have ws: "\<not> is_whitespace (hex_char d) \<and> hex_char d \<noteq> 0x2B" if "d < 16" for d
    using that by (auto simp: is_whitespace_def hex_char_def)
  have ne: "format_08x w \<noteq> []" using l by auto
  show "\<not> is_whitespace (hd (format_08x w))" "\<not> is_whitespace (last (format_08x w))"
    using a ws hd_in_set [OF ne] last_in_set [OF ne] by (auto simp: list_all_iff)
  have "hd (format_08x w) \<noteq> 0x2B" using a ws hd_in_set [OF ne] by (auto simp: list_all_iff)
  then show "word_text (format_08x w) w" using l d v by (simp add: word_text_def)
qed

section \<open>UTF-8\<close>

text \<open>
  \<open>String::from_utf8\<close>: shortest forms only, no surrogates, nothing above \<open>0x10FFFF\<close>.
\<close>

definition continues :: "u8 \<Rightarrow> bool" where
  "continues b \<longleftrightarrow> 0x80 \<le> b \<and> b \<le> 0xBF"

definition tail_bits :: "u8 \<Rightarrow> nat" where
  "tail_bits b = unat b - 0x80"

fun utf8_decode :: "u8 list \<Rightarrow> str option" where
  "utf8_decode [] = Some []"
| "utf8_decode (b # bs) =
     (if b < 0x80 then map_option ((#) (unat b)) (utf8_decode bs)
      else if 0xC2 \<le> b \<and> b \<le> 0xDF then
        (case bs of
           b1 # bs' \<Rightarrow>
             if continues b1
             then map_option ((#) ((unat b - 0xC0) * 64 + tail_bits b1)) (utf8_decode bs')
             else None
         | [] \<Rightarrow> None)
      else if 0xE0 \<le> b \<and> b \<le> 0xEF then
        (case bs of
           b1 # b2 # bs' \<Rightarrow>
             (let c = (unat b - 0xE0) * 4096 + tail_bits b1 * 64 + tail_bits b2
              in if continues b1 \<and> continues b2 \<and> 0x800 \<le> c \<and> \<not> (0xD800 \<le> c \<and> c \<le> 0xDFFF)
                 then map_option ((#) c) (utf8_decode bs') else None)
         | _ \<Rightarrow> None)
      else if 0xF0 \<le> b \<and> b \<le> 0xF4 then
        (case bs of
           b1 # b2 # b3 # bs' \<Rightarrow>
             (let c = (unat b - 0xF0) * 262144 + tail_bits b1 * 4096 + tail_bits b2 * 64 + tail_bits b3
              in if continues b1 \<and> continues b2 \<and> continues b3 \<and> 0x10000 \<le> c \<and> c \<le> 0x10FFFF
                 then map_option ((#) c) (utf8_decode bs') else None)
         | _ \<Rightarrow> None)
      else None)"

declare utf8_decode.simps(2) [simp del]

text \<open>\<open>str::as_bytes\<close>\<close>

definition utf8_char :: "nat \<Rightarrow> u8 list" where
  "utf8_char c =
     (if c < 0x80 then [of_nat c]
      else if c < 0x800 then [of_nat (0xC0 + c div 64), of_nat (0x80 + c mod 64)]
      else if c < 0x10000 then
        [of_nat (0xE0 + c div 4096), of_nat (0x80 + c div 64 mod 64), of_nat (0x80 + c mod 64)]
      else [of_nat (0xF0 + c div 262144), of_nat (0x80 + c div 4096 mod 64),
            of_nat (0x80 + c div 64 mod 64), of_nat (0x80 + c mod 64)])"

definition utf8_encode :: "str \<Rightarrow> u8 list" where
  "utf8_encode s = concat (map utf8_char s)"

definition is_char :: "nat \<Rightarrow> bool" where
  "is_char c \<longleftrightarrow> c \<le> 0x10FFFF \<and> \<not> (0xD800 \<le> c \<and> c \<le> 0xDFFF)"

lemma length_utf8_encode: "length (utf8_encode s) = str_len s"
  by (induction s) (simp_all add: utf8_encode_def utf8_char_def utf8_len_def)

lemma unat_of_byte: "n < 256 \<Longrightarrow> unat (of_nat n :: u8) = n"
  by (simp add: unat_of_nat)

lemma tail_byte:
  assumes "k < 64"
  shows "continues (of_nat (0x80 + k))" "tail_bits (of_nat (0x80 + k)) = k"
proof -
  have u: "unat (of_nat (0x80 + k) :: u8) = 0x80 + k" using assms by (intro unat_of_byte) simp
  show "tail_bits (of_nat (0x80 + k)) = k" unfolding tail_bits_def u by simp
  show "continues (of_nat (0x80 + k))"
    unfolding continues_def word_le_nat_alt u using assms by simp
qed

lemma utf8_decode_1: "unat b < 0x80 \<Longrightarrow> utf8_decode (b # bs) = map_option ((#) (unat b)) (utf8_decode bs)"
  by (simp add: utf8_decode.simps word_less_nat_alt)

lemma utf8_decode_2:
  assumes "0xC2 \<le> unat b" "unat b \<le> 0xDF" "continues b1"
  shows "utf8_decode (b # b1 # bs) = map_option ((#) ((unat b - 0xC0) * 64 + tail_bits b1)) (utf8_decode bs)"
  using assms by (subst utf8_decode.simps) (simp add: word_less_nat_alt word_le_nat_alt)

lemma utf8_decode_3:
  assumes "0xE0 \<le> unat b" "unat b \<le> 0xEF" "continues b1" "continues b2"
    and "c = (unat b - 0xE0) * 4096 + tail_bits b1 * 64 + tail_bits b2" "0x800 \<le> c" "is_char c"
  shows "utf8_decode (b # b1 # b2 # bs) = map_option ((#) c) (utf8_decode bs)"
  using assms by (subst utf8_decode.simps) (simp add: word_less_nat_alt word_le_nat_alt is_char_def Let_def)

lemma utf8_decode_4:
  assumes "0xF0 \<le> unat b" "unat b \<le> 0xF4" "continues b1" "continues b2" "continues b3"
    and "c = (unat b - 0xF0) * 262144 + tail_bits b1 * 4096 + tail_bits b2 * 64 + tail_bits b3"
    and "0x10000 \<le> c" "is_char c"
  shows "utf8_decode (b # b1 # b2 # b3 # bs) = map_option ((#) c) (utf8_decode bs)"
  using assms by (subst utf8_decode.simps) (simp add: word_less_nat_alt word_le_nat_alt is_char_def Let_def)

lemma utf8_decode_char:
  assumes "is_char c"
  shows "utf8_decode (utf8_char c @ bs) = map_option ((#) c) (utf8_decode bs)"
proof -
  have t: "continues (of_nat (0x80 + x mod 64))" "tail_bits (of_nat (0x80 + x mod 64)) = x mod 64" for x
    using tail_byte [of "x mod 64"] by simp_all
  have d: "c div 64 * 64 + c mod 64 = c" "c div 4096 * 64 + c div 64 mod 64 = c div 64"
      "c div 262144 * 64 + c div 4096 mod 64 = c div 4096"
    using div_mult_mod_eq [of c 64] div_mult_mod_eq [of "c div 64" 64] div_mult_mod_eq [of "c div 4096" 64]
    by (simp_all add: div_mult2_eq [symmetric])
  consider "c < 0x80" | "0x80 \<le> c" "c < 0x800" | "0x800 \<le> c" "c < 0x10000" | "0x10000 \<le> c" by linarith
  then show ?thesis
  proof cases
    case 1
    then have "unat (of_nat c :: u8) = c" by (intro unat_of_byte) simp
    then show ?thesis using 1 utf8_decode_1 [of "of_nat c"] by (simp add: utf8_char_def)
  next
    case 2
    define b :: u8 where "b = of_nat (0xC0 + c div 64)"
    define b1 :: u8 where "b1 = of_nat (0x80 + c mod 64)"
    have "unat b = 0xC0 + c div 64" unfolding b_def using 2 by (intro unat_of_byte) simp
    moreover have "continues b1" "tail_bits b1 = c mod 64" unfolding b1_def by (rule t)+
    ultimately have "utf8_decode (b # b1 # bs) = map_option ((#) c) (utf8_decode bs)"
      using 2 by (simp add: utf8_decode_2)
    then show ?thesis using 2 by (simp add: utf8_char_def b_def b1_def)
  next
    case 3
    define b :: u8 where "b = of_nat (0xE0 + c div 4096)"
    define b1 b2 :: u8 where "b1 = of_nat (0x80 + c div 64 mod 64)" and "b2 = of_nat (0x80 + c mod 64)"
    have "unat b = 0xE0 + c div 4096" unfolding b_def using 3 by (intro unat_of_byte) simp
    moreover have "continues b1" "tail_bits b1 = c div 64 mod 64" unfolding b1_def by (rule t)+
    moreover have "continues b2" "tail_bits b2 = c mod 64" unfolding b2_def by (rule t)+
    moreover have "c div 4096 * 4096 + c div 64 mod 64 * 64 + c mod 64 = c" using d by linarith
    ultimately have "utf8_decode (b # b1 # b2 # bs) = map_option ((#) c) (utf8_decode bs)"
      using 3 assms by (intro utf8_decode_3) simp_all
    then show ?thesis using 3 by (simp add: utf8_char_def b_def b1_def b2_def)
  next
    case 4
    define b :: u8 where "b = of_nat (0xF0 + c div 262144)"
    define b1 b2 b3 :: u8 where "b1 = of_nat (0x80 + c div 4096 mod 64)"
      and "b2 = of_nat (0x80 + c div 64 mod 64)" and "b3 = of_nat (0x80 + c mod 64)"
    have "c div 262144 \<le> 0x10FFFF div 262144" using assms by (intro div_le_mono) (simp add: is_char_def)
    then have "c div 262144 \<le> 4" by simp
    moreover from this have "unat b = 0xF0 + c div 262144" unfolding b_def by (intro unat_of_byte) simp
    moreover have "continues b1" "tail_bits b1 = c div 4096 mod 64" unfolding b1_def by (rule t)+
    moreover have "continues b2" "tail_bits b2 = c div 64 mod 64" unfolding b2_def by (rule t)+
    moreover have "continues b3" "tail_bits b3 = c mod 64" unfolding b3_def by (rule t)+
    moreover have "c div 262144 * 262144 + c div 4096 mod 64 * 4096 + c div 64 mod 64 * 64 + c mod 64 = c"
      using d by linarith
    ultimately have "utf8_decode (b # b1 # b2 # b3 # bs) = map_option ((#) c) (utf8_decode bs)"
      using 4 assms by (intro utf8_decode_4) simp_all
    then show ?thesis using 4 by (simp add: utf8_char_def b_def b1_def b2_def b3_def)
  qed
qed

text \<open>Decoding what a string encodes to gives the string back.\<close>

lemma utf8_roundtrip: "list_all is_char s \<Longrightarrow> utf8_decode (utf8_encode s) = Some s"
  by (induction s) (simp_all add: utf8_encode_def utf8_decode_char)

end
