(* ===== verification/Rust_Format.thy ===== *)
theory Rust_Format
  imports Rust_Strings
begin

text \<open>
  What the programs print: decimal numbers (\<open>{}\<close> of the unsigned integers), literal text,
  and the derived \<open>Debug\<close> of slices, structs and tuples (\<open>{:?}\<close>). A line is printed
  by \<open>println!\<close>; the output of a program is the list of its lines, a leading \<open>\n\<close> is the
  first character of its line.
\<close>

section \<open>Literal text\<close>

definition chars :: "string \<Rightarrow> str" where
  "chars s = map of_char s"

lemma chars_simps [simp]: "chars [] = []" "chars (c # s) = of_char c # chars s"
  by (simp_all add: chars_def)

text \<open>Three characters outside ASCII: check mark, ballot x, em dash.\<close>

definition check_mark :: nat where "check_mark = 0x2713"
definition ballot_x :: nat where "ballot_x = 0x2717"
definition em_dash :: nat where "em_dash = 0x2014"

definition newline :: nat where "newline = 10"

section \<open>Decimal numbers\<close>

fun dec_digits :: "nat \<Rightarrow> nat list" where
  "dec_digits n = (if n < 10 then [n] else dec_digits (n div 10) @ [n mod 10])"

declare dec_digits.simps [simp del]

definition show_nat :: "nat \<Rightarrow> str" where
  "show_nat n = map (\<lambda>d. 0x30 + d) (dec_digits n)"

definition dec_value :: "nat list \<Rightarrow> nat" where
  "dec_value ds = foldl (\<lambda>a d. a * 10 + d) 0 ds"

lemma dec_value_snoc [simp]: "dec_value [] = 0" "dec_value (ds @ [d]) = dec_value ds * 10 + d"
  by (simp_all add: dec_value_def)

lemma dec_value_digits: "dec_value (dec_digits n) = n"
proof (induction n rule: dec_digits.induct)
  case (1 n)
  then show ?case using dec_value_snoc(2) [of "[]" n]
    by (subst dec_digits.simps) simp
qed

lemma dec_digits_bounds: "list_all (\<lambda>d. d < 10) (dec_digits n)"
  by (induction n rule: dec_digits.induct) (subst dec_digits.simps; simp)

text \<open>Different numbers are printed differently, with characters that are digits.\<close>

lemma show_nat_inject [simp]: "show_nat m = show_nat n \<longleftrightarrow> m = n"
proof
  assume "show_nat m = show_nat n"
  moreover have "inj ((+) (0x30 :: nat))" by simp
  ultimately have "dec_digits m = dec_digits n"
    unfolding show_nat_def by (simp only: inj_map_eq_map)
  then show "m = n" by (metis dec_value_digits)
qed simp

lemma show_nat_digits: "list_all (\<lambda>c. 0x30 \<le> c \<and> c \<le> 0x39) (show_nat n)"
  using dec_digits_bounds [of n] by (auto simp: show_nat_def list_all_iff)

lemma show_nat_small: "n < 10 \<Longrightarrow> show_nat n = [0x30 + n]"
  by (simp add: show_nat_def dec_digits.simps)

section \<open>Debug\<close>

text \<open>\<open>{:?}\<close> of a slice of integers\<close>

primrec show_items :: "str list \<Rightarrow> str" where
  "show_items [] = []"
| "show_items (s # ss) = s @ concat (map (\<lambda>s. chars '', '' @ s) ss)"

definition debug_list :: "nat list \<Rightarrow> str" where
  "debug_list ns = chars ''['' @ show_items (map show_nat ns) @ chars '']''"

text \<open>The derived \<open>Debug\<close> of a tuple variant of one field and of a struct variant.\<close>

definition debug_tuple :: "string \<Rightarrow> nat \<Rightarrow> str" where
  "debug_tuple name n = chars name @ chars ''('' @ show_nat n @ chars '')''"

definition debug_struct :: "string \<Rightarrow> (string \<times> nat) list \<Rightarrow> str" where
  "debug_struct name fs =
     chars name @ chars '' { '' @ show_items (map (\<lambda>(f, n). chars f @ chars '': '' @ show_nat n) fs) @ chars '' }''"

section \<open>Lines and ends\<close>

text \<open>
  A program that prints: its lines and how it ends. \<open>print\<close> puts lines before what the rest
  of the program prints.
\<close>

type_synonym 'a printed = "str list \<times> 'a"

definition print :: "str list \<Rightarrow> 'a printed \<Rightarrow> 'a printed" where
  "print ls p = (ls @ fst p, snd p)"

lemma print_simps [simp]:
  "fst (print ls p) = ls @ fst p" "snd (print ls p) = snd p" "print ls (ls', x) = (ls @ ls', x)"
  by (simp_all add: print_def)

text \<open>The rest of a program after a step that may fail: on a failure nothing more is printed.\<close>

definition then_print :: "('e, 'a) res \<Rightarrow> ('a \<Rightarrow> ('e, 'b) res printed) \<Rightarrow> ('e, 'b) res printed" where
  "then_print r f = (case r of Inl e \<Rightarrow> ([], Inl e) | Inr a \<Rightarrow> f a)"

lemma then_print_simps [simp]: "then_print (Inl e) f = ([], Inl e)" "then_print (Inr a) f = f a"
  by (simp_all add: then_print_def)

lemma then_print_Inr_iff: "then_print r f = (ls, Inr b) \<longleftrightarrow> (\<exists>a. r = Inr a \<and> f a = (ls, Inr b))"
  by (cases r) simp_all

lemma print_Inr_iff: "print ls p = (ls', x) \<longleftrightarrow> (\<exists>rest. p = (rest, x) \<and> ls' = ls @ rest)"
  by (cases p) auto

end
