(* ===== verification/Predicate_Run.thy ===== *)
theory Predicate_Run
  imports Harness Rust_Format
begin

text \<open>
  A program run end to end: the source of the balance predicate (\<open>process_instruction\<close> of
  \<open>m6-interpreter/programs/balance-predicate/src/lib.rs\<close>; its compiled text is not part of the
  repository), what the guest commits for any program text on the harness's input buffer, and
  what the host prover (\<open>prove_predicate\<close> of \<open>m6-interpreter/prover/src/main.rs\<close>) reports.
\<close>

section \<open>The predicate\<close>

datatype program_error = InvalidInstructionData | Custom u32

definition process_instruction :: "u8 list \<Rightarrow> (program_error, unit) res" where
  "process_instruction instruction_data =
     (if length instruction_data < 16 then Inl (Fault InvalidInstructionData)
      else bind_res (slice instruction_data 0 8) (\<lambda>bs. let balance = from_le bs :: u64 in
           bind_res (slice instruction_data 8 16) (\<lambda>ts. let threshold = from_le ts :: u64 in
             if threshold \<le> balance then Inr () else Inl (Fault (Custom 1)))))"

lemma process_decides:
  "process_instruction (to_le 8 (b :: u64) @ to_le 8 (th :: u64)) = (if th \<le> b then Inr () else Inl (Fault (Custom 1)))"
  by (simp add: process_instruction_def slice_def Let_def)

lemma instruction_data: "take 16 (drop 16 (build_input_buffer balance threshold)) = to_le 8 balance @ to_le 8 threshold"
  by (simp add: build_input_buffer_def)

text \<open>
  On the instruction data the input buffer carries, the predicate succeeds exactly when
  the balance is at least the threshold and otherwise fails with code 1.
\<close>

theorem process_instruction_decides:
  "process_instruction (take 16 (drop 16 (build_input_buffer balance threshold))) =
   (if threshold \<le> balance then Inr () else Inl (Fault (Custom 1)))"
  unfolding instruction_data by (rule process_decides)

text \<open>The machine the harness and the guest start on a balance and a threshold.\<close>

abbreviation input_vm :: "u64 \<Rightarrow> u64 \<Rightarrow> vm" where
  "input_vm balance threshold \<equiv> entry_vm (build_input_buffer balance threshold)"

section \<open>The guest and the host prover\<close>

text \<open>
  The values the host writes to the zkVM's input, in order, and the operations that write
  them; \<open>'s\<close> is the type of the input stream, shared with the guest's reads.
\<close>

record 's env_writer =
  env_empty :: 's
  put_u32 :: "'s \<Rightarrow> u32 \<Rightarrow> 's"
  put_u64 :: "'s \<Rightarrow> u64 \<Rightarrow> 's"
  put_u8 :: "'s \<Rightarrow> u8 \<Rightarrow> 's"

definition build_env :: "'s env_writer \<Rightarrow> u64 list \<Rightarrow> u8 list \<Rightarrow> 's" where
  "build_env w bytecode input_buffer =
     (let s = put_u32 w (env_empty w) (of_nat (length bytecode));
          s = foldl (put_u64 w) s bytecode;
          s = put_u32 w s (of_nat (length input_buffer))
      in foldl (put_u8 w) s input_buffer)"

datatype prover_error = ReadFailed | ProveFailed | VerifyFailed

text \<open>The host prover has a copy of the harness's function, written without a type.\<close>

definition host_input_buffer :: "u64 \<Rightarrow> u64 \<Rightarrow> u8 list" where
  "host_input_buffer balance threshold =
     to_le 8 (0 :: u64) @ to_le 8 (16 :: u64) @ to_le 8 balance @ to_le 8 threshold @ replicate 32 0"

lemma host_input_buffer_eq [simp]: "host_input_buffer b th = build_input_buffer b th"
  by (simp add: host_input_buffer_def build_input_buffer_def)

definition proof_line :: "u64 \<Rightarrow> bool \<Rightarrow> str" where
  "proof_line r0 success = chars ''  r0='' @ show_nat (unat r0) @ chars '', success='' @
     chars (if success then ''true'' else ''false'')"

text \<open>
  The parameters: the content of the program file, if it can be read, and the zkVM's prover,
  receipt verifier and journal decoder. The line is printed last, so that a failure prints
  nothing.
\<close>

definition prove_predicate ::
  "target \<Rightarrow> u8 list option \<Rightarrow> 's env_writer \<Rightarrow> ('s \<Rightarrow> 'r option) \<Rightarrow> ('r \<Rightarrow> bool) \<Rightarrow>
   ('r \<Rightarrow> (u64 \<times> bool) option) \<Rightarrow> u64 \<Rightarrow> u64 \<Rightarrow> (prover_error, str \<times> bool) res"
where
  "prove_predicate t file w prove verify journal balance threshold =
     bind_res (ok_or ReadFailed file) (\<lambda>so.
     bind_res (load_text t so) (\<lambda>bytecode.
     let input_buffer = host_input_buffer balance threshold;
         env = build_env w bytecode input_buffer
     in bind_res (ok_or ProveFailed (prove env)) (\<lambda>receipt.
        bind_res (require (verify receipt) VerifyFailed) (\<lambda>_.
        bind_res (unwrap (journal receipt)) (\<lambda>(r0, success). Inr (proof_line r0 success, success))))))"

text \<open>
  What the code relies on of the zkVM. Values are read in the order they were written, with
  the types they were written with; \<open>pending\<close> is the sequence still to be read.
\<close>

datatype env_value = U32 u32 | U64 u64 | U8 u8

definition env_channel :: "'s env_writer \<Rightarrow> 's env_reader \<Rightarrow> ('s \<Rightarrow> env_value list) \<Rightarrow> bool" where
  "env_channel w rd pending \<longleftrightarrow>
     pending (env_empty w) = [] \<and>
     (\<forall>s v. pending (put_u32 w s v) = pending s @ [U32 v]) \<and>
     (\<forall>s v. pending (put_u64 w s v) = pending s @ [U64 v]) \<and>
     (\<forall>s v. pending (put_u8 w s v) = pending s @ [U8 v]) \<and>
     (\<forall>s v vs. pending s = U32 v # vs \<longrightarrow> (\<exists>s'. env_u32 rd s = Inr (v, s') \<and> pending s' = vs)) \<and>
     (\<forall>s v vs. pending s = U64 v # vs \<longrightarrow> (\<exists>s'. env_u64 rd s = Inr (v, s') \<and> pending s' = vs)) \<and>
     (\<forall>s v vs. pending s = U8 v # vs \<longrightarrow> (\<exists>s'. env_u8 rd s = Inr (v, s') \<and> pending s' = vs))"

text \<open>A receipt that verifies holds what the guest commits on the proved input.\<close>

definition zkvm_sound ::
  "'s env_reader \<Rightarrow> ('s \<Rightarrow> 'r option) \<Rightarrow> ('r \<Rightarrow> bool) \<Rightarrow> ('r \<Rightarrow> (u64 \<times> bool) option) \<Rightarrow> bool"
where
  "zkvm_sound rd prove verify journal \<longleftrightarrow>
     (\<forall>s r. prove s = Some r \<and> verify r \<longrightarrow>
        (\<exists>out. guest_main guest32 rd s = Some (Inr out) \<and> journal r = Some out))"

lemma read_many_pending:
  assumes "\<And>s v vs. pending s = K v # vs \<Longrightarrow> \<exists>s'. rd s = Inr (v, s') \<and> pending s' = vs"
    and "pending s = map K xs @ rest"
  shows "\<exists>s'. read_many rd (length xs) s = Inr (xs, s') \<and> pending s' = rest"
  using assms(2)
proof (induction xs arbitrary: s)
  case (Cons x xs)
  obtain s1 where s1: "rd s = Inr (x, s1)" "pending s1 = map K xs @ rest"
    using assms(1) [of s x "map K xs @ rest"] Cons.prems by auto
  then show ?case using Cons.IH [of s1] by auto
qed simp

lemma pending_foldl:
  assumes "\<And>s v. pending (put s v) = pending s @ [K v]"
  shows "pending (foldl put s xs) = pending s @ map K xs"
  by (induction xs arbitrary: s) (simp_all add: assms)

lemma pending_build_env:
  assumes "env_channel w rd pending"
  shows "pending (build_env w bytecode buf) =
     U32 (of_nat (length bytecode)) # map U64 bytecode @ U32 (of_nat (length buf)) # map U8 buf"
proof -
  have 64: "pending (foldl (put_u64 w) s xs) = pending s @ map U64 xs" for s xs
    using assms by (intro pending_foldl) (simp add: env_channel_def)
  have 8: "pending (foldl (put_u8 w) s xs) = pending s @ map U8 xs" for s xs
    using assms by (intro pending_foldl) (simp add: env_channel_def)
  show ?thesis
    using assms by (simp add: build_env_def Let_def 64 8 env_channel_def)
qed

lemma unat_len32: "n < 2 ^ 32 \<Longrightarrow> unat (of_nat n :: u32) = n"
  by (simp add: unat_of_nat)

lemma guest_inputs_build_env:
  assumes ch: "env_channel w rd pending" and "target_ok t"
    and "length bytecode < 2 ^ 28" "length buf < 2 ^ 31"
  shows "guest_inputs t rd (build_env w bytecode buf) = Inr (bytecode, buf)"
proof -
  let ?s = "build_env w bytecode buf"
  have r32: "\<exists>s'. env_u32 rd s = Inr (v, s') \<and> pending s' = vs" if "pending s = U32 v # vs" for s v vs
    using ch that by (simp add: env_channel_def)
  have r64: "\<exists>s'. env_u64 rd s = Inr (v, s') \<and> pending s' = vs" if "pending s = U64 v # vs" for s v vs
    using ch that by (simp add: env_channel_def)
  have r8: "\<exists>s'. env_u8 rd s = Inr (v, s') \<and> pending s' = vs" if "pending s = U8 v # vs" for s v vs
    using ch that by (simp add: env_channel_def)
  obtain s1 where s1: "env_u32 rd ?s = Inr (of_nat (length bytecode), s1)"
      "pending s1 = map U64 bytecode @ U32 (of_nat (length buf)) # map U8 buf"
    using r32 [OF pending_build_env [OF ch]] by blast
  obtain s2 where s2: "read_many (env_u64 rd) (length bytecode) s1 = Inr (bytecode, s2)"
      "pending s2 = U32 (of_nat (length buf)) # map U8 buf"
    using read_many_pending [of pending U64 "env_u64 rd", OF r64 s1(2)] by blast
  obtain s3 where s3: "env_u32 rd s2 = Inr (of_nat (length buf), s3)" "pending s3 = map U8 buf @ []"
    using r32 [OF s2(2)] by auto
  obtain s4 where s4: "read_many (env_u8 rd) (length buf) s3 = Inr (buf, s4)"
    using read_many_pending [of pending U8 "env_u8 rd", OF r8 s3(2)] by blast
  have c: "with_capacity t (8 * length bytecode) = (Inr () :: (sbpf_error, unit) res)"
      "with_capacity t (length buf) = (Inr () :: (sbpf_error, unit) res)"
    using assms(2-4) by (auto simp: with_capacity_def target_ok_def)
  have l: "unat (of_nat (length bytecode) :: u32) = length bytecode"
      "unat (of_nat (length buf) :: u32) = length buf"
    using assms(3,4) by (simp_all add: unat_len32)
  show ?thesis by (simp add: guest_inputs_def s1 s2 s3 s4 l c)
qed

lemma guest_main_build_env:
  assumes "env_channel w rd pending" "target_ok t" "length bytecode < 2 ^ 28" "length buf < 2 ^ 31"
  shows "guest_main t rd (build_env w bytecode buf) =
     map_option committed (run t (guest_syscalls t) bytecode (entry_vm buf))"
  using assms guest_inputs_build_env [OF assms] guest_entry_setup [OF assms(2), of buf]
  by (simp add: guest_main_def)

text \<open>
  C28: on the input the host writes, the guest runs the host's program on the machine that
  holds the host's buffer, and commits \<open>r0\<close> with \<open>true\<close> when the run returns, the
  largest \<open>u64\<close> with \<open>false\<close> when it stops with an error; it panics or runs forever when
  the interpreter does.
\<close>

theorem guest_commits_run:
  assumes "env_channel w rd pending" "target_ok t" "length bytecode < 2 ^ 28" "length buf < 2 ^ 31"
  shows "guest_main t rd (build_env w bytecode buf) =
     map_option committed (run t (guest_syscalls t) bytecode (entry_vm buf))"
  by (rule guest_main_build_env [OF assms])

text \<open>A channel: the list of the values not read yet.\<close>

definition list_writer :: "env_value list env_writer" where
  "list_writer = \<lparr>env_empty = [], put_u32 = (\<lambda>s v. s @ [U32 v]), put_u64 = (\<lambda>s v. s @ [U64 v]),
     put_u8 = (\<lambda>s v. s @ [U8 v])\<rparr>"

definition list_reader :: "env_value list env_reader" where
  "list_reader =
     \<lparr>env_u32 = (\<lambda>s. case s of U32 v # vs \<Rightarrow> Inr (v, vs) | _ \<Rightarrow> Inl Panic),
      env_u64 = (\<lambda>s. case s of U64 v # vs \<Rightarrow> Inr (v, vs) | _ \<Rightarrow> Inl Panic),
      env_u8 = (\<lambda>s. case s of U8 v # vs \<Rightarrow> Inr (v, vs) | _ \<Rightarrow> Inl Panic)\<rparr>"

lemma list_channel: "env_channel list_writer list_reader id"
  by (simp add: env_channel_def list_writer_def list_reader_def)

text \<open>The program that exits at once returns 0 on every input.\<close>

lemma exit_run: "\<exists>vm. run t sys [0x95] (input_vm b th) = Some (Inr (0, vm)) \<and> return_data vm = []"
proof -
  have "step t sys [0x95] (input_vm b th) = Inr (Exit 0 (input_vm b th\<lparr>pc := 1\<rparr>))"
    by (simp add: step_fetched exec_insn_call call_opcodes_def exec_call_def fetched_def decode_def
        entry_vm_def get_reg_def)
  then have "run_fuel (Suc 0) t sys [0x95] (input_vm b th) = Some (Inr (0, input_vm b th\<lparr>pc := 1\<rparr>))"
    by simp
  from run_fuel_run [OF this] show ?thesis by (intro exI conjI) (assumption, simp add: entry_vm_def)
qed

theorem guest_commits_run_witness:
  "guest_main guest32 list_reader (build_env list_writer [0x95] (build_input_buffer 49 50)) = Some (Inr (0, True))"
proof -
  obtain vm where "run guest32 (guest_syscalls guest32) [0x95] (input_vm 49 50) = Some (Inr (0, vm))"
    using exit_run by blast
  then show ?thesis
    using guest_commits_run [OF list_channel, of guest32 "[0x95]" "build_input_buffer 49 50"]
    by (simp add: committed_def)
qed

lemma committed_flag: "committed r = Inr (x, ok) \<Longrightarrow> ok \<longleftrightarrow> (\<exists>r0 vm. r = Inr (r0, vm))"
proof (cases r)
  case (Inl e)
  then show "committed r = Inr (x, ok) \<Longrightarrow> ok \<longleftrightarrow> (\<exists>r0 vm. r = Inr (r0, vm))"
    by (cases e) (auto simp: committed_def)
qed (auto simp: committed_def split: prod.splits)

lemma proved_run:
  assumes "env_channel w rd pending" "zkvm_sound rd prove verify journal"
    and "load_text t so = (Inr bytecode :: (prover_error, u64 list) res)" "length bytecode < 2 ^ 28"
    and "prove_predicate t (Some so) w prove verify journal balance threshold = Inr (line, ok)"
  obtains r r0 where "run guest32 (guest_syscalls guest32) bytecode (input_vm balance threshold) = Some r"
    "committed r = Inr (r0, ok)" "line = proof_line r0 ok"
proof -
  let ?env = "build_env w bytecode (build_input_buffer balance threshold)"
  obtain receipt r0 where r: "prove ?env = Some receipt" "verify receipt" "journal receipt = Some (r0, ok)"
      "line = proof_line r0 ok"
    using assms(3,5)
    by (auto simp: prove_predicate_def Let_def bind_res_Inr_iff unwrap_def split: option.splits)
  then have "guest_main guest32 rd ?env = Some (Inr (r0, ok))"
    using assms(2) unfolding zkvm_sound_def by force
  then have "map_option committed (run guest32 (guest_syscalls guest32) bytecode (input_vm balance threshold)) =
      Some (Inr (r0, ok))"
    using guest_main_build_env [OF assms(1) target_ok_guest32 assms(4), of "build_input_buffer balance threshold"]
    by simp
  then obtain r where "run guest32 (guest_syscalls guest32) bytecode (input_vm balance threshold) = Some r"
      "committed r = Inr (r0, ok)" by auto
  then show thesis using r(4) by (rule that)
qed

lemma reports_completion:
  assumes "env_channel w rd pending" "zkvm_sound rd prove verify journal"
    and "load_text t so = (Inr bytecode :: (prover_error, u64 list) res)" "length bytecode < 2 ^ 28"
    and "prove_predicate t (Some so) w prove verify journal balance threshold = Inr (line, ok)"
  shows "ok \<longleftrightarrow> (\<exists>r0 vm. run guest32 (guest_syscalls guest32) bytecode (input_vm balance threshold) =
     Some (Inr (r0, vm)))"
proof -
  obtain r r0 where "run guest32 (guest_syscalls guest32) bytecode (input_vm balance threshold) = Some r"
      "committed r = Inr (r0, ok)"
    by (rule proved_run [OF assms])
  then show ?thesis using committed_flag [of r r0 ok] by auto
qed

text \<open>
  What the host prover reports for a program is whether the interpreter run it proved
  returned: it reports \<open>true\<close> exactly when the run ended without a fault, whatever \<open>r0\<close>.
\<close>

theorem prove_predicate_reports_completion:
  assumes "env_channel w rd pending" "zkvm_sound rd prove verify journal"
    and "load_text t so = (Inr bytecode :: (prover_error, u64 list) res)" "length bytecode < 2 ^ 28"
    and "prove_predicate t (Some so) w prove verify journal balance threshold = Inr (line, ok)"
  shows "ok \<longleftrightarrow> (\<exists>r0 vm. run guest32 (guest_syscalls guest32) bytecode (input_vm balance threshold) =
     Some (Inr (r0, vm)))"
  by (rule reports_completion [OF assms])

text \<open>A prover that returns the input as its receipt.\<close>

definition demo_verify :: "env_value list \<Rightarrow> bool" where
  "demo_verify s = (case guest_main guest32 list_reader s of Some (Inr out) \<Rightarrow> True | _ \<Rightarrow> False)"

definition demo_journal :: "env_value list \<Rightarrow> (u64 \<times> bool) option" where
  "demo_journal s = (case guest_main guest32 list_reader s of Some (Inr out) \<Rightarrow> Some out | _ \<Rightarrow> None)"

lemma demo_zkvm_sound: "zkvm_sound list_reader Some demo_verify demo_journal"
  by (auto simp: zkvm_sound_def demo_verify_def demo_journal_def split: option.splits sum.splits)

lemma demo_elf_text: "load_text host64 demo_elf = (Inr [0x95] :: ('e, u64 list) res)"
  by (rule load_demo_elf) (simp add: host64_def)

lemma demo_proof:
  "prove_predicate host64 (Some demo_elf) list_writer Some demo_verify demo_journal b th = Inr (proof_line 0 True, True)"
proof -
  obtain vm where "run guest32 (guest_syscalls guest32) [0x95] (input_vm b th) = Some (Inr (0, vm))"
    using exit_run by blast
  then have "guest_main guest32 list_reader (build_env list_writer [0x95] (build_input_buffer b th)) =
      Some (Inr (0, True))"
    using guest_main_build_env [OF list_channel, of guest32 "[0x95]" "build_input_buffer b th"]
    by (simp add: committed_def)
  then show ?thesis
    by (simp add: prove_predicate_def demo_elf_text Let_def demo_verify_def demo_journal_def unwrap_def)
qed

theorem prove_predicate_reports_completion_witness:
  "True \<longleftrightarrow> (\<exists>r0 vm. run guest32 (guest_syscalls guest32) [0x95] (input_vm 49 50) = Some (Inr (r0, vm)))"
  by (rule prove_predicate_reports_completion [OF list_channel demo_zkvm_sound demo_elf_text _ demo_proof]) simp

end
