(* ===== verification/Conformance.thy ===== *)
theory Conformance
  imports Predicate_Run
begin

text \<open>
  The two programs that exercise the interpreter on the balance predicate: the conformance
  suite (\<open>main\<close> of \<open>m6-interpreter/conformance/src/main.rs\<close>) and the gate of milestone M6
  (\<open>main\<close> of \<open>m6-interpreter/prover/src/main.rs\<close>), and what their success says of the
  program they run.
\<close>

section \<open>The conformance suite\<close>

datatype case_status = Status_ok | Status_err u32

text \<open>A completed run is judged by its return data alone; the status is only printed.\<close>

definition case_status_of :: "u8 list \<Rightarrow> case_status" where
  "case_status_of ret_data =
     (if ret_data = [] then Status_ok
      else Status_err (if 4 \<le> length ret_data then from_le (take 4 ret_data) else 0))"

definition case_passes :: "u8 list \<Rightarrow> bool \<Rightarrow> bool" where
  "case_passes ret_data expect_ok \<longleftrightarrow> (case_status_of ret_data = Status_ok) = expect_ok"

definition show_status :: "case_status \<Rightarrow> str" where
  "show_status s = (case s of Status_ok \<Rightarrow> chars ''Ok''
     | Status_err code \<Rightarrow> chars ''Err('' @ show_nat (unat code) @ chars '')'')"

text \<open>The derived \<open>Debug\<close> of the interpreter's errors.\<close>

definition debug_error :: "sbpf_error \<Rightarrow> str" where
  "debug_error e = (case e of
       UnknownOpcode c \<Rightarrow> debug_tuple ''UnknownOpcode'' (unat c)
     | OutOfBounds p \<Rightarrow> debug_struct ''OutOfBounds'' [(''pc'', p)]
     | DivisionByZero \<Rightarrow> chars ''DivisionByZero''
     | InvalidMemoryAccess a n \<Rightarrow> debug_struct ''InvalidMemoryAccess'' [(''addr'', unat a), (''size'', n)]
     | CallStackOverflow \<Rightarrow> chars ''CallStackOverflow''
     | BadExit \<Rightarrow> chars ''BadExit'')"

text \<open>The line of a case whose run completed, and of one that stopped with an error.\<close>

definition result_line :: "string \<Rightarrow> u64 \<Rightarrow> u8 list \<Rightarrow> bool \<Rightarrow> str" where
  "result_line name r0 ret_data expect_ok =
     (let status = show_status (case_status_of ret_data)
      in if case_passes ret_data expect_ok
         then chars ''  '' @ [check_mark] @ chars '' '' @ chars name @ chars '' [r0='' @ show_nat (unat r0) @
           chars '', '' @ status @ chars '']''
         else chars ''  '' @ [ballot_x] @ chars '' '' @ chars name @ chars '' '' @ [em_dash] @ chars '' r0='' @
           show_nat (unat r0) @ chars '', '' @ status @ chars '' (expected '' @
           chars (if expect_ok then ''Ok'' else ''Err'') @ chars '')'')"

definition fault_line :: "string \<Rightarrow> sbpf_error \<Rightarrow> str" where
  "fault_line name e = chars ''  '' @ [ballot_x] @ chars '' '' @ chars name @ chars '' '' @ [em_dash] @
     chars '' '' @ debug_error e"

text \<open>
  The cases in order, with the counts of passed and failed ones so far: the lines printed and
  how it ends. A panic of the interpreter ends the suite, a run that never returns (\<open>None\<close>)
  keeps it from ending.
\<close>

type_synonym test_case = "string \<times> u64 \<times> u64 \<times> bool"

primrec run_cases ::
  "target \<Rightarrow> u64 list \<Rightarrow> test_case list \<Rightarrow> nat \<Rightarrow> nat \<Rightarrow> (unit, nat \<times> nat) res option printed"
where
  "run_cases t text [] passed failed = ([], Some (Inr (passed, failed)))"
| "run_cases t text (c # cs) passed failed =
     (case c of (name, b, th, expect_ok) \<Rightarrow>
        (case run_predicate t text b th of
           None \<Rightarrow> ([], None)
         | Some (Inr (r0, ret_data)) \<Rightarrow>
             print [result_line name r0 ret_data expect_ok]
               (if case_passes ret_data expect_ok then run_cases t text cs (passed + 1) failed
                else run_cases t text cs passed (failed + 1))
         | Some (Inl (Fault e)) \<Rightarrow> print [fault_line name e] (run_cases t text cs passed (failed + 1))
         | Some (Inl Panic) \<Rightarrow> ([], Some (Inl Panic))
         | Some (Inl Undefined) \<Rightarrow> ([], Some (Inl Undefined))))"

definition conformance_cases :: "test_case list" where
  "conformance_cases =
     [(''100 >= 50  (pass)'', 100, 50, True),
      (''100 >= 100 (pass)'', 100, 100, True),
      (''1 >= 0     (pass)'', 1, 0, True),
      (''u64::MAX >= 0 (pass)'', 0xFFFFFFFFFFFFFFFF, 0, True),
      (''49 < 50   (fail)'', 49, 50, True),
      (''0 < 1     (fail)'', 0, 1, True),
      (''0 < u64::MAX (fail)'', 0, 0xFFFFFFFFFFFFFFFF, True)]"

definition suite_header :: "u64 list \<Rightarrow> str list" where
  "suite_header text =
     [chars ''Loaded .text: '' @ show_nat (length text) @ chars '' instructions'',
      newline # chars ''--- all cases should complete with r0=0 (Solana v2 convention) ---'']"

definition suite_footer :: "nat \<Rightarrow> nat \<Rightarrow> str" where
  "suite_footer passed failed =
     newline # chars ''--- '' @ show_nat passed @ chars ''/'' @ show_nat (passed + failed) @ chars '' passed ---''"

text \<open>
  The lines and the exit code of the process, given the content of the program file if there
  is one.
\<close>

definition conformance_main :: "target \<Rightarrow> u8 list option \<Rightarrow> (unit, nat) res option printed" where
  "conformance_main t elf =
     (case elf of
        None \<Rightarrow> ([], Some (Inl Panic))
      | Some so \<Rightarrow>
          (case load_text t so of
             Inl e \<Rightarrow> ([], Some (Inl e))
           | Inr text \<Rightarrow>
               print (suite_header text)
                 (case run_cases t text conformance_cases 0 0 of
                    (ls, None) \<Rightarrow> (ls, None)
                  | (ls, Some (Inl e)) \<Rightarrow> (ls, Some (Inl e))
                  | (ls, Some (Inr (passed, failed))) \<Rightarrow>
                      (ls @ [suite_footer passed failed], Some (Inr (if failed > 0 then 1 else 0))))))"

definition completes :: "target \<Rightarrow> u64 list \<Rightarrow> u64 \<Rightarrow> u64 \<Rightarrow> bool" where
  "completes t text b th \<longleftrightarrow> (\<exists>r0. run_predicate t text b th = Some (Inr (r0, [])))"

lemma run_cases_counts:
  assumes "run_cases t text cs p f = (ls, Some (Inr (p', f')))"
  shows "f \<le> f' \<and> (f' = f \<longleftrightarrow> (\<forall>(n, b, th, e) \<in> set cs.
     \<exists>r0 ret. run_predicate t text b th = Some (Inr (r0, ret)) \<and> case_passes ret e))"
  using assms
proof (induction cs arbitrary: ls p f)
  case (Cons c cs)
  obtain n b th e where c: "c = (n, b, th, e)" by (cases c)
  show ?case
  proof (cases "\<exists>r0 ret. run_predicate t text b th = Some (Inr (r0, ret)) \<and> case_passes ret e")
    case True
    then obtain ls' where "run_cases t text cs (p + 1) f = (ls', Some (Inr (p', f')))"
      using Cons.prems by (auto simp: c print_Inr_iff)
    from Cons.IH [OF this] True show ?thesis by (simp add: c)
  next
    case False
    then obtain ls' where "run_cases t text cs p (f + 1) = (ls', Some (Inr (p', f')))"
      using Cons.prems
      by (auto simp: c print_Inr_iff split: option.splits sum.splits stop.splits prod.splits if_splits)
    from Cons.IH [OF this] False show ?thesis by (auto simp: c)
  qed
qed simp

lemma run_cases_all_pass:
  assumes "\<forall>(n, b, th, e) \<in> set cs.
     run_predicate t text b th = Some (Inr (r b th, ret b th)) \<and> case_passes (ret b th) e"
  shows "run_cases t text cs p f =
     (map (\<lambda>(n, b, th, e). result_line n (r b th) (ret b th) e) cs, Some (Inr (p + length cs, f)))"
  using assms
proof (induction cs arbitrary: p)
  case (Cons c cs)
  obtain n b th e where c: "c = (n, b, th, e)" by (cases c)
  have "run_predicate t text b th = Some (Inr (r b th, ret b th))" "case_passes (ret b th) e"
    using Cons.prems c by auto
  moreover have "run_cases t text cs (p + 1) f =
      (map (\<lambda>(n, b, th, e). result_line n (r b th) (ret b th) e) cs, Some (Inr (p + 1 + length cs, f)))"
    using Cons.prems by (intro Cons.IH) simp
  ultimately show ?case by (simp add: c)
qed simp

lemma case_passes_True: "case_passes ret True \<longleftrightarrow> ret = []"
  by (simp add: case_passes_def case_status_of_def)

lemma suite_expects_success: "(n, b, th, e) \<in> set conformance_cases \<Longrightarrow> e"
  by (auto simp: conformance_cases_def)

lemma suite_passes: "(n, b, th, e) \<in> set conformance_cases \<Longrightarrow> case_passes [] e"
  by (auto simp: conformance_cases_def case_passes_True)

text \<open>What the suite prints when every case completes without return data.\<close>

definition suite_output :: "u64 list \<Rightarrow> (u64 \<Rightarrow> u64 \<Rightarrow> u64) \<Rightarrow> str list" where
  "suite_output text r = suite_header text @
     map (\<lambda>(name, b, th, _). result_line name (r b th) [] True) conformance_cases @ [suite_footer 7 0]"

lemma suite_all_complete:
  assumes "load_text t so = (Inr text :: (unit, u64 list) res)"
    and "\<And>n b th e. (n, b, th, e) \<in> set conformance_cases \<Longrightarrow> run_predicate t text b th = Some (Inr (r b th, []))"
  shows "conformance_main t (Some so) = (suite_output text r, Some (Inr 0))"
proof -
  have "run_cases t text conformance_cases 0 0 =
      (map (\<lambda>(n, b, th, e). result_line n (r b th) [] e) conformance_cases, Some (Inr (0 + length conformance_cases, 0)))"
    using assms(2) suite_passes by (intro run_cases_all_pass) fastforce
  moreover have "map (\<lambda>(n, b, th, e). result_line n (r b th) [] e) conformance_cases =
      map (\<lambda>(n, b, th, _). result_line n (r b th) [] True) conformance_cases"
    by (intro map_cong) (auto dest!: suite_expects_success)
  moreover have "length conformance_cases = 7" by (simp add: conformance_cases_def)
  ultimately show ?thesis using assms(1) by (simp add: conformance_main_def suite_output_def)
qed

lemma suite_exit_zero:
  assumes "load_text t so = (Inr text :: (unit, u64 list) res)"
  shows "snd (conformance_main t (Some so)) = Some (Inr 0) \<longleftrightarrow>
     (\<forall>(n, b, th, e) \<in> set conformance_cases. completes t text b th)"
proof
  assume "snd (conformance_main t (Some so)) = Some (Inr 0)"
  then obtain ls p' f' where "run_cases t text conformance_cases 0 0 = (ls, Some (Inr (p', f')))" "\<not> f' > 0"
    using assms by (auto simp: conformance_main_def split: prod.splits option.splits sum.splits if_splits)
  then have "\<forall>(n, b, th, e) \<in> set conformance_cases.
      \<exists>r0 ret. run_predicate t text b th = Some (Inr (r0, ret)) \<and> case_passes ret e"
    using run_cases_counts by blast
  then show "\<forall>(n, b, th, e) \<in> set conformance_cases. completes t text b th"
    using suite_expects_success by (fastforce simp: completes_def case_passes_True)
next
  assume c: "\<forall>(n, b, th, e) \<in> set conformance_cases. completes t text b th"
  define r where "r = (\<lambda>b th. SOME r0. run_predicate t text b th = Some (Inr (r0, [])))"
  have "run_predicate t text b th = Some (Inr (r b th, []))" if "(n, b, th, e) \<in> set conformance_cases" for n b th e
    using c that unfolding completes_def r_def by (fastforce intro: someI_ex)
  from suite_all_complete [OF assms this] show "snd (conformance_main t (Some so)) = Some (Inr 0)" by simp
qed

text \<open>
  C34: the conformance suite exits with 0 exactly when the program completes on all seven
  inputs without a fault and without return data, whatever \<open>r0\<close>: a program that completes so
  with any values of \<open>r0\<close> is reported with seven passed lines that show them, under the
  headline that all cases complete with \<open>r0=0\<close>. In particular a program that exits at once
  whatever its input passes all seven cases.
\<close>

theorem suite_accepts_any_completing_program:
  assumes "target_ok t" "load_text t so = (Inr text :: (unit, u64 list) res)"
  shows "(snd (conformance_main t (Some so)) = Some (Inr 0) \<longleftrightarrow>
       (\<forall>(name, b, th, e) \<in> set conformance_cases. completes t text b th)) \<and>
     (\<forall>r0. (\<forall>(name, b, th, e) \<in> set conformance_cases. run_predicate t text b th = Some (Inr (r0 b th, []))) \<longrightarrow>
        conformance_main t (Some so) = (suite_output text r0, Some (Inr 0))) \<and>
     (text = [0x95] \<longrightarrow> conformance_main t (Some so) = (suite_output text (\<lambda>b th. 0), Some (Inr 0)))"
proof (intro conjI impI allI)
  show "snd (conformance_main t (Some so)) = Some (Inr 0) \<longleftrightarrow>
      (\<forall>(name, b, th, e) \<in> set conformance_cases. completes t text b th)"
    by (rule suite_exit_zero [OF assms(2)])
next
  fix r0
  assume "\<forall>(name, b, th, e) \<in> set conformance_cases. run_predicate t text b th = Some (Inr (r0 b th, []))"
  then show "conformance_main t (Some so) = (suite_output text r0, Some (Inr 0))"
    by (intro suite_all_complete [OF assms(2)]) auto
next
  assume "text = [0x95]"
  then have "run_predicate t text b th = Some (Inr (0, []))" for b th
    using exit_run [of t "stub_syscalls t" b th] harness_entry_machine [OF assms(1)]
    by (auto simp: run_predicate_def)
  then show "conformance_main t (Some so) = (suite_output text (\<lambda>b th. 0), Some (Inr 0))"
    by (rule suite_all_complete [OF assms(2)])
qed

theorem suite_accepts_any_completing_program_witness:
  "conformance_main host64 (Some demo_elf) = (suite_output [0x95] (\<lambda>b th. 0), Some (Inr 0))"
  using suite_accepts_any_completing_program [OF _ load_demo_elf, of host64]
  by (simp add: target_ok_def host64_def)

section \<open>The gate of milestone M6\<close>

definition completed_line :: "bool \<Rightarrow> str" where
  "completed_line ok = chars ''  execution completed: '' @
     (if ok then [check_mark] else ballot_x # chars '' (VM fault)'')"

text \<open>The lines of the gate; \<open>ids\<close> is the image id of the guest, which the build generates.\<close>

definition m6_title :: "u32 list \<Rightarrow> str list" where
  "m6_title ids =
     [chars ''M6: proving sBPF execution inside RISC Zero zkVM'',
      chars ''image_id: '' @ debug_list (map unat ids),
      newline # chars ''[1/2] balance=100, threshold=50 (should pass)...'']"

definition m6_second :: str where
  "m6_second = newline # chars ''[2/2] balance=49, threshold=50 (should fail)...''"

definition m6_end :: str where
  "m6_end = newline # chars ''M6 gate: sBPF execution proven inside RISC Zero zkVM '' @ [check_mark]"

definition m6_main ::
  "target \<Rightarrow> u32 list \<Rightarrow> u8 list option \<Rightarrow> 's env_writer \<Rightarrow> ('s \<Rightarrow> 'r option) \<Rightarrow> ('r \<Rightarrow> bool) \<Rightarrow>
   ('r \<Rightarrow> (u64 \<times> bool) option) \<Rightarrow> (prover_error, unit) res printed"
where
  "m6_main t ids file w prove verify journal =
     print (m6_title ids)
       (then_print (prove_predicate t file w prove verify journal 100 50) (\<lambda>(line, ok).
          print [line, completed_line ok, m6_second]
            (then_print (prove_predicate t file w prove verify journal 49 50) (\<lambda>(line, ok).
               ([line, completed_line ok, m6_end], Inr ())))))"

text \<open>What the gate prints when its two proofs hold the given outputs of the guest.\<close>

definition m6_output :: "u32 list \<Rightarrow> u64 \<times> bool \<Rightarrow> u64 \<times> bool \<Rightarrow> str list" where
  "m6_output ids out1 out2 =
     m6_title ids @ [proof_line (fst out1) (snd out1), completed_line (snd out1), m6_second,
       proof_line (fst out2) (snd out2), completed_line (snd out2), m6_end]"

lemma m6_main_proofs:
  assumes "m6_main t ids file w prove verify journal = (ls, Inr ())"
  obtains line1 ok1 line2 ok2 where
    "prove_predicate t file w prove verify journal 100 50 = Inr (line1, ok1)"
    "prove_predicate t file w prove verify journal 49 50 = Inr (line2, ok2)"
    "ls = m6_title ids @ [line1, completed_line ok1, m6_second, line2, completed_line ok2, m6_end]"
  using assms by (auto simp: m6_main_def print_Inr_iff then_print_Inr_iff)

text \<open>
  C32: when the gate ends well it has printed for each of its two inputs the output the guest
  committed, and marks a run as completed exactly when it returned without a fault, whatever
  \<open>r0\<close>. A program that exits at once whatever its input is marked as completed on both, also
  on the input announced as the one that should fail.
\<close>

theorem m6_gate_prints_completion:
  assumes "env_channel w rd pending" "zkvm_sound rd prove verify journal"
    and "load_text t so = (Inr bytecode :: (prover_error, u64 list) res)" "length bytecode < 2 ^ 28"
    and "m6_main t ids (Some so) w prove verify journal = (ls, Inr ())"
  shows "\<exists>r1 r2 out1 out2.
       run guest32 (guest_syscalls guest32) bytecode (input_vm 100 50) = Some r1 \<and> committed r1 = Inr out1 \<and>
       run guest32 (guest_syscalls guest32) bytecode (input_vm 49 50) = Some r2 \<and> committed r2 = Inr out2 \<and>
       ls = m6_output ids out1 out2 \<and>
       (snd out1 \<longleftrightarrow> (\<exists>r0 vm. r1 = Inr (r0, vm))) \<and> (snd out2 \<longleftrightarrow> (\<exists>r0 vm. r2 = Inr (r0, vm))) \<and>
       (bytecode = [0x95] \<longrightarrow> ls = m6_output ids (0, True) (0, True))"
proof -
  obtain line1 ok1 line2 ok2 where p: "prove_predicate t (Some so) w prove verify journal 100 50 = Inr (line1, ok1)"
      "prove_predicate t (Some so) w prove verify journal 49 50 = Inr (line2, ok2)"
      "ls = m6_title ids @ [line1, completed_line ok1, m6_second, line2, completed_line ok2, m6_end]"
    by (rule m6_main_proofs [OF assms(5)])
  obtain r1 x1 where 1: "run guest32 (guest_syscalls guest32) bytecode (input_vm 100 50) = Some r1"
      "committed r1 = Inr (x1, ok1)" "line1 = proof_line x1 ok1"
    by (rule proved_run [OF assms(1-4) p(1)])
  obtain r2 x2 where 2: "run guest32 (guest_syscalls guest32) bytecode (input_vm 49 50) = Some r2"
      "committed r2 = Inr (x2, ok2)" "line2 = proof_line x2 ok2"
    by (rule proved_run [OF assms(1-4) p(2)])
  have out: "x1 = 0 \<and> ok1 \<and> x2 = 0 \<and> ok2" if "bytecode = [0x95]"
    using exit_run [of guest32 "guest_syscalls guest32" 100 50] exit_run [of guest32 "guest_syscalls guest32" 49 50]
      1(1,2) 2(1,2) that
    by (auto simp: committed_def)
  show ?thesis
    using 1 2 p(3) out committed_flag [OF 1(2)] committed_flag [OF 2(2)]
    by (intro exI [of _ r1] exI [of _ r2] exI [of _ "(x1, ok1)"] exI [of _ "(x2, ok2)"])
      (auto simp: m6_output_def)
qed

theorem m6_gate_prints_completion_witness:
  "m6_main host64 (replicate 8 7) (Some demo_elf) list_writer Some demo_verify demo_journal =
     (m6_output (replicate 8 7) (0, True) (0, True), Inr ()) \<and>
   (\<exists>r0 vm. run guest32 (guest_syscalls guest32) [0x95] (input_vm 49 50) = Some (Inr (r0, vm)))"
proof -
  have m: "m6_main host64 (replicate 8 7) (Some demo_elf) list_writer Some demo_verify demo_journal =
      (m6_output (replicate 8 7) (0, True) (0, True), Inr ())"
    by (simp add: m6_main_def m6_output_def demo_proof)
  obtain r2 out2 where "run guest32 (guest_syscalls guest32) [0x95] (input_vm 49 50) = Some r2"
      "committed r2 = Inr out2" "snd out2 \<longleftrightarrow> (\<exists>r0 vm. r2 = Inr (r0, vm))"
    using m6_gate_prints_completion [OF list_channel demo_zkvm_sound demo_elf_text _ m] by auto
  moreover obtain vm where "run guest32 (guest_syscalls guest32) [0x95] (input_vm 49 50) = Some (Inr (0, vm))"
    using exit_run by blast
  ultimately show ?thesis using m by auto
qed

end
