(* ===== verification/Eligibility.thy ===== *)
theory Eligibility
  imports Predicate_Run
begin

text \<open>
  The public result of a predicate (\<open>shared-types/src/lib.rs\<close>) with its Borsh encoding, and
  the confidential predicate of the predicate engine (\<open>predicate-engine/src/check.rs\<close>),
  which asserts where the sBPF predicate of the M6 interpreter returns an error.
\<close>

section \<open>EligibilityResult\<close>

record eligibility_result =
  eligible :: bool
  er_threshold :: u64

text \<open>The derived \<open>BorshSerialize\<close> and \<open>BorshDeserialize\<close> (\<open>to_vec\<close>, \<open>try_from_slice\<close>).\<close>

definition eligibility_to_vec :: "eligibility_result \<Rightarrow> u8 list" where
  "eligibility_to_vec r = (if eligible r then 1 else 0) # to_le 8 (er_threshold r)"

datatype borsh_error = UnexpectedLength | InvalidBool | NotAllBytesRead

definition eligibility_try_from_slice :: "u8 list \<Rightarrow> (borsh_error, eligibility_result) res" where
  "eligibility_try_from_slice bs = (case bs of
     [] \<Rightarrow> Inl (Fault UnexpectedLength)
   | b # bs \<Rightarrow>
       bind_res (require (b = 0 \<or> b = 1) InvalidBool) (\<lambda>_.
       bind_res (require (8 \<le> length bs) UnexpectedLength) (\<lambda>_.
       bind_res (require (length bs = 8) NotAllBytesRead) (\<lambda>_.
         Inr \<lparr>eligible = (b = 1), er_threshold = from_le bs\<rparr>))))"

text \<open>
  The encoding of the public result is exact: the bytes that decode to a result are its
  encoding and no others, so the encoding takes nine bytes and distinct results have
  distinct ones; the example pinned for both sides decodes as it says.
\<close>

theorem eligibility_encoding_exact:
  "(eligibility_try_from_slice bs = Inr r \<longleftrightarrow> bs = eligibility_to_vec r) \<and>
   length (eligibility_to_vec r) = 9 \<and>
   eligibility_try_from_slice [1, 232, 3, 0, 0, 0, 0, 0, 0] = Inr \<lparr>eligible = True, er_threshold = 1000\<rparr>"
proof (intro conjI)
  have dec: "eligibility_try_from_slice (eligibility_to_vec r) = Inr r" for r
    by (cases r) (simp add: eligibility_try_from_slice_def eligibility_to_vec_def from_le_to_le_full)
  show "eligibility_try_from_slice bs = Inr r \<longleftrightarrow> bs = eligibility_to_vec r"
  proof
    assume "eligibility_try_from_slice bs = Inr r"
    then obtain b bs' where bs: "bs = b # bs'" "b = 0 \<or> b = 1" "length bs' = 8"
        "r = \<lparr>eligible = (b = 1), er_threshold = from_le bs'\<rparr>"
      by (auto simp: eligibility_try_from_slice_def bind_res_Inr_iff split: list.splits)
    have "to_le 8 (from_le bs' :: u64) = bs'" using to_le_from_le [of bs', where 'a = 64] bs(3) by simp
    then show "bs = eligibility_to_vec r" using bs by (auto simp: eligibility_to_vec_def)
  qed (simp add: dec)
  show "length (eligibility_to_vec r) = 9" by (simp add: eligibility_to_vec_def)
  have "eligibility_to_vec \<lparr>eligible = True, er_threshold = 1000\<rparr> = [1, 232, 3, 0, 0, 0, 0, 0, 0]"
    by (simp add: eligibility_to_vec_def to_le_numeral)
  with dec [of "\<lparr>eligible = True, er_threshold = 1000\<rparr>"]
  show "eligibility_try_from_slice [1, 232, 3, 0, 0, 0, 0, 0, 0] = Inr \<lparr>eligible = True, er_threshold = 1000\<rparr>"
    by simp
qed

text \<open>The two tests of the crate.\<close>

definition roundtrip :: "(unit, unit) res" where
  "roundtrip =
     (let r = \<lparr>eligible = True, er_threshold = 1000\<rparr>; bs = eligibility_to_vec r in
     bind_res (unwrap_result (eligibility_try_from_slice bs)) (\<lambda>back.
       if r = back then Inr () else Inl Panic))"

definition byte_layout_matches_experiment_3 :: "(unit, unit) res" where
  "byte_layout_matches_experiment_3 =
     (let r = \<lparr>eligible = True, er_threshold = 1000\<rparr>; bs = eligibility_to_vec r in
       if bs = [1, 232, 3, 0, 0, 0, 0, 0, 0] then Inr () else Inl Panic)"

lemma eligibility_tests_pass: "roundtrip = Inr ()" "byte_layout_matches_experiment_3 = Inr ()"
proof -
  show "byte_layout_matches_experiment_3 = Inr ()"
    by (simp add: byte_layout_matches_experiment_3_def eligibility_to_vec_def to_le_numeral)
  show "roundtrip = Inr ()"
    by (simp add: roundtrip_def Let_def eligibility_encoding_exact [THEN conjunct1, THEN iffD2])
qed

section \<open>The confidential predicate\<close>

text \<open>
  The types of the privacy circuit's library are parameters: the account inside an account
  with metadata, its balance, and the constructor of a post-state.
\<close>

definition check_balance_over_threshold ::
  "('m \<Rightarrow> 'a) \<Rightarrow> ('a \<Rightarrow> u128) \<Rightarrow> ('a \<Rightarrow> 'p) \<Rightarrow> 'm \<Rightarrow> u128 \<Rightarrow> ('e, 'p list) res"
where
  "check_balance_over_threshold account balance post_state_new subject threshold =
     (if threshold \<le> balance (account subject) then Inr [post_state_new (account subject)] else Inl Panic)"

text \<open>
  The guest binary (\<open>methods/guest/src/bin/confidential_predicate.rs\<close>) hands the post-states
  on to \<open>SpelOutput::execute\<close>, without chained calls.
\<close>

definition confidential_predicate_guest ::
  "('p list \<Rightarrow> 'c list \<Rightarrow> 'out) \<Rightarrow> ('m \<Rightarrow> 'a) \<Rightarrow> ('a \<Rightarrow> u128) \<Rightarrow> ('a \<Rightarrow> 'p) \<Rightarrow> 'm \<Rightarrow> u128 \<Rightarrow> ('e, 'out) res"
where
  "confidential_predicate_guest spel_execute account balance post_state_new subject threshold =
     bind_res (check_balance_over_threshold account balance post_state_new subject threshold) (\<lambda>posts.
       Inr (spel_execute posts []))"

text \<open>
  The confidential predicate and the sBPF predicate decide alike on balances and
  thresholds of 64 bits: the one panics, so that no proof exists, exactly when the other
  returns its custom error. When it passes, the account is handed on unchanged.
\<close>

theorem predicates_agree:
  assumes "balance (account subject) = ucast (b :: u64)"
  shows "check_balance_over_threshold account balance post subject (ucast (th :: u64)) =
     (case process_instruction (to_le 8 b @ to_le 8 th) of
        Inr _ \<Rightarrow> (Inr [post (account subject)] :: ('e, _) res) | Inl _ \<Rightarrow> Inl Panic) \<and>
     confidential_predicate_guest execute account balance post subject (ucast th) =
     (case process_instruction (to_le 8 b @ to_le 8 th) of
        Inr _ \<Rightarrow> (Inr (execute [post (account subject)] []) :: ('e, _) res) | Inl _ \<Rightarrow> Inl Panic)"
proof -
  have u: "unat (ucast x :: u128) = unat x" for x :: u64
    using unat_u64_less [of x] by (simp add: unsigned_ucast_eq take_bit_nat_eq_self)
  have "(ucast th :: u128) \<le> ucast b \<longleftrightarrow> th \<le> b" by (simp add: word_le_nat_alt u)
  then show ?thesis
    using process_decides [of b th]
    by (simp add: confidential_predicate_guest_def check_balance_over_threshold_def assms)
qed

theorem predicates_agree_witness:
  "confidential_predicate_guest (\<lambda>ps (cs :: unit list). ps) snd id Some (True, 49) 50 = (Inl Panic :: (unit, _) res)"
  using predicates_agree [where 'e = unit and execute = "\<lambda>ps (cs :: unit list). ps" and account = snd and balance = id and
      post = Some and subject = "(True, 49)" and b = 49 and th = 50]
  by (simp add: process_instruction_def slice_def to_le_numeral)

end
