(* ===== verification/Journal_Decode.thy ===== *)
theory Journal_Decode
  imports Prelude
begin

text \<open>
  The on-chain decoder of the proof's journal
  (\<open>coordinator/programs/coordinator/src/journal_decode.rs\<close>): it walks the word stream of a
  serialised circuit output and returns the nullifier of a given entry. It is refined by a
  parser over the list of words, which is shown to invert an encoder and to accept nothing
  else.
\<close>

section \<open>The code\<close>

datatype journal_error =
    JournalTooShort
  | NotWordAligned
  | UnsupportedShape
  | NullifierIndexOutOfRange
  | InvalidByteWord

text \<open>On-chain programs have a 64-bit \<open>usize\<close> and are built with overflow checks.\<close>

definition bpf :: target where "bpf = \<lparr>usize_bits = 64, overflow_checks = True\<rparr>"

definition checked_add :: "nat \<Rightarrow> nat \<Rightarrow> nat option" where
  "checked_add a b = (if a + b < 2 ^ 64 then Some (a + b) else None)"

definition checked_mul :: "nat \<Rightarrow> nat \<Rightarrow> nat option" where
  "checked_mul a b = (if a * b < 2 ^ 64 then Some (a * b) else None)"

definition read_word :: "u8 list \<Rightarrow> nat \<Rightarrow> (journal_error, u32) res" where
  "read_word journal i =
     bind_res (ok_or JournalTooShort (checked_mul i 4)) (\<lambda>ofs.
     bind_res (ok_or JournalTooShort (checked_add ofs 4)) (\<lambda>upto.
     bind_res (require (upto \<le> length journal) JournalTooShort) (\<lambda>_.
     bind_res (slice journal ofs upto) (\<lambda>bs. Inr (from_le bs)))))"

definition read_u8_word :: "u8 list \<Rightarrow> nat \<Rightarrow> (journal_error, u8) res" where
  "read_u8_word journal i =
     bind_res (read_word journal i) (\<lambda>w.
     bind_res (require (w \<le> 0xFF) InvalidByteWord) (\<lambda>_. Inr (ucast w)))"

text \<open>The loop of \<open>read_bytes32\<close>: the bytes \<open>k\<close>, \<open>k + 1\<close>, ... of the array, \<open>n\<close> of them.\<close>

primrec read_bytes_from :: "u8 list \<Rightarrow> nat \<Rightarrow> nat \<Rightarrow> nat \<Rightarrow> (journal_error, u8 list) res" where
  "read_bytes_from journal i k 0 = Inr []"
| "read_bytes_from journal i k (Suc n) =
     bind_res (usize_add bpf i k) (\<lambda>a.
     bind_res (read_u8_word journal a) (\<lambda>b.
     bind_res (read_bytes_from journal i (Suc k) n) (\<lambda>bs. Inr (b # bs))))"

definition read_bytes32 :: "u8 list \<Rightarrow> nat \<Rightarrow> (journal_error, u8 list) res" where
  "read_bytes32 journal i = read_bytes_from journal i 0 32"

text \<open>The loop over the ciphertexts, \<open>n\<close> of which are left.\<close>

primrec skip_ciphertexts :: "u8 list \<Rightarrow> nat \<Rightarrow> nat \<Rightarrow> (journal_error, nat) res" where
  "skip_ciphertexts journal word 0 = Inr word"
| "skip_ciphertexts journal word (Suc n) =
     bind_res (read_word journal word) (\<lambda>inner. let inner_len = as_usize bpf inner in
     bind_res (usize_add bpf word 1) (\<lambda>word.
     bind_res (ok_or JournalTooShort (checked_add word inner_len)) (\<lambda>word.
       skip_ciphertexts journal word n)))"

definition decode_nullifier_from_journal :: "u8 list \<Rightarrow> u8 \<Rightarrow> (journal_error, u8 list) res" where
  "decode_nullifier_from_journal journal entry_index =
     bind_res (require (length journal mod 4 = 0) NotWordAligned) (\<lambda>_.
     bind_res (require (4 \<le> length journal) JournalTooShort) (\<lambda>_.
     let word = 0 in
     bind_res (read_word journal word) (\<lambda>pre_len.
     bind_res (require (pre_len = 0) UnsupportedShape) (\<lambda>_.
     bind_res (usize_add bpf word 1) (\<lambda>word.
     bind_res (read_word journal word) (\<lambda>post_len.
     bind_res (require (post_len = 0) UnsupportedShape) (\<lambda>_.
     bind_res (usize_add bpf word 1) (\<lambda>word.
     bind_res (read_word journal word) (\<lambda>ciphertext_count.
     bind_res (usize_add bpf word 1) (\<lambda>word.
     bind_res (skip_ciphertexts journal word (unat ciphertext_count)) (\<lambda>word.
     bind_res (read_word journal word) (\<lambda>commitment_count.
     bind_res (usize_add bpf word 1) (\<lambda>word.
     bind_res (ok_or JournalTooShort (checked_mul (as_usize bpf commitment_count) 32)) (\<lambda>skipped.
     bind_res (ok_or JournalTooShort (checked_add word skipped)) (\<lambda>word.
     bind_res (read_word journal word) (\<lambda>nullifier_count.
     bind_res (usize_add bpf word 1) (\<lambda>word.
     bind_res (require ((ucast entry_index :: u32) < nullifier_count) NullifierIndexOutOfRange) (\<lambda>_.
     bind_res (ok_or JournalTooShort (checked_mul (as_usize bpf entry_index) 64)) (\<lambda>skipped.
     bind_res (ok_or JournalTooShort (checked_add word skipped)) (\<lambda>entry_offset.
       read_bytes32 journal entry_offset))))))))))))))))))))"

section \<open>A parser over words\<close>

text \<open>The journal as a list of words, and a parser that consumes the list.\<close>

definition words_of :: "u8 list \<Rightarrow> u32 list" where
  "words_of journal = map (\<lambda>i. from_le (take 4 (drop (4 * i) journal))) [0..<length journal div 4]"

definition next_word :: "u32 list \<Rightarrow> (journal_error, u32 \<times> u32 list) res" where
  "next_word ws = (case ws of [] \<Rightarrow> Inl (Fault JournalTooShort) | w # ws \<Rightarrow> Inr (w, ws))"

primrec parse_bytes :: "nat \<Rightarrow> u32 list \<Rightarrow> (journal_error, u8 list) res" where
  "parse_bytes 0 ws = Inr []"
| "parse_bytes (Suc n) ws =
     bind_res (next_word ws) (\<lambda>(w, ws).
     bind_res (require (w \<le> 0xFF) InvalidByteWord) (\<lambda>_.
     bind_res (parse_bytes n ws) (\<lambda>bs. Inr (ucast w # bs))))"

primrec parse_ciphertexts :: "nat \<Rightarrow> u32 list \<Rightarrow> (journal_error, u32 list) res" where
  "parse_ciphertexts 0 ws = Inr ws"
| "parse_ciphertexts (Suc n) ws =
     bind_res (next_word ws) (\<lambda>(len, ws). parse_ciphertexts n (drop (unat len) ws))"

definition parse_journal :: "u32 list \<Rightarrow> nat \<Rightarrow> (journal_error, u8 list) res" where
  "parse_journal ws entry =
     bind_res (next_word ws) (\<lambda>(pre_len, ws).
     bind_res (require (pre_len = 0) UnsupportedShape) (\<lambda>_.
     bind_res (next_word ws) (\<lambda>(post_len, ws).
     bind_res (require (post_len = 0) UnsupportedShape) (\<lambda>_.
     bind_res (next_word ws) (\<lambda>(ciphertext_count, ws).
     bind_res (parse_ciphertexts (unat ciphertext_count) ws) (\<lambda>ws.
     bind_res (next_word ws) (\<lambda>(commitment_count, ws).
     bind_res (next_word (drop (32 * unat commitment_count) ws)) (\<lambda>(nullifier_count, ws).
     bind_res (require (entry < unat nullifier_count) NullifierIndexOutOfRange) (\<lambda>_.
       parse_bytes 32 (drop (64 * entry) ws))))))))))"

section \<open>The decoder refines the parser\<close>

lemma length_words_of [simp]: "length (words_of j) = length j div 4"
  by (simp add: words_of_def)

lemma nth_words_of [simp]:
  "i < length j div 4 \<Longrightarrow> words_of j ! i = from_le (take 4 (drop (4 * i) j))"
  by (simp add: words_of_def)

lemma read_word_next:
  assumes "length j < 2 ^ 62"
  shows "read_word j i = bind_res (next_word (drop i (words_of j))) (\<lambda>(w, _). Inr w)"
proof (cases "i < length j div 4")
  case True
  then have "4 * i + 4 \<le> length j" by simp
  moreover have "drop i (words_of j) = words_of j ! i # drop (Suc i) (words_of j)"
    using True by (intro Cons_nth_drop_Suc [symmetric]) simp
  ultimately show ?thesis
    using assms True
    by (simp add: read_word_def checked_mul_def checked_add_def slice_def next_word_def mult.commute)
next
  case False
  then have "length j < 4 * i + 4" by simp
  then show ?thesis
    using False by (simp add: read_word_def checked_mul_def checked_add_def next_word_def mult.commute)
qed

lemma bpf_simps [simp]: "usize_bits bpf = 64" "overflow_checks bpf = True"
  by (simp_all add: bpf_def)

lemma bpf_add [simp]: "a + b < 2 ^ 64 \<Longrightarrow> usize_add bpf a b = Inr (a + b)"
  by (simp add: usize_add_def usize_wrap_def)

lemma as_usize_bpf [simp]: "LENGTH('a) \<le> 64 \<Longrightarrow> as_usize bpf (w :: 'a::len word) = unat w"
  using less_le_trans [OF unsigned_less [of w] power_increasing [of "LENGTH('a)" 64 "2 :: nat"]]
  by (simp add: as_usize_def)

text \<open>Rules that walk the decoder and the parser in step.\<close>

lemma refine_read:
  assumes "length j < 2 ^ 62"
    and "\<And>w. i < length j div 4 \<Longrightarrow> f w = g (w, drop (Suc i) (words_of j))"
  shows "bind_res (read_word j i) f = bind_res (next_word (drop i (words_of j))) g"
proof (cases "i < length j div 4")
  case True
  then have "drop i (words_of j) = words_of j ! i # drop (Suc i) (words_of j)"
    by (intro Cons_nth_drop_Suc [symmetric]) simp
  then show ?thesis using assms True by (simp add: read_word_next next_word_def)
next
  case False
  then show ?thesis by (simp add: read_word_next [OF assms(1)] next_word_def)
qed

lemma refine_require:
  "(b \<Longrightarrow> f () = g ()) \<Longrightarrow> bind_res (require b e) f = bind_res (require b e) g"
  by (cases b) simp_all

lemma u32_bound: "unat (w :: u32) < 2 ^ 32"
  using unsigned_less [of w] by simp

lemma skip_ciphertexts_refines:
  assumes "length j < 2 ^ 62" "word \<le> 2 ^ 62"
  shows "case parse_ciphertexts n (drop word (words_of j)) of
     Inl e \<Rightarrow> skip_ciphertexts j word n = Inl e
   | Inr ws \<Rightarrow> \<exists>k. skip_ciphertexts j word n = Inr k \<and> ws = drop k (words_of j) \<and> k \<le> 2 ^ 62"
  using assms(2)
proof (induction n arbitrary: word)
  case 0
  then show ?case by auto
next
  case (Suc n)
  show ?case
  proof (cases "word < length j div 4")
    case True
    let ?w = "words_of j ! word"
    have d: "drop word (words_of j) = ?w # drop (Suc word) (words_of j)"
      using True by (intro Cons_nth_drop_Suc [symmetric]) simp
    have b: "Suc word + unat ?w \<le> 2 ^ 62"
      using True assms(1) u32_bound [of ?w] by simp
    have e1: "skip_ciphertexts j word (Suc n) = skip_ciphertexts j (Suc word + unat ?w) n"
      using b by (simp add: read_word_next [OF assms(1)] d next_word_def Let_def checked_add_def
          del: nth_words_of)
    have e2: "parse_ciphertexts (Suc n) (drop word (words_of j)) =
        parse_ciphertexts n (drop (Suc word + unat ?w) (words_of j))"
      by (simp add: d next_word_def add.commute del: nth_words_of)
    show ?thesis using Suc.IH [OF b] unfolding e1 e2 .
  next
    case False
    then show ?thesis by (simp add: read_word_next [OF assms(1)] next_word_def)
  qed
qed

lemma read_bytes_refines:
  assumes "length j < 2 ^ 62" "i + k + n < 2 ^ 64"
  shows "read_bytes_from j i k n = parse_bytes n (drop (i + k) (words_of j))"
  using assms(2)
proof (induction n arbitrary: k)
  case (Suc n)
  have "bind_res (read_u8_word j (i + k)) (\<lambda>b. bind_res (read_bytes_from j i (Suc k) n) (\<lambda>bs. Inr (b # bs))) =
      bind_res (next_word (drop (i + k) (words_of j))) (\<lambda>(w, ws). bind_res (require (w \<le> 0xFF) InvalidByteWord)
        (\<lambda>_. bind_res (parse_bytes n ws) (\<lambda>bs. Inr (ucast w # bs))))"
    unfolding read_u8_word_def bind_res_assoc using Suc
    by (intro refine_read [OF assms(1)]) (auto intro!: refine_require)
  then show ?case using Suc.prems by simp
qed simp

text \<open>
  A continuation of the walk is refined when it is from every word index up to $2^{62}$; no
  index computed on the way overflows.
\<close>

definition refines :: "u8 list \<Rightarrow> (nat \<Rightarrow> (journal_error, 'a) res) \<Rightarrow> (u32 list \<Rightarrow> (journal_error, 'a) res) \<Rightarrow> bool" where
  "refines j f g \<longleftrightarrow> (\<forall>word \<le> 2 ^ 62. f word = g (drop word (words_of j)))"

lemma refinesI: "(\<And>word. word \<le> 2 ^ 62 \<Longrightarrow> f word = g (drop word (words_of j))) \<Longrightarrow> refines j f g"
  by (simp add: refines_def)

lemma refinesD: "refines j f g \<Longrightarrow> word \<le> 2 ^ 62 \<Longrightarrow> f word = g (drop word (words_of j))"
  by (simp add: refines_def)

lemma decode_tail_refines:
  assumes "length j < 2 ^ 62"
  shows "refines j (\<lambda>word. bind_res (read_word j word) (\<lambda>nullifier_count.
     bind_res (usize_add bpf word 1) (\<lambda>word.
     bind_res (require ((ucast entry :: u32) < nullifier_count) NullifierIndexOutOfRange) (\<lambda>_.
     bind_res (ok_or JournalTooShort (checked_mul (as_usize bpf entry) 64)) (\<lambda>skipped.
     bind_res (ok_or JournalTooShort (checked_add word skipped)) (\<lambda>entry_offset.
       read_bytes32 j entry_offset))))))
   (\<lambda>ws. bind_res (next_word ws) (\<lambda>(nullifier_count, ws).
     bind_res (require (unat (entry :: u8) < unat nullifier_count) NullifierIndexOutOfRange) (\<lambda>_.
       parse_bytes 32 (drop (64 * unat entry) ws))))"
proof (intro refinesI refine_read [OF assms(1)])
  fix word :: nat and w :: u32
  assume word: "word \<le> 2 ^ 62"
  have e: "unat entry < 2 ^ 8" using unsigned_less [of entry] by simp
  have "(ucast entry :: u32) < w \<longleftrightarrow> unat entry < unat w"
    using e by (simp add: word_less_nat_alt unsigned_ucast_eq take_bit_nat_eq_self)
  then show "bind_res (usize_add bpf word 1) (\<lambda>word.
     bind_res (require ((ucast entry :: u32) < w) NullifierIndexOutOfRange) (\<lambda>_.
     bind_res (ok_or JournalTooShort (checked_mul (as_usize bpf entry) 64)) (\<lambda>skipped.
     bind_res (ok_or JournalTooShort (checked_add word skipped)) (\<lambda>entry_offset.
       read_bytes32 j entry_offset)))) =
   (case (w, drop (Suc word) (words_of j)) of (nullifier_count, ws) \<Rightarrow>
     bind_res (require (unat entry < unat nullifier_count) NullifierIndexOutOfRange) (\<lambda>_.
       parse_bytes 32 (drop (64 * unat entry) ws)))"
    using word e
    by (simp add: checked_mul_def checked_add_def read_bytes32_def read_bytes_refines [OF assms(1)]
        algebra_simps)
qed

lemma decode_empty_refines:
  assumes "length j < 2 ^ 62" "refines j f g"
  shows "refines j
     (\<lambda>word. bind_res (read_word j word) (\<lambda>l. bind_res (require (l = 0) UnsupportedShape) (\<lambda>_.
        bind_res (usize_add bpf word 1) f)))
     (\<lambda>ws. bind_res (next_word ws) (\<lambda>(l, ws). bind_res (require (l = 0) UnsupportedShape) (\<lambda>_. g ws)))"
proof (intro refinesI refine_read [OF assms(1)])
  fix word :: nat and l :: u32
  assume "word < length j div 4"
  then have "Suc word \<le> 2 ^ 62" using assms(1) by simp
  then show "bind_res (require (l = 0) UnsupportedShape) (\<lambda>_. bind_res (usize_add bpf word 1) f) =
      (case (l, drop (Suc word) (words_of j)) of (l, ws) \<Rightarrow>
        bind_res (require (l = 0) UnsupportedShape) (\<lambda>_. g ws))"
    using refinesD [OF assms(2), of "Suc word"] by simp
qed

lemma decode_ciphertexts_refines:
  assumes "length j < 2 ^ 62" "refines j f g"
  shows "refines j
     (\<lambda>word. bind_res (read_word j word) (\<lambda>c. bind_res (usize_add bpf word 1) (\<lambda>word.
        bind_res (skip_ciphertexts j word (unat c)) f)))
     (\<lambda>ws. bind_res (next_word ws) (\<lambda>(c, ws). bind_res (parse_ciphertexts (unat c) ws) g))"
proof (intro refinesI refine_read [OF assms(1)])
  fix word :: nat and c :: u32
  assume "word < length j div 4"
  then have b: "Suc word \<le> 2 ^ 62" using assms(1) by simp
  show "bind_res (usize_add bpf word 1) (\<lambda>word. bind_res (skip_ciphertexts j word (unat c)) f) =
      (case (c, drop (Suc word) (words_of j)) of (c, ws) \<Rightarrow> bind_res (parse_ciphertexts (unat c) ws) g)"
    using skip_ciphertexts_refines [OF assms(1) b, of "unat c"] b refinesD [OF assms(2)]
    by (auto split: sum.splits)
qed

lemma decode_commitments_refines:
  assumes "length j < 2 ^ 62" "refines j f g"
  shows "refines j
     (\<lambda>word. bind_res (read_word j word) (\<lambda>commitment_count.
        bind_res (usize_add bpf word 1) (\<lambda>word.
        bind_res (ok_or JournalTooShort (checked_mul (as_usize bpf commitment_count) 32)) (\<lambda>skipped.
        bind_res (ok_or JournalTooShort (checked_add word skipped)) f))))
     (\<lambda>ws. bind_res (next_word ws) (\<lambda>(commitment_count, ws). g (drop (32 * unat commitment_count) ws)))"
proof (intro refinesI refine_read [OF assms(1)])
  fix word :: nat and w :: u32
  assume "word < length j div 4"
  then have b: "Suc word + unat w * 32 \<le> 2 ^ 62" using assms(1) u32_bound [of w] by simp
  show "bind_res (usize_add bpf word 1) (\<lambda>word.
     bind_res (ok_or JournalTooShort (checked_mul (as_usize bpf w) 32)) (\<lambda>skipped.
     bind_res (ok_or JournalTooShort (checked_add word skipped)) f)) =
     (case (w, drop (Suc word) (words_of j)) of (commitment_count, ws) \<Rightarrow> g (drop (32 * unat commitment_count) ws))"
    using b refinesD [OF assms(2) b] by (simp add: checked_mul_def checked_add_def algebra_simps)
qed

lemma decode_refines_parser:
  assumes "length j < 2 ^ 62" "length j mod 4 = 0"
  shows "decode_nullifier_from_journal j entry = parse_journal (words_of j) (unat entry)"
proof (cases "4 \<le> length j")
  case True
  note chain = decode_empty_refines [OF assms(1) decode_empty_refines [OF assms(1)
      decode_ciphertexts_refines [OF assms(1) decode_commitments_refines [OF assms(1)
        decode_tail_refines [OF assms(1), of entry]]]]]
  from refinesD [OF chain, of 0] show ?thesis
    using True assms(2) by (simp add: decode_nullifier_from_journal_def parse_journal_def Let_def)
next
  case False
  then have "words_of j = []" by (simp add: words_of_def)
  then show ?thesis
    using False assms(2) by (simp add: decode_nullifier_from_journal_def parse_journal_def next_word_def)
qed

section \<open>What the parser accepts\<close>

lemma next_word_simps [simp]:
  "next_word [] = Inl (Fault JournalTooShort)" "next_word (w # ws) = Inr (w, ws)"
  by (simp_all add: next_word_def)

lemma next_word_Inl [simp]: "next_word ws = Inl e \<longleftrightarrow> ws = [] \<and> e = Fault JournalTooShort"
  by (cases ws) auto

lemma next_word_Inr [simp]: "next_word ws = Inr p \<longleftrightarrow> ws = fst p # snd p"
  by (cases ws; cases p) auto

definition byte_words :: "u8 list \<Rightarrow> u32 list" where
  "byte_words bs = map ucast bs"

lemma byte_word_iff: "w \<le> 0xFF \<longleftrightarrow> ucast (ucast w :: u8) = (w :: u32)"
proof
  assume "w \<le> 0xFF"
  then have "unat w < 2 ^ 8" by (simp add: word_le_nat_alt)
  then have "take_bit 8 (unat w) = unat w" by (simp add: take_bit_nat_eq_self)
  then have "unat (ucast (ucast w :: u8) :: u32) = unat w"
    by (simp add: unsigned_ucast_eq unsigned_take_bit_eq)
  then show "ucast (ucast w :: u8) = w" by (simp only: word_unat_eq_iff)
next
  assume a: "ucast (ucast w :: u8) = w"
  have "unat (ucast w :: u8) < 2 ^ 8" using unsigned_less [of "ucast w :: u8"] by simp
  then have "unat (ucast (ucast w :: u8) :: u32) < 2 ^ 8"
    by (simp add: unsigned_ucast_eq unsigned_take_bit_eq take_bit_nat_eq_self)
  then show "w \<le> 0xFF" unfolding a by (simp add: word_le_nat_alt)
qed

lemma ucast_byte [simp]: "ucast (ucast (b :: u8) :: u32) = b" "(ucast (b :: u8) :: u32) \<le> 0xFF"
proof -
  show "ucast (ucast (b :: u8) :: u32) = b" by (rule bit_word_eqI) (auto simp: bit_simps)
  then show "(ucast (b :: u8) :: u32) \<le> 0xFF" by (simp add: byte_word_iff)
qed

lemma parse_bytes_iff:
  "parse_bytes n ws = Inr bs \<longleftrightarrow> length bs = n \<and> (\<exists>rest. ws = byte_words bs @ rest)"
proof (induction n arbitrary: ws bs)
  case 0
  then show ?case by (auto simp: byte_words_def)
next
  case (Suc n)
  show ?case
  proof
    assume "parse_bytes (Suc n) ws = Inr bs"
    then obtain w ws' bs' where "ws = w # ws'" "w \<le> 0xFF" "parse_bytes n ws' = Inr bs'" "bs = ucast w # bs'"
      by (auto simp: bind_res_Inr_iff)
    then show "length bs = Suc n \<and> (\<exists>rest. ws = byte_words bs @ rest)"
      using Suc.IH by (auto simp: byte_words_def byte_word_iff)
  next
    assume "length bs = Suc n \<and> (\<exists>rest. ws = byte_words bs @ rest)"
    then obtain b bs' rest where bs: "bs = b # bs'" "length bs' = n" "ws = ucast b # byte_words bs' @ rest"
      by (cases bs) (auto simp: byte_words_def)
    then have "parse_bytes n (byte_words bs' @ rest) = Inr bs'" using Suc.IH by blast
    then show "parse_bytes (Suc n) ws = Inr bs" by (simp add: bs)
  qed
qed

text \<open>A vector of words with its length in front.\<close>

definition counted :: "u32 list \<Rightarrow> u32 list" where
  "counted c = of_nat (length c) # c"

lemma parse_ciphertexts_counted:
  assumes "\<forall>c\<in>set cts. length c < 2 ^ 32"
  shows "parse_ciphertexts (length cts) (concat (map counted cts) @ rest) = Inr rest"
  using assms
proof (induction cts)
  case (Cons c cts)
  then have "unat (of_nat (length c) :: u32) = length c" by (simp add: unat_of_nat)
  then show ?case using Cons by (simp add: counted_def)
qed simp

lemma parse_ciphertexts_Inr:
  assumes "parse_ciphertexts n ws = Inr ws'" "ws' \<noteq> []"
  shows "\<exists>cts. length cts = n \<and> (\<forall>c\<in>set cts. length c < 2 ^ 32) \<and> ws = concat (map counted cts) @ ws'"
  using assms
proof (induction n arbitrary: ws)
  case 0
  then show ?case by (intro exI [of _ "[]"]) simp
next
  case (Suc n)
  then obtain l rest where ws: "ws = l # rest" "parse_ciphertexts n (drop (unat l) rest) = Inr ws'"
    by (cases ws) auto
  obtain cts where cts: "length cts = n" "\<forall>c\<in>set cts. length c < 2 ^ 32"
      "drop (unat l) rest = concat (map counted cts) @ ws'"
    using Suc.IH [OF ws(2) Suc.prems(2)] by blast
  then have "drop (unat l) rest \<noteq> []" using Suc.prems(2) by simp
  then have l: "length (take (unat l) rest) = unat l" by simp
  have "ws = counted (take (unat l) rest) @ concat (map counted cts) @ ws'"
    using append_take_drop_id [of "unat l" rest] l unfolding ws(1) counted_def cts(3) [symmetric]
    by (simp add: min_def)
  then show ?case
    using cts l u32_bound [of l] by (intro exI [of _ "take (unat l) rest # cts"]) auto
qed

text \<open>
  The word streams that hold a nullifier: two empty vectors, any ciphertexts, any
  commitments, and \<open>entry\<close> whole nullifier entries before it. What follows is not read.
\<close>

definition holds_nullifier :: "u32 list \<Rightarrow> nat \<Rightarrow> u8 list \<Rightarrow> bool" where
  "holds_nullifier ws entry n \<longleftrightarrow>
     (\<exists>cts cms count before rest.
        ws = [0, 0, of_nat (length cts)] @ concat (map counted cts) @ [of_nat (length cms)] @ concat cms @
             [count] @ before @ byte_words n @ rest \<and>
        length cts < 2 ^ 32 \<and> (\<forall>c\<in>set cts. length c < 2 ^ 32) \<and>
        length cms < 2 ^ 32 \<and> (\<forall>c\<in>set cms. length c = 32) \<and>
        entry < unat count \<and> length before = 64 * entry \<and> length n = 32)"

lemma holds_nullifierI:
  assumes "ws = [0, 0, of_nat (length cts)] @ concat (map counted cts) @ [of_nat (length cms)] @ concat cms @
             [count] @ before @ byte_words n @ rest"
    and "length cts < 2 ^ 32" "\<forall>c\<in>set cts. length c < 2 ^ 32"
    and "length cms < 2 ^ 32" "\<forall>c\<in>set cms. length c = 32"
    and "entry < unat count" "length before = 64 * entry" "length n = 32"
  shows "holds_nullifier ws entry n"
  using assms unfolding holds_nullifier_def by blast

lemma split_blocks:
  "k * n \<le> length ws \<Longrightarrow> \<exists>bs. length bs = n \<and> (\<forall>b\<in>set bs. length b = k) \<and> ws = concat bs @ drop (k * n) ws"
proof (induction n arbitrary: ws)
  case 0
  then show ?case by simp
next
  case (Suc n)
  then have "k * n \<le> length (drop k ws)" by simp
  then obtain bs where bs: "length bs = n" "\<forall>b\<in>set bs. length b = k" "drop k ws = concat bs @ drop (k * n) (drop k ws)"
    using Suc.IH by blast
  then have "ws = take k ws @ concat bs @ drop (k * Suc n) ws"
    by (metis append_take_drop_id drop_drop mult_Suc_right add.commute)
  then show ?case using bs Suc.prems by (intro exI [of _ "take k ws # bs"]) auto
qed

lemma length_concat_blocks: "\<forall>b\<in>set bs. length b = k \<Longrightarrow> length (concat bs) = k * length bs"
  by (induction bs) auto

lemma parse_journal_iff: "parse_journal ws entry = Inr n \<longleftrightarrow> holds_nullifier ws entry n"
proof
  assume "parse_journal ws entry = Inr n"
  then obtain cc ws1 ws2 mc ws3 count ws4 where ws: "ws = 0 # 0 # cc # ws1"
      "parse_ciphertexts (unat cc) ws1 = Inr ws2" "ws2 = mc # ws3"
      "drop (32 * unat mc) ws3 = count # ws4" "entry < unat count"
      "parse_bytes 32 (drop (64 * entry) ws4) = Inr n"
    by (auto simp: parse_journal_def bind_res_Inr_iff)
  obtain cts where cts: "length cts = unat cc" "\<forall>c\<in>set cts. length c < 2 ^ 32"
      "ws1 = concat (map counted cts) @ ws2"
    using parse_ciphertexts_Inr [OF ws(2)] ws(3) by blast
  have "32 * unat mc \<le> length ws3" using ws(4) by (metis drop_all linorder_le_cases list.distinct(1))
  then obtain cms where cms: "length cms = unat mc" "\<forall>c\<in>set cms. length c = 32"
      "ws3 = concat cms @ count # ws4"
    using split_blocks [of 32 "unat mc" ws3] ws(4) by auto
  obtain rest where rest: "length n = 32" "drop (64 * entry) ws4 = byte_words n @ rest"
    using ws(6) by (auto simp: parse_bytes_iff)
  have "64 * entry \<le> length ws4"
    using rest by (metis append_is_Nil_conv byte_words_def drop_all length_0_conv linorder_le_cases
        map_is_Nil_conv zero_neq_numeral)
  then obtain before where before: "length before = 64 * entry" "ws4 = before @ byte_words n @ rest"
    using rest(2) by (metis append_take_drop_id length_take min.absorb2)
  have "of_nat (length cts) = cc" "of_nat (length cms) = mc" using cts(1) cms(1) by simp_all
  then show "holds_nullifier ws entry n"
    using ws(1,3,5) cts cms rest(1) before u32_bound [of cc] u32_bound [of mc]
    by (intro holds_nullifierI [of _ cts cms count before _ rest]) simp_all
next
  assume "holds_nullifier ws entry n"
  then obtain cts cms count before rest where h:
      "ws = [0, 0, of_nat (length cts)] @ concat (map counted cts) @ [of_nat (length cms)] @ concat cms @
             [count] @ before @ byte_words n @ rest"
      "length cts < 2 ^ 32" "\<forall>c\<in>set cts. length c < 2 ^ 32"
      "length cms < 2 ^ 32" "\<forall>c\<in>set cms. length c = 32"
      "entry < unat count" "length before = 64 * entry" "length n = 32"
    unfolding holds_nullifier_def by blast
  have "unat (of_nat (length cts) :: u32) = length cts" "unat (of_nat (length cms) :: u32) = length cms"
    using h(2,4) by (simp_all add: unat_of_nat)
  moreover have "parse_bytes 32 (byte_words n @ rest) = Inr n"
    using h(8) by (auto simp: parse_bytes_iff)
  ultimately show "parse_journal ws entry = Inr n"
    using h(6,7) length_concat_blocks [OF h(5)]
    by (simp add: h(1) parse_journal_def parse_ciphertexts_counted [OF h(3)])
qed

section \<open>Properties of the decoder\<close>

text \<open>
  C10: on a journal of whole words the decoder returns a nullifier exactly when the words
  hold it at the given entry; it accepts no other stream.
\<close>

theorem decoder_exact:
  assumes "length journal < 2 ^ 62"
  shows "decode_nullifier_from_journal journal entry = Inr n \<longleftrightarrow>
     length journal mod 4 = 0 \<and> holds_nullifier (words_of journal) (unat entry) n"
proof (cases "length journal mod 4 = 0")
  case True
  then show ?thesis using decode_refines_parser [OF assms] by (simp add: parse_journal_iff)
next
  case False
  then show ?thesis by (simp add: decode_nullifier_from_journal_def require_def)
qed

text \<open>A serialised circuit output, as the module documentation lays it out.\<close>

record circuit_output =
  ciphertexts :: "u8 list list"
  new_commitments :: "u8 list list"
  new_nullifiers :: "(u8 list \<times> u8 list) list"

definition nullifier_entry :: "u8 list \<times> u8 list \<Rightarrow> u32 list" where
  "nullifier_entry p = byte_words (fst p) @ byte_words (snd p)"

definition output_words :: "circuit_output \<Rightarrow> u32 list" where
  "output_words out = [0, 0, of_nat (length (ciphertexts out))] @
     concat (map (\<lambda>c. counted (byte_words c)) (ciphertexts out)) @
     [of_nat (length (new_commitments out))] @ concat (map byte_words (new_commitments out)) @
     [of_nat (length (new_nullifiers out))] @ concat (map nullifier_entry (new_nullifiers out))"

definition serialise :: "u32 list \<Rightarrow> u8 list" where
  "serialise ws = concat (map (to_le 4) ws)"

definition output_ok :: "circuit_output \<Rightarrow> bool" where
  "output_ok out \<longleftrightarrow> length (ciphertexts out) < 2 ^ 32 \<and> (\<forall>c\<in>set (ciphertexts out). length c < 2 ^ 32) \<and>
     length (new_commitments out) < 2 ^ 32 \<and> (\<forall>c\<in>set (new_commitments out). length c = 32) \<and>
     length (new_nullifiers out) < 2 ^ 32 \<and>
     (\<forall>p\<in>set (new_nullifiers out). length (fst p) = 32 \<and> length (snd p) = 32)"

lemma length_serialise [simp]: "length (serialise ws) = 4 * length ws"
  by (induction ws) (simp_all add: serialise_def)

lemma words_of_Cons: "length bs = 4 \<Longrightarrow> words_of (bs @ j) = from_le bs # words_of j"
proof (rule nth_equalityI)
  assume bs: "length bs = 4"
  show "length (words_of (bs @ j)) = length (from_le bs # words_of j)" using bs by simp
  fix i
  assume "i < length (words_of (bs @ j))"
  then show "words_of (bs @ j) ! i = (from_le bs # words_of j) ! i"
    using bs by (cases i) simp_all
qed

lemma words_of_serialise [simp]: "words_of (serialise ws) = ws"
proof (induction ws)
  case Nil
  then show ?case by (simp add: serialise_def words_of_def)
next
  case (Cons w ws)
  have "words_of (serialise (w # ws)) = from_le (to_le 4 w) # words_of (serialise ws)"
    unfolding serialise_def list.map concat.simps by (rule words_of_Cons) simp
  then show ?case using Cons by simp
qed

lemma length_byte_words [simp]: "length (byte_words bs) = length bs"
  by (simp add: byte_words_def)

lemma concat_map_split:
  "k < length xs \<Longrightarrow>
   concat (map f xs) = concat (map f (take k xs)) @ f (xs ! k) @ concat (map f (drop (Suc k) xs))"
proof (induction xs arbitrary: k)
  case (Cons x xs)
  then show ?case by (cases k) simp_all
qed simp

lemma output_holds:
  assumes "output_ok out" "entry < length (new_nullifiers out)"
  shows "holds_nullifier (output_words out @ trailing) entry (fst (new_nullifiers out ! entry))"
proof -
  let ?ns = "new_nullifiers out"
  have "concat (map nullifier_entry ?ns) = concat (map nullifier_entry (take entry ?ns)) @
      byte_words (fst (?ns ! entry)) @ byte_words (snd (?ns ! entry)) @
      concat (map nullifier_entry (drop (Suc entry) ?ns))"
    using concat_map_split [OF assms(2), of nullifier_entry] by (simp add: nullifier_entry_def)
  moreover have "\<forall>b\<in>set (map nullifier_entry (take entry ?ns)). length b = 64"
    using assms(1) by (auto simp: output_ok_def nullifier_entry_def dest!: in_set_takeD)
  then have "length (concat (map nullifier_entry (take entry ?ns))) = 64 * entry"
    using length_concat_blocks [of "map nullifier_entry (take entry ?ns)" 64] assms(2) by simp
  moreover have "length (fst (?ns ! entry)) = 32"
    using assms nth_mem [OF assms(2)] by (auto simp: output_ok_def)
  ultimately show ?thesis
    using assms unfolding output_words_def output_ok_def
    by (intro holds_nullifierI [of _ "map byte_words (ciphertexts out)" "map byte_words (new_commitments out)"
          "of_nat (length ?ns)" "concat (map nullifier_entry (take entry ?ns))" _
          "byte_words (snd (?ns ! entry)) @ concat (map nullifier_entry (drop (Suc entry) ?ns)) @ trailing"])
      (simp_all add: unat_of_nat comp_def)
qed

lemma output_out_of_range:
  assumes "output_ok out" "length (new_nullifiers out) \<le> entry"
  shows "parse_journal (output_words out @ trailing) entry = Inl (Fault NullifierIndexOutOfRange)"
proof -
  have c: "parse_ciphertexts (length (ciphertexts out))
      (concat (map (\<lambda>c. counted (byte_words c)) (ciphertexts out)) @ rest) = Inr rest" for rest
    using parse_ciphertexts_counted [of "map byte_words (ciphertexts out)" rest] assms(1)
    by (auto simp: output_ok_def comp_def)
  have m: "length (concat (map byte_words (new_commitments out))) = 32 * length (new_commitments out)"
    using length_concat_blocks [of "map byte_words (new_commitments out)" 32] assms(1)
    by (auto simp: output_ok_def)
  have u: "unat (of_nat (length (ciphertexts out)) :: u32) = length (ciphertexts out)"
      "unat (of_nat (length (new_commitments out)) :: u32) = length (new_commitments out)"
      "unat (of_nat (length (new_nullifiers out)) :: u32) = length (new_nullifiers out)"
    using assms(1) by (simp_all add: output_ok_def unat_of_nat)
  show ?thesis
    using assms(2) by (simp add: parse_journal_def output_words_def u c m require_def)
qed

text \<open>
  C15: decoding the serialisation of a circuit output, whatever follows it, gives the
  nullifier of each of its entries, and \<open>NullifierIndexOutOfRange\<close> beyond them.
\<close>

theorem decode_serialise:
  assumes "output_ok out" "length (output_words out @ trailing) < 2 ^ 60"
  shows "decode_nullifier_from_journal (serialise (output_words out @ trailing)) entry =
     (if unat entry < length (new_nullifiers out) then Inr (fst (new_nullifiers out ! unat entry))
      else Inl (Fault NullifierIndexOutOfRange))"
  using decode_refines_parser [of "serialise (output_words out @ trailing)" entry] assms(2)
    output_holds [OF assms(1), of "unat entry" trailing]
    output_out_of_range [OF assms(1), of "unat entry" trailing]
  by (simp add: parse_journal_iff)

definition demo_output :: circuit_output where
  "demo_output = \<lparr>ciphertexts = [[1, 2, 3]], new_commitments = [replicate 32 7],
     new_nullifiers = [(replicate 32 0x39, replicate 32 0xAB)]\<rparr>"

lemma demo_output_ok: "output_ok demo_output"
  by (simp add: output_ok_def demo_output_def)

lemma demo_output_length: "length (output_words demo_output) = 105"
  by (simp add: output_words_def demo_output_def nullifier_entry_def counted_def byte_words_def)

theorem decode_serialise_witness:
  "decode_nullifier_from_journal (serialise (output_words demo_output @ [0, 0, 0, 0])) 0 = Inr (replicate 32 0x39)"
  using decode_serialise [OF demo_output_ok, of "[0, 0, 0, 0]" 0]
  by (simp add: demo_output_length) (simp add: demo_output_def)

theorem decoder_exact_witness:
  "length (serialise (output_words demo_output)) mod 4 = 0 \<and>
   holds_nullifier (words_of (serialise (output_words demo_output))) (unat (0 :: u8)) (replicate 32 0x39)"
proof (rule decoder_exact [THEN iffD1])
  show "decode_nullifier_from_journal (serialise (output_words demo_output)) 0 = Inr (replicate 32 0x39)"
    using decode_refines_parser [of "serialise (output_words demo_output)" 0] demo_output_length
      output_holds [OF demo_output_ok, of 0 "[]"]
    by (simp add: parse_journal_iff demo_output_def)
qed (simp add: demo_output_length)

lemma parse_bytes_faults: "parse_bytes n ws = Inl e \<Longrightarrow> \<exists>x. e = Fault x"
  by (induction n arbitrary: ws) (auto simp: bind_res_Inl_iff)

lemma parse_ciphertexts_faults: "parse_ciphertexts n ws = Inl e \<Longrightarrow> \<exists>x. e = Fault x"
  by (induction n arbitrary: ws) (auto simp: bind_res_Inl_iff)

text \<open>
  C18: the decoder never panics: every journal of any shape gives a nullifier of 32 bytes or
  one of the five errors.
\<close>

theorem decoder_total:
  assumes "length journal < 2 ^ 62"
  shows "(\<exists>n. decode_nullifier_from_journal journal entry = Inr n \<and> length n = 32) \<or>
     (\<exists>x. decode_nullifier_from_journal journal entry = Inl (Fault x))"
proof (cases "length journal mod 4 = 0")
  case True
  have "(\<exists>n. parse_journal ws k = Inr n \<and> length n = 32) \<or> (\<exists>x. parse_journal ws k = Inl (Fault x))" for ws k
  proof (cases "parse_journal ws k")
    case (Inl e)
    then have "\<exists>x. e = Fault x"
      by (auto simp: parse_journal_def bind_res_Inl_iff
          dest: parse_bytes_faults parse_ciphertexts_faults)
    then show ?thesis using Inl by auto
  next
    case (Inr n)
    then have "holds_nullifier ws k n" by (simp add: parse_journal_iff)
    then show ?thesis using Inr by (auto simp: holds_nullifier_def)
  qed
  then show ?thesis using decode_refines_parser [OF assms True] by simp
next
  case False
  then show ?thesis by (simp add: decode_nullifier_from_journal_def require_def)
qed

theorem decoder_total_witness:
  "(\<exists>n. decode_nullifier_from_journal [1, 2, 3, 4, 5] 7 = Inr n \<and> length n = 32) \<or>
   (\<exists>x. decode_nullifier_from_journal [1, 2, 3, 4, 5] 7 = Inl (Fault x))"
  by (rule decoder_total) simp

end
