(* ===== verification/Journal_Tests.thy ===== *)
theory Journal_Tests
  imports Journal_Decode
begin

text \<open>
  The unit tests of the journal decoder (\<open>mod tests\<close> of
  \<open>coordinator/programs/coordinator/src/journal_decode.rs\<close>), for every nullifier and digest
  in place of the ones the tests pick.
\<close>

definition build_test_journal :: "u8 list \<Rightarrow> u8 list \<Rightarrow> u8 list" where
  "build_test_journal nullifier digest =
     (let w = [0, 0, 1, 68] @ replicate 68 0 @ [1] @ replicate 32 0 @ [1] @ map ucast nullifier @ map ucast digest @
        replicate 4 0
      in concat (map (to_le 4) (w :: u32 list)))"

definition test_output :: "u8 list \<Rightarrow> u8 list \<Rightarrow> circuit_output" where
  "test_output nullifier digest = \<lparr>ciphertexts = [replicate 68 0], new_commitments = [replicate 32 0],
     new_nullifiers = [(nullifier, digest)]\<rparr>"

lemma test_output_ok:
  "length nullifier = 32 \<Longrightarrow> length digest = 32 \<Longrightarrow> output_ok (test_output nullifier digest)"
  by (simp add: output_ok_def test_output_def)

text \<open>The journal the tests build is the serialisation of a circuit output and four more words.\<close>

lemma build_test_journal_output:
  "build_test_journal nullifier digest = serialise (output_words (test_output nullifier digest) @ replicate 4 0)"
  by (simp add: build_test_journal_def serialise_def output_words_def test_output_def counted_def byte_words_def
      nullifier_entry_def Let_def)

lemma build_test_journal_length:
  assumes "length nullifier = 32" "length digest = 32"
  shows "length (build_test_journal nullifier digest) = 696"
  using assms
  by (simp add: build_test_journal_output output_words_def test_output_def counted_def byte_words_def nullifier_entry_def)

text \<open>
  The four tests: the journal has 696 bytes and holds its nullifier at entry 0; any other entry
  is out of range; a journal that is no sequence of words is refused, and so is one whose
  first word, the number of public accounts, is not zero.
\<close>

theorem decoder_unit_tests:
  assumes "length nullifier = 32" "length digest = 32"
  shows "length (build_test_journal nullifier digest) = 696 \<and>
     decode_nullifier_from_journal (build_test_journal nullifier digest) 0 = Inr nullifier \<and>
     (\<forall>entry. entry \<noteq> 0 \<longrightarrow> decode_nullifier_from_journal (build_test_journal nullifier digest) entry =
        Inl (Fault NullifierIndexOutOfRange)) \<and>
     decode_nullifier_from_journal (replicate 7 0) 0 = Inl (Fault NotWordAligned) \<and>
     decode_nullifier_from_journal (splice 0 (to_le 4 (1 :: u32)) (build_test_journal nullifier digest)) 0 =
       Inl (Fault UnsupportedShape)"
proof (intro conjI allI impI)
  let ?out = "test_output nullifier digest"
  let ?j = "build_test_journal nullifier digest"
  note ok = test_output_ok [OF assms] and j = build_test_journal_output [of nullifier digest]
  show len: "length ?j = 696" by (rule build_test_journal_length [OF assms])
  have parse: "decode_nullifier_from_journal ?j entry = parse_journal (output_words ?out @ replicate 4 0) (unat entry)" for entry
    using decode_refines_parser [of ?j entry] len by (simp add: j)
  show "decode_nullifier_from_journal ?j 0 = Inr nullifier"
    using output_holds [OF ok, of 0 "replicate 4 0"] by (simp add: parse parse_journal_iff test_output_def)
  show "decode_nullifier_from_journal ?j entry = Inl (Fault NullifierIndexOutOfRange)" if "entry \<noteq> 0" for entry
  proof -
    have "unat entry \<noteq> 0" using that by (simp add: unat_eq_0)
    then show ?thesis unfolding parse by (intro output_out_of_range [OF ok]) (simp add: test_output_def)
  qed
  show "decode_nullifier_from_journal (replicate 7 0) 0 = Inl (Fault NotWordAligned)"
    by (simp add: decode_nullifier_from_journal_def require_def)
  let ?c = "splice 0 (to_le 4 (1 :: u32)) ?j"
  have "?c = serialise (1 # tl (output_words ?out @ replicate 4 0))"
    by (simp add: j splice_def serialise_def output_words_def)
  then have "decode_nullifier_from_journal ?c 0 = parse_journal (1 # tl (output_words ?out @ replicate 4 0)) 0"
    using decode_refines_parser [of ?c 0] len by (simp add: j)
  then show "decode_nullifier_from_journal ?c 0 = Inl (Fault UnsupportedShape)"
    by (simp add: parse_journal_def next_word_def)
qed

theorem decoder_unit_tests_witness:
  "decode_nullifier_from_journal (build_test_journal (replicate 32 0x39) (replicate 32 0xAB)) 0 = Inr (replicate 32 0x39)"
  using decoder_unit_tests [of "replicate 32 0x39" "replicate 32 0xAB"] by simp

section \<open>The tests as they stand\<close>

text \<open>\<open>hex::decode\<close> of the constant.\<close>

definition known_nullifier :: "u8 list" where
  "known_nullifier = [
     0x39, 0xe1, 0x5e, 0xad, 0xcb, 0xc6, 0x84, 0xbf, 0xca, 0x46, 0xf7, 0x6b,
     0xec, 0x41, 0x82, 0xd7, 0x1c, 0xf5, 0xb2, 0x68, 0x33, 0xd6, 0xe2, 0x0a,
     0xf0, 0xb2, 0x83, 0x51, 0x5d, 0x9f, 0x92, 0xb2]"

definition assert :: "bool \<Rightarrow> (unit, unit) res" where
  "assert b = (if b then Inr () else Inl Panic)"

definition decodes_known_nullifier :: "(unit, unit) res" where
  "decodes_known_nullifier =
     (let journal = build_test_journal known_nullifier (replicate 32 0xAB) in
     bind_res (assert (length journal = 696)) (\<lambda>_.
     bind_res (unwrap_result (decode_nullifier_from_journal journal 0)) (\<lambda>decoded.
       assert (decoded = known_nullifier))))"

definition rejects_out_of_range_index :: "(unit, unit) res" where
  "rejects_out_of_range_index =
     (let journal = build_test_journal (replicate 32 0x39) (replicate 32 0xAB) in
     case decode_nullifier_from_journal journal 1 of Inl (Fault _) \<Rightarrow> Inr () | _ \<Rightarrow> Inl Panic)"

definition rejects_non_word_aligned_journal :: "(unit, unit) res" where
  "rejects_non_word_aligned_journal =
     (case decode_nullifier_from_journal (replicate 7 0) 0 of Inl (Fault _) \<Rightarrow> Inr () | _ \<Rightarrow> Inl Panic)"

definition rejects_nonempty_public_states :: "(unit, unit) res" where
  "rejects_nonempty_public_states =
     (let journal = splice 0 (to_le 4 (1 :: u32)) (build_test_journal (replicate 32 0) (replicate 32 0)) in
     case decode_nullifier_from_journal journal 0 of Inl (Fault _) \<Rightarrow> Inr () | _ \<Rightarrow> Inl Panic)"

text \<open>They pass.\<close>

theorem decoder_tests_pass:
  "decodes_known_nullifier = Inr () \<and> rejects_out_of_range_index = Inr () \<and>
   rejects_non_word_aligned_journal = Inr () \<and> rejects_nonempty_public_states = Inr ()"
proof -
  have l: "length known_nullifier = 32" by (simp add: known_nullifier_def)
  have r: "length (replicate 32 c) = 32" for c :: u8 by simp
  note t1 = decoder_unit_tests [OF l r [where c = "0xAB"]] and t2 = decoder_unit_tests [OF r [where c = "0x39"] r [where c = "0xAB"]]
    and t3 = decoder_unit_tests [OF r [where c = 0] r [where c = 0]]
  have "decode_nullifier_from_journal (build_test_journal (replicate 32 0x39) (replicate 32 0xAB)) 1 =
      Inl (Fault NullifierIndexOutOfRange)"
    using t2 by simp
  then show ?thesis
    using t1 t3
    by (simp add: decodes_known_nullifier_def rejects_out_of_range_index_def rejects_non_word_aligned_journal_def
        rejects_nonempty_public_states_def assert_def Let_def)
qed

end
