(* ===== verification/Ledger.thy ===== *)
theory Ledger
  imports Journal_Decode "HOL-Library.Option_ord"
begin

text \<open>
  The ledger the two on-chain programs run on: the accounts each program owns, the state of
  every other program, and the event log; the Solana runtime, SHA-256, the system program
  and the RISC Zero verifier router are a record of parameters. A transaction that returns
  an error leaves the ledger as it was, so an instruction is a function that returns the new
  ledger or an error.
\<close>

section \<open>Accounts\<close>

type_synonym pubkey = "u8 list"

text \<open>The account types of the coordinator (\<open>Config\<close>, \<open>JournalAccount\<close>, \<open>SpentNullifier\<close>).\<close>

record config =
  image_id :: "u8 list"
  authority :: pubkey
  verified_count :: u64

datatype coord_account = Config_account config | Journal_account "u8 list" | Spent_nullifier

text \<open>
  How an account may develop: a config keeps its image id and authority and its count does
  not go down, the other accounts do not change. With the order of options and functions,
  \<open>coord w \<le> coord w'\<close> says that every account of \<open>w\<close> is still there in \<open>w'\<close> and developed
  that way.
\<close>

instantiation coord_account :: order
begin

definition less_eq_coord_account :: "coord_account \<Rightarrow> coord_account \<Rightarrow> bool" where
  "a \<le> b \<longleftrightarrow> (case (a, b) of
     (Config_account c, Config_account c') \<Rightarrow>
       image_id c' = image_id c \<and> authority c' = authority c \<and> verified_count c \<le> verified_count c'
   | _ \<Rightarrow> a = b)"

definition less_coord_account :: "coord_account \<Rightarrow> coord_account \<Rightarrow> bool" where
  "a < b \<longleftrightarrow> a \<le> b \<and> \<not> b \<le> (a :: coord_account)"

instance
  by standard
    (auto simp: less_eq_coord_account_def less_coord_account_def split: coord_account.splits)

end

lemma account_le_iff:
  "Config_account c \<le> b \<longleftrightarrow> (\<exists>c'. b = Config_account c' \<and> image_id c' = image_id c \<and>
     authority c' = authority c \<and> verified_count c \<le> verified_count c')"
  "Journal_account d \<le> b \<longleftrightarrow> b = Journal_account d"
  "Spent_nullifier \<le> b \<longleftrightarrow> b = Spent_nullifier"
  by (auto simp: less_eq_coord_account_def split: coord_account.splits)

lemma accounts_leD:
  assumes "f \<le> (g :: 'k \<Rightarrow> coord_account option)" "f k = Some a"
  shows "\<exists>b. g k = Some b \<and> a \<le> b"
  using le_funD [OF assms(1), of k] assms(2) by (cases "g k") simp_all

text \<open>The account type of the consumer (\<open>Registry\<close>).\<close>

record registry =
  reg_count :: u64
  reg_authority :: pubkey

datatype event =
    PredicateVerified pubkey "u8 list"
  | VerificationRecorded "u8 list" u64

text \<open>
  An account is owned by one program, and only its owner changes its data: \<open>coord\<close> and
  \<open>cons\<close> hold the accounts of the coordinator and the consumer by address, \<open>foreign\<close> is
  the state of everything else (lamports included).
\<close>

record 'f ledger =
  coord :: "pubkey \<Rightarrow> coord_account option"
  cons :: "pubkey \<Rightarrow> registry option"
  foreign :: 'f
  events :: "event list"

section \<open>The platform\<close>

record seal =
  selector :: "u8 list"
  proof_bytes :: "u8 list"

text \<open>
  The parameters: program ids, \<open>find_program_address\<close>, SHA-256, account creation by the
  system program (payer, address, space; it fails when the address is in use elsewhere or
  the payer cannot pay), the typed account checks and the verdict of the verifier router,
  and the effect of a program other than the consumer when it is called with
  \<open>record_verification\<close>: a new foreign state and the calls it makes in turn to the
  consumer (registry, caller, nullifier; the caller's signature is passed on).
\<close>

record 'f platform =
  coordinator_id :: pubkey
  consumer_id :: pubkey
  router_id :: pubkey
  system_id :: pubkey
  pda :: "u8 list list \<Rightarrow> pubkey \<Rightarrow> pubkey"
  sha256 :: "u8 list \<Rightarrow> u8 list"
  create_account :: "'f \<Rightarrow> pubkey \<Rightarrow> pubkey \<Rightarrow> nat \<Rightarrow> 'f option"
  is_router :: "'f \<Rightarrow> pubkey \<Rightarrow> bool"
  is_verifier_entry :: "'f \<Rightarrow> pubkey \<Rightarrow> bool"
  router_verify :: "'f \<Rightarrow> pubkey \<Rightarrow> pubkey \<Rightarrow> pubkey \<Rightarrow> seal \<Rightarrow> u8 list \<Rightarrow> u8 list \<Rightarrow> bool"
  foreign_cpi :: "'f \<Rightarrow> pubkey \<Rightarrow> pubkey \<Rightarrow> pubkey \<Rightarrow> u8 list \<Rightarrow> ('f \<times> (pubkey \<times> pubkey \<times> u8 list) list) option"

text \<open>
  The errors: an account constraint of Anchor (address, type, signer or \<open>init\<close>), the
  errors of the coordinator and the decoder, and a failed call to the router or a consumer.
\<close>

datatype chain_error =
    Constraint
  | JournalTooLarge
  | JournalDigestMismatch
  | NullifierMismatch
  | Journal journal_error
  | RouterFailed
  | ConsumerFailed

definition bytes :: "string \<Rightarrow> u8 list" where
  "bytes s = map (\<lambda>c. of_nat (of_char c)) s"

text \<open>Anchor's \<open>init\<close>: the account must not exist; the system program creates it.\<close>

definition init_account :: "'f platform \<Rightarrow> pubkey \<Rightarrow> pubkey \<Rightarrow> nat \<Rightarrow> 'f ledger \<Rightarrow> (chain_error, 'f ledger) res" where
  "init_account pl payer key space w =
     bind_res (require (coord w key = None \<and> cons w key = None) Constraint) (\<lambda>_.
     bind_res (ok_or Constraint (create_account pl (foreign w) payer key space)) (\<lambda>f.
       Inr (w\<lparr>foreign := f\<rparr>)))"

definition saturating_inc :: "u64 \<Rightarrow> u64" where
  "saturating_inc c = (if 2 ^ 64 \<le> unat c + 1 then 0xFFFFFFFFFFFFFFFF else c + 1)"

lemma unat_saturating_inc: "unat (saturating_inc c) = min (unat c + 1) (2 ^ 64 - 1)"
  using unat_u64_less [of c] unat_add_u64_lt [of c 1] by (simp add: saturating_inc_def min_def)

lemma init_account_Inr_iff:
  "init_account pl payer key space w = Inr w' \<longleftrightarrow>
     coord w key = None \<and> cons w key = None \<and>
     (\<exists>f. create_account pl (foreign w) payer key space = Some f \<and> w' = w\<lparr>foreign := f\<rparr>)"
  by (auto simp: init_account_def bind_res_Inr_iff)

section \<open>Addresses\<close>

definition config_key :: "'f platform \<Rightarrow> pubkey" where
  "config_key pl = pda pl [bytes ''config''] (coordinator_id pl)"

definition journal_key :: "'f platform \<Rightarrow> u8 list \<Rightarrow> pubkey" where
  "journal_key pl digest = pda pl [bytes ''journal'', digest] (coordinator_id pl)"

definition nullifier_key :: "'f platform \<Rightarrow> u8 list \<Rightarrow> pubkey" where
  "nullifier_key pl n = pda pl [bytes ''nullifier'', n] (coordinator_id pl)"

definition registry_key :: "'f platform \<Rightarrow> pubkey" where
  "registry_key pl = pda pl [bytes ''registry''] (consumer_id pl)"

definition verifier_key :: "'f platform \<Rightarrow> u8 list \<Rightarrow> pubkey" where
  "verifier_key pl sel = pda pl [bytes ''verifier'', sel] (router_id pl)"

text \<open>
  What the programs rely on of the platform: derived addresses do not collide (they are
  hashes of the concatenated seeds and the program id) and digests are 32 bytes long.
\<close>

definition platform_ok :: "'f platform \<Rightarrow> bool" where
  "platform_ok pl \<longleftrightarrow>
     (\<forall>s s' p p'. pda pl s p = pda pl s' p' \<longrightarrow> concat s = concat s' \<and> p = p') \<and>
     (\<forall>d. length (sha256 pl d) = 32)"

lemma keys_distinct:
  assumes "platform_ok pl" "length d = 32" "length n = 32" "length n' = 32" "length d' = 32"
  shows "config_key pl \<noteq> journal_key pl d" "config_key pl \<noteq> nullifier_key pl n"
    "journal_key pl d \<noteq> nullifier_key pl n"
    "nullifier_key pl n = nullifier_key pl n' \<longleftrightarrow> n = n'"
    "journal_key pl d = journal_key pl d' \<longleftrightarrow> d = d'"
proof -
  have c: "concat s = concat s'" if "pda pl s p = pda pl s' p'" for s s' p p'
    using assms(1) that unfolding platform_ok_def by blast
  have c': "length (concat s) = length (concat s')" if "pda pl s p = pda pl s' p'" for s s' p p'
    using c [OF that] by simp
  have l: "length (bytes ''config'') = 6" "length (bytes ''journal'') = 7" "length (bytes ''nullifier'') = 9"
    by (simp_all add: bytes_def)
  show "config_key pl \<noteq> journal_key pl d" "config_key pl \<noteq> nullifier_key pl n"
    "journal_key pl d \<noteq> nullifier_key pl n"
    using assms(2-) l unfolding config_key_def journal_key_def nullifier_key_def
    by (auto dest!: c' )
  show "nullifier_key pl n = nullifier_key pl n' \<longleftrightarrow> n = n'"
    "journal_key pl d = journal_key pl d' \<longleftrightarrow> d = d'"
    unfolding nullifier_key_def journal_key_def by (auto dest!: c)
qed

end
