(* ===== verification/Consumer.thy ===== *)
theory Consumer
  imports Ledger
begin

text \<open>
  The consumer program (\<open>coordinator/programs/consumer/src/lib.rs\<close>): a registry that counts
  verifications. Any signer may record one.
\<close>

record init_registry_accounts =
  ir_registry :: pubkey
  ir_authority :: pubkey
  ir_signed :: bool
  ir_system :: pubkey

definition consumer_initialize ::
  "'f platform \<Rightarrow> init_registry_accounts \<Rightarrow> 'f ledger \<Rightarrow> (chain_error, 'f ledger) res"
where
  "consumer_initialize pl a w =
     bind_res (require (ir_registry a = registry_key pl) Constraint) (\<lambda>_.
     bind_res (init_account pl (ir_authority a) (ir_registry a) (8 + 8 + 32) w) (\<lambda>w.
     bind_res (require (ir_signed a \<and> ir_system a = system_id pl) Constraint) (\<lambda>_.
       Inr (w\<lparr>cons := (cons w)(ir_registry a \<mapsto>
         \<lparr>reg_count = 0, reg_authority = ir_authority a\<rparr>)\<rparr>))))"

text \<open>
  \<open>record_verification\<close>; the flag tells whether the caller signed the transaction or the
  calling program passed the signature on.
\<close>

definition record_verification ::
  "'f platform \<Rightarrow> pubkey \<Rightarrow> pubkey \<Rightarrow> bool \<Rightarrow> u8 list \<Rightarrow> 'f ledger \<Rightarrow> (chain_error, 'f ledger) res"
where
  "record_verification pl reg_key caller is_signer nullifier w =
     bind_res (require (reg_key = registry_key pl) Constraint) (\<lambda>_.
     bind_res (ok_or Constraint (cons w reg_key)) (\<lambda>reg.
     bind_res (require is_signer Constraint) (\<lambda>_.
     let count = saturating_inc (reg_count reg)
     in Inr (w\<lparr>cons := (cons w)(reg_key \<mapsto> reg\<lparr>reg_count := count\<rparr>),
               events := events w @ [VerificationRecorded nullifier count]\<rparr>))))"

text \<open>A call to a consumer program: the consumer itself, or any other program.\<close>

primrec record_all :: "'f platform \<Rightarrow> (pubkey \<times> pubkey \<times> u8 list) list \<Rightarrow> 'f ledger \<Rightarrow> (chain_error, 'f ledger) res" where
  "record_all pl [] w = Inr w"
| "record_all pl (c # cs) w =
     (case c of (reg_key, caller, n) \<Rightarrow>
        bind_res (record_verification pl reg_key caller True n w) (\<lambda>w. record_all pl cs w))"

definition call_consumer ::
  "'f platform \<Rightarrow> pubkey \<Rightarrow> pubkey \<Rightarrow> pubkey \<Rightarrow> u8 list \<Rightarrow> 'f ledger \<Rightarrow> (chain_error, 'f ledger) res"
where
  "call_consumer pl program reg_key caller n w =
     (if program = consumer_id pl then record_verification pl reg_key caller True n w
      else bind_res (ok_or ConsumerFailed (foreign_cpi pl (foreign w) program reg_key caller n)) (\<lambda>(f, calls).
           record_all pl calls (w\<lparr>foreign := f\<rparr>)))"

section \<open>What a call to a consumer leaves alone\<close>

text \<open>
  The contract the coordinator relies on: whatever program is called, the coordinator's
  accounts do not change and events are only added.
\<close>

locale isolated_call =
  fixes call :: "'f ledger \<Rightarrow> (chain_error, 'f ledger) res"
  assumes keeps_coord: "call w = Inr w' \<Longrightarrow> coord w' = coord w"
    and adds_events: "call w = Inr w' \<Longrightarrow> \<exists>es. events w' = events w @ es \<and>
      list_all (\<lambda>e. \<exists>n c. e = VerificationRecorded n c) es"
begin

lemma keeps_predicate_events:
  assumes "call w = Inr w'"
  shows "filter (\<lambda>e. \<exists>k n. e = PredicateVerified k n) (events w') =
     filter (\<lambda>e. \<exists>k n. e = PredicateVerified k n) (events w)"
proof -
  obtain es where es: "events w' = events w @ es" "list_all (\<lambda>e. \<exists>n c. e = VerificationRecorded n c) es"
    using adds_events [OF assms] by blast
  from es(2) have "filter (\<lambda>e. \<exists>k n. e = PredicateVerified k n) es = []"
    by (auto simp: filter_empty_conv list_all_iff)
  then show ?thesis by (simp add: es(1))
qed

end

lemma record_verification_Inr_iff:
  "record_verification pl rk c s n w = Inr w' \<longleftrightarrow> rk = registry_key pl \<and> s \<and>
     (\<exists>reg. cons w rk = Some reg \<and>
        w' = w\<lparr>cons := (cons w)(rk \<mapsto> reg\<lparr>reg_count := saturating_inc (reg_count reg)\<rparr>),
               events := events w @ [VerificationRecorded n (saturating_inc (reg_count reg))]\<rparr>)"
  by (auto simp: record_verification_def bind_res_Inr_iff Let_def)

lemma record_all_keeps:
  assumes "record_all pl cs w = Inr w'"
  shows "coord w' = coord w \<and> (\<exists>es. events w' = events w @ es \<and>
      list_all (\<lambda>e. \<exists>n c. e = VerificationRecorded n c) es)"
  using assms
proof (induction cs arbitrary: w)
  case (Cons c cs)
  then obtain rk k n w1 where w1: "record_verification pl rk k True n w = Inr w1" "record_all pl cs w1 = Inr w'"
    by (cases c) (auto simp: bind_res_Inr_iff)
  from w1(1) obtain cnt where "coord w1 = coord w" "events w1 = events w @ [VerificationRecorded n cnt]"
    by (auto simp: record_verification_Inr_iff)
  moreover obtain es where "coord w' = coord w1" "events w' = events w1 @ es"
      "list_all (\<lambda>e. \<exists>n c. e = VerificationRecorded n c) es"
    using Cons.IH [OF w1(2)] by blast
  ultimately show ?case by (intro conjI exI [of _ "VerificationRecorded n cnt # es"]) simp_all
qed simp

interpretation consumer_call: isolated_call "call_consumer pl program reg_key caller n"
  for pl :: "'f platform" and program reg_key caller n
proof unfold_locales
  fix w w' :: "'f ledger"
  assume c: "call_consumer pl program reg_key caller n w = Inr w'"
  have "coord w' = coord w \<and> (\<exists>es. events w' = events w @ es \<and>
      list_all (\<lambda>e. \<exists>n c. e = VerificationRecorded n c) es)"
  proof (cases "program = consumer_id pl")
    case True
    then show ?thesis using c by (auto simp: call_consumer_def record_verification_Inr_iff)
  next
    case False
    then obtain f calls where "record_all pl calls (w\<lparr>foreign := f\<rparr>) = Inr w'"
      using c by (auto simp: call_consumer_def bind_res_Inr_iff)
    from record_all_keeps [OF this] show ?thesis by simp
  qed
  then show "coord w' = coord w" "\<exists>es. events w' = events w @ es \<and>
      list_all (\<lambda>e. \<exists>n c. e = VerificationRecorded n c) es" by blast+
qed

end
