(* ===== verification/Coordinator.thy ===== *)
theory Coordinator
  imports Consumer
begin

text \<open>
  The coordinator program (\<open>coordinator/programs/coordinator/src/lib.rs\<close>): its three
  instructions with their account constraints. Anchor validates and creates the accounts in
  the order of the struct before the handler runs; an error at any point reverts the
  transaction.
\<close>

definition MAX_JOURNAL_LEN :: nat where "MAX_JOURNAL_LEN = 2048"

section \<open>initialize\<close>

record init_accounts =
  ia_config :: pubkey
  ia_authority :: pubkey
  ia_signed :: bool
  ia_system :: pubkey

definition initialize :: "'f platform \<Rightarrow> init_accounts \<Rightarrow> u8 list \<Rightarrow> 'f ledger \<Rightarrow> (chain_error, 'f ledger) res" where
  "initialize pl a img w =
     bind_res (require (ia_config a = config_key pl) Constraint) (\<lambda>_.
     bind_res (init_account pl (ia_authority a) (ia_config a) (8 + 32 + 32 + 8) w) (\<lambda>w.
     bind_res (require (ia_signed a \<and> ia_system a = system_id pl) Constraint) (\<lambda>_.
       Inr (w\<lparr>coord := (coord w)(ia_config a \<mapsto> Config_account
         \<lparr>image_id = img, authority = ia_authority a, verified_count = 0\<rparr>)\<rparr>))))"

section \<open>store_journal\<close>

record store_accounts =
  sa_journal :: pubkey
  sa_payer :: pubkey
  sa_signed :: bool
  sa_system :: pubkey

definition store_journal :: "'f platform \<Rightarrow> store_accounts \<Rightarrow> u8 list \<Rightarrow> 'f ledger \<Rightarrow> (chain_error, 'f ledger) res" where
  "store_journal pl a journal w =
     bind_res (require (sa_journal a = journal_key pl (sha256 pl journal)) Constraint) (\<lambda>_.
     bind_res (init_account pl (sa_payer a) (sa_journal a) (8 + 4 + length journal) w) (\<lambda>w.
     bind_res (require (sa_signed a \<and> sa_system a = system_id pl) Constraint) (\<lambda>_.
     bind_res (require (length journal \<le> MAX_JOURNAL_LEN) JournalTooLarge) (\<lambda>_.
       Inr (w\<lparr>coord := (coord w)(sa_journal a \<mapsto> Journal_account journal)\<rparr>)))))"

section \<open>verify_predicate\<close>

record verify_accounts =
  va_config :: pubkey
  va_journal :: pubkey
  va_spent :: pubkey
  va_router :: pubkey
  va_router_account :: pubkey
  va_verifier_entry :: pubkey
  va_verifier_program :: pubkey
  va_consumer_program :: pubkey
  va_consumer_registry :: pubkey
  va_caller :: pubkey
  va_signed :: bool
  va_system :: pubkey

definition load_config :: "'f ledger \<Rightarrow> pubkey \<Rightarrow> (chain_error, config) res" where
  "load_config w key = (case coord w key of Some (Config_account c) \<Rightarrow> Inr c | _ \<Rightarrow> Inl (Fault Constraint))"

definition load_journal :: "'f ledger \<Rightarrow> pubkey \<Rightarrow> (chain_error, u8 list) res" where
  "load_journal w key = (case coord w key of Some (Journal_account d) \<Rightarrow> Inr d | _ \<Rightarrow> Inl (Fault Constraint))"

text \<open>The accounts of the instruction: the config, the journal's data and the ledger after \<open>init\<close>.\<close>

definition verify_accounts_ok ::
  "'f platform \<Rightarrow> verify_accounts \<Rightarrow> seal \<Rightarrow> u8 list \<Rightarrow> u8 list \<Rightarrow> 'f ledger \<Rightarrow>
   (chain_error, config \<times> u8 list \<times> 'f ledger) res"
where
  "verify_accounts_ok pl a sl journal_digest claimed w =
     bind_res (require (va_config a = config_key pl) Constraint) (\<lambda>_.
     bind_res (load_config w (va_config a)) (\<lambda>cfg.
     bind_res (require (va_journal a = journal_key pl journal_digest) Constraint) (\<lambda>_.
     bind_res (load_journal w (va_journal a)) (\<lambda>data.
     bind_res (require (va_spent a = nullifier_key pl claimed) Constraint) (\<lambda>_.
     bind_res (init_account pl (va_caller a) (va_spent a) 8 w) (\<lambda>w.
     bind_res (require (va_router a = router_id pl \<and> is_router pl (foreign w) (va_router_account a)) Constraint) (\<lambda>_.
     bind_res (require (va_verifier_entry a = verifier_key pl (selector sl) \<and>
       is_verifier_entry pl (foreign w) (va_verifier_entry a)) Constraint) (\<lambda>_.
     bind_res (require (va_signed a \<and> va_system a = system_id pl) Constraint) (\<lambda>_.
       Inr (cfg, data, w\<lparr>coord := (coord w)(va_spent a \<mapsto> Spent_nullifier)\<rparr>))))))))))"

text \<open>
  The handler. The new count is in the deserialised config while the consumer runs and is
  written back after the handler returns.
\<close>

definition verify_predicate ::
  "'f platform \<Rightarrow> verify_accounts \<Rightarrow> seal \<Rightarrow> u8 list \<Rightarrow> u8 \<Rightarrow> u8 list \<Rightarrow> 'f ledger \<Rightarrow>
   (chain_error, 'f ledger) res"
where
  "verify_predicate pl a sl journal_digest nullifier_index claimed w =
     bind_res (verify_accounts_ok pl a sl journal_digest claimed w) (\<lambda>(cfg, data, w).
     let computed_digest = sha256 pl data in
     bind_res (require (computed_digest = journal_digest) JournalDigestMismatch) (\<lambda>_.
     bind_res (map_error Journal (decode_nullifier_from_journal data nullifier_index)) (\<lambda>nullifier.
     bind_res (require (nullifier = claimed) NullifierMismatch) (\<lambda>_.
     bind_res (require (router_verify pl (foreign w) (va_router_account a) (va_verifier_entry a)
       (va_verifier_program a) sl (image_id cfg) journal_digest) RouterFailed) (\<lambda>_.
     let cfg = cfg\<lparr>verified_count := saturating_inc (verified_count cfg)\<rparr> in
     bind_res (call_consumer pl (va_consumer_program a) (va_consumer_registry a) (va_caller a) nullifier w) (\<lambda>w.
       Inr (w\<lparr>coord := (coord w)(va_config a \<mapsto> Config_account cfg),
              events := events w @ [PredicateVerified (va_caller a) nullifier]\<rparr>)))))))"

section \<open>What success means\<close>

lemma load_Inr_iff:
  "load_config w k = Inr c \<longleftrightarrow> coord w k = Some (Config_account c)"
  "load_journal w k = Inr d \<longleftrightarrow> coord w k = Some (Journal_account d)"
  by (auto simp: load_config_def load_journal_def split: option.splits coord_account.splits)

lemma initialize_Inr_iff:
  "initialize pl a img w = Inr w' \<longleftrightarrow>
     ia_config a = config_key pl \<and> coord w (config_key pl) = None \<and> cons w (config_key pl) = None \<and>
     ia_signed a \<and> ia_system a = system_id pl \<and>
     (\<exists>f. create_account pl (foreign w) (ia_authority a) (config_key pl) 80 = Some f \<and>
        w' = w\<lparr>foreign := f, coord := (coord w)(config_key pl \<mapsto> Config_account
          \<lparr>image_id = img, authority = ia_authority a, verified_count = 0\<rparr>)\<rparr>)"
  by (auto simp: initialize_def bind_res_Inr_iff init_account_Inr_iff)

lemma store_journal_Inr_iff:
  "store_journal pl a journal w = Inr w' \<longleftrightarrow>
     sa_journal a = journal_key pl (sha256 pl journal) \<and> coord w (sa_journal a) = None \<and>
     cons w (sa_journal a) = None \<and> sa_signed a \<and> sa_system a = system_id pl \<and> length journal \<le> 2048 \<and>
     (\<exists>f. create_account pl (foreign w) (sa_payer a) (sa_journal a) (12 + length journal) = Some f \<and>
        w' = w\<lparr>foreign := f, coord := (coord w)(sa_journal a \<mapsto> Journal_account journal)\<rparr>)"
  by (auto simp: store_journal_def bind_res_Inr_iff init_account_Inr_iff MAX_JOURNAL_LEN_def)

text \<open>The facts about a successful verification that the proofs use.\<close>

lemma verify_predicate_Inr:
  assumes "verify_predicate pl a sl dg idx n w = Inr w'"
  obtains cfg data f es where
    "coord w (config_key pl) = Some (Config_account cfg)"
    "coord w (journal_key pl dg) = Some (Journal_account data)"
    "coord w (nullifier_key pl n) = None" "cons w (nullifier_key pl n) = None"
    "sha256 pl data = dg" "decode_nullifier_from_journal data idx = Inr n"
    "create_account pl (foreign w) (va_caller a) (nullifier_key pl n) 8 = Some f"
    "router_verify pl f (va_router_account a) (va_verifier_entry a) (va_verifier_program a) sl (image_id cfg) dg"
    "va_verifier_entry a = verifier_key pl (selector sl)" "va_router a = router_id pl" "va_signed a"
    "coord w' = (coord w)(nullifier_key pl n \<mapsto> Spent_nullifier,
       config_key pl \<mapsto> Config_account (cfg\<lparr>verified_count := saturating_inc (verified_count cfg)\<rparr>))"
    "events w' = events w @ es @ [PredicateVerified (va_caller a) n]"
    "list_all (\<lambda>e. \<exists>n c. e = VerificationRecorded n c) es"
proof -
  from assms obtain cfg data w1 w2 where v: "verify_accounts_ok pl a sl dg n w = Inr (cfg, data, w1)"
      and d: "sha256 pl data = dg" "decode_nullifier_from_journal data idx = Inr n"
      and r: "router_verify pl (foreign w1) (va_router_account a) (va_verifier_entry a) (va_verifier_program a) sl
        (image_id cfg) dg"
      and c: "call_consumer pl (va_consumer_program a) (va_consumer_registry a) (va_caller a) n w1 = Inr w2"
      and w': "w' = w2\<lparr>coord := (coord w2)(va_config a \<mapsto>
          Config_account (cfg\<lparr>verified_count := saturating_inc (verified_count cfg)\<rparr>)),
        events := events w2 @ [PredicateVerified (va_caller a) n]\<rparr>"
    by (auto simp: verify_predicate_def bind_res_Inr_iff Let_def)
  from v obtain f where a: "va_config a = config_key pl" "coord w (config_key pl) = Some (Config_account cfg)"
      "coord w (journal_key pl dg) = Some (Journal_account data)"
      "coord w (nullifier_key pl n) = None" "cons w (nullifier_key pl n) = None"
      "create_account pl (foreign w) (va_caller a) (nullifier_key pl n) 8 = Some f"
      "va_verifier_entry a = verifier_key pl (selector sl)" "va_router a = router_id pl" "va_signed a"
      "w1 = w\<lparr>foreign := f, coord := (coord w)(nullifier_key pl n \<mapsto> Spent_nullifier)\<rparr>"
    by (auto simp: verify_accounts_ok_def bind_res_Inr_iff load_Inr_iff init_account_Inr_iff)
  obtain es where es: "events w2 = events w1 @ es" "list_all (\<lambda>e. \<exists>n c. e = VerificationRecorded n c) es"
    using consumer_call.adds_events [OF c] by blast
  have "coord w2 = coord w1" by (rule consumer_call.keeps_coord [OF c])
  then show ?thesis
    using a d r w' es by (intro that [of cfg data f es]) simp_all
qed

end
