(* ===== verification/Replay_Guard.thy ===== *)
theory Replay_Guard
  imports Prelude
begin

text \<open>
  The contract of a replay guard, apart from what is guarded: an operation marks a key and
  is refused on a marked key, and no transition of the system removes a mark. Then the
  operation succeeds at most once per key, however the transitions interleave.
\<close>

locale once_only =
  fixes transition :: "'s \<Rightarrow> 's \<Rightarrow> bool"
    and marked :: "'s \<Rightarrow> 'k \<Rightarrow> bool"
    and consume :: "'k \<Rightarrow> 's \<Rightarrow> 's \<Rightarrow> bool"
  assumes consume_marks: "consume k s s' \<Longrightarrow> marked s' k"
    and consume_fresh: "consume k s s' \<Longrightarrow> \<not> marked s k"
    and keeps_mark: "transition s s' \<Longrightarrow> marked s k \<Longrightarrow> marked s' k"
begin

lemma marks_persist:
  assumes "transition\<^sup>*\<^sup>* s s'" "marked s k"
  shows "marked s' k"
  using assms by (induction rule: rtranclp_induct) (auto intro: keeps_mark)

lemma consumed_once:
  assumes "consume k s s1" "transition\<^sup>*\<^sup>* s1 s2"
  shows "\<not> consume k s2 s3"
  using marks_persist [OF assms(2) consume_marks [OF assms(1)]] consume_fresh by blast

end

end
