(* ===== verification/Coordinator_Safety.thy ===== *)
theory Coordinator_Safety
  imports Coordinator Replay_Guard
begin

text \<open>
  The two programs over time: the transitions of the ledger are the successful instructions
  of both programs, by any signer and in any order, and arbitrary changes of everything
  else. The lemmas give the invariants of every reachable ledger: stored journals certify
  themselves, every spent nullifier is in a stored journal whose digest the verifier router
  accepted for the configured image, and the counters count.
\<close>

section \<open>Transitions\<close>

inductive chain_step :: "'f platform \<Rightarrow> 'f ledger \<Rightarrow> 'f ledger \<Rightarrow> bool" for pl where
  step_init: "initialize pl a img w = Inr w' \<Longrightarrow> chain_step pl w w'"
| step_journal: "store_journal pl sa journal w = Inr w' \<Longrightarrow> chain_step pl w w'"
| step_verify: "verify_predicate pl va sl dg idx n w = Inr w' \<Longrightarrow> chain_step pl w w'"
| step_consumer_init: "consumer_initialize pl ca w = Inr w' \<Longrightarrow> chain_step pl w w'"
| step_record: "record_verification pl rk caller is_signer n w = Inr w' \<Longrightarrow> chain_step pl w w'"
| step_other: "chain_step pl w (w\<lparr>foreign := f\<rparr>)"

definition genesis :: "'f \<Rightarrow> 'f ledger" where
  "genesis f = \<lparr>coord = (\<lambda>_. None), cons = (\<lambda>_. None), foreign = f, events = []\<rparr>"

definition reachable :: "'f platform \<Rightarrow> 'f ledger \<Rightarrow> bool" where
  "reachable pl w \<longleftrightarrow> (\<exists>f. (chain_step pl)\<^sup>*\<^sup>* (genesis f) w)"

definition is_predicate_event :: "event \<Rightarrow> bool" where
  "is_predicate_event e \<longleftrightarrow> (\<exists>k n. e = PredicateVerified k n)"

primrec event_nullifier :: "event \<Rightarrow> u8 list" where
  "event_nullifier (PredicateVerified k n) = n"
| "event_nullifier (VerificationRecorded n c) = n"

text \<open>The nullifiers of the successful verifications so far.\<close>

definition verified :: "'f ledger \<Rightarrow> u8 list list" where
  "verified w = map event_nullifier (filter is_predicate_event (events w))"

lemma recorded_not_predicate:
  "list_all (\<lambda>e. \<exists>n c. e = VerificationRecorded n c) es \<Longrightarrow> filter is_predicate_event es = []"
  by (auto simp: filter_empty_conv list_all_iff is_predicate_event_def)

text \<open>What a transition does to the coordinator's part of the ledger.\<close>

lemma chain_step_cases:
  assumes "chain_step pl w w'"
  obtains (same) "coord w' = coord w" "verified w' = verified w"
  | (init) img k where "coord w (config_key pl) = None" "verified w' = verified w"
      "coord w' = (coord w)(config_key pl \<mapsto> Config_account
         \<lparr>image_id = img, authority = k, verified_count = 0\<rparr>)"
  | (journal) d where "coord w (journal_key pl (sha256 pl d)) = None" "length d \<le> 2048"
      "verified w' = verified w"
      "coord w' = (coord w)(journal_key pl (sha256 pl d) \<mapsto> Journal_account d)"
  | (verify) cfg data idx n f ra ve vp sl where
      "coord w (config_key pl) = Some (Config_account cfg)"
      "coord w (journal_key pl (sha256 pl data)) = Some (Journal_account data)"
      "coord w (nullifier_key pl n) = None" "decode_nullifier_from_journal data idx = Inr n"
      "router_verify pl f ra ve vp sl (image_id cfg) (sha256 pl data)"
      "verified w' = verified w @ [n]"
      "coord w' = (coord w)(nullifier_key pl n \<mapsto> Spent_nullifier,
         config_key pl \<mapsto> Config_account (cfg\<lparr>verified_count := saturating_inc (verified_count cfg)\<rparr>))"
  using assms
proof cases
  case (step_init a img)
  then show ?thesis by (intro that(2)) (auto simp: initialize_Inr_iff verified_def)
next
  case (step_journal sa d)
  then show ?thesis by (intro that(3) [of d]) (auto simp: store_journal_Inr_iff verified_def)
next
  case (step_verify va sl dg idx n)
  from step_verify show ?thesis
  proof (rule verify_predicate_Inr)
    fix cfg data f es
    assume v: "coord w (config_key pl) = Some (Config_account cfg)"
      "coord w (journal_key pl dg) = Some (Journal_account data)"
      "coord w (nullifier_key pl n) = None" "sha256 pl data = dg" "decode_nullifier_from_journal data idx = Inr n"
      "router_verify pl f (va_router_account va) (va_verifier_entry va) (va_verifier_program va) sl (image_id cfg) dg"
      "coord w' = (coord w)(nullifier_key pl n \<mapsto> Spent_nullifier,
         config_key pl \<mapsto> Config_account (cfg\<lparr>verified_count := saturating_inc (verified_count cfg)\<rparr>))"
      "events w' = events w @ es @ [PredicateVerified (va_caller va) n]"
      "list_all (\<lambda>e. \<exists>n c. e = VerificationRecorded n c) es"
    have "verified w' = verified w @ [n]"
      using recorded_not_predicate [OF v(9)] by (simp add: verified_def v(8) is_predicate_event_def)
    then show ?thesis using v by (intro that(4) [of cfg data n idx f]) simp_all
  qed
next
  case (step_consumer_init ca)
  then show ?thesis
    by (intro that(1)) (auto simp: consumer_initialize_def bind_res_Inr_iff init_account_Inr_iff verified_def)
next
  case (step_record rk caller is_signer n)
  then show ?thesis
    by (intro that(1)) (auto simp: record_verification_Inr_iff verified_def is_predicate_event_def)
next
  case (step_other f)
  then show ?thesis by (intro that(1)) (simp_all add: verified_def)
qed

text \<open>No transition removes an account or changes one but for the count of the config.\<close>

lemma accounts_le_upd:
  "f k = None \<Longrightarrow> f \<le> f(k \<mapsto> (a :: coord_account))"
  "f k = Some b \<Longrightarrow> b \<le> a \<Longrightarrow> f \<le> f(k \<mapsto> a)"
  by (auto intro!: le_funI)

lemma saturating_inc_ge: "c \<le> saturating_inc c"
  using unat_u64_less [of c] by (simp add: word_le_nat_alt unat_saturating_inc)

lemma chain_step_mono:
  assumes "chain_step pl w w'"
  shows "coord w \<le> coord w'"
  using assms
proof (cases rule: chain_step_cases)
  case (verify cfg data idx n f ra ve vp sl)
  let ?g = "(coord w)(nullifier_key pl n \<mapsto> Spent_nullifier)"
  have "?g (config_key pl) = Some (Config_account cfg)" using verify(1,3) by auto
  then have "?g \<le> coord w'"
    unfolding verify(7) by (rule accounts_le_upd(2)) (simp add: account_le_iff saturating_inc_ge)
  with accounts_le_upd(1) [of "coord w", OF verify(3)] show ?thesis by (rule order_trans)
qed (simp_all add: accounts_le_upd(1))

lemma chain_steps_mono: "(chain_step pl)\<^sup>*\<^sup>* w w' \<Longrightarrow> coord w \<le> coord w'"
  by (induction rule: rtranclp_induct) (auto intro: chain_step_mono order_trans)

lemma accounts_persist:
  assumes "coord w \<le> coord w'"
  shows "coord w (config_key pl) = Some (Config_account c) \<Longrightarrow>
      \<exists>c'. coord w' (config_key pl) = Some (Config_account c') \<and> image_id c' = image_id c \<and>
        authority c' = authority c \<and> verified_count c \<le> verified_count c'"
    and "coord w k = Some (Journal_account d) \<Longrightarrow> coord w' k = Some (Journal_account d)"
    and "coord w k = Some Spent_nullifier \<Longrightarrow> coord w' k = Some Spent_nullifier"
  by (auto dest!: accounts_leD [OF assms] simp: account_le_iff)

section \<open>Replay\<close>

lemma verify_fresh:
  "verify_predicate pl a sl dg idx n w = Inr w' \<Longrightarrow> coord w (nullifier_key pl n) = None"
  by (rule verify_predicate_Inr)

lemma verify_marks:
  assumes "verify_predicate pl a sl dg idx n w = Inr w'"
  shows "coord w' (nullifier_key pl n) = Some Spent_nullifier"
  using assms by (rule verify_predicate_Inr) auto

interpretation nullifier_guard: once_only "chain_step pl"
  "\<lambda>w n. coord w (nullifier_key pl n) = Some Spent_nullifier"
  "\<lambda>n w w'. \<exists>a sl dg idx. verify_predicate pl a sl dg idx n w = Inr w'"
  for pl :: "'f platform"
proof unfold_locales
  fix w w' :: "'f ledger" and n
  show "\<exists>a sl dg idx. verify_predicate pl a sl dg idx n w = Inr w' \<Longrightarrow>
      coord w' (nullifier_key pl n) = Some Spent_nullifier"
    using verify_marks by blast
  show "\<exists>a sl dg idx. verify_predicate pl a sl dg idx n w = Inr w' \<Longrightarrow>
      coord w (nullifier_key pl n) \<noteq> Some Spent_nullifier"
    using verify_fresh by fastforce
  show "chain_step pl w w' \<Longrightarrow> coord w (nullifier_key pl n) = Some Spent_nullifier \<Longrightarrow>
      coord w' (nullifier_key pl n) = Some Spent_nullifier"
    by (rule accounts_persist(3) [OF chain_step_mono])
qed

text \<open>
  C2: a nullifier is verified at most once: after a successful verification no later one
  with the same nullifier succeeds, whoever submits it, with whatever proof, journal and
  accounts, and whatever happened on the ledger in between.
\<close>

theorem no_replay:
  assumes "verify_predicate pl a sl dg idx n w = Inr w1" "(chain_step pl)\<^sup>*\<^sup>* w1 w2"
  shows "verify_predicate pl a' sl' dg' idx' n w2 \<noteq> Inr w3"
  using nullifier_guard.consumed_once [of pl n w w1 w2 w3] assms by blast

section \<open>The invariant of reachable ledgers\<close>

text \<open>The count of a configured ledger.\<close>

definition count_ok :: "'f platform \<Rightarrow> 'f ledger \<Rightarrow> bool" where
  "count_ok pl w \<longleftrightarrow> (case coord w (config_key pl) of
     None \<Rightarrow> verified w = []
   | Some (Config_account c) \<Rightarrow> unat (verified_count c) = min (length (verified w)) (2 ^ 64 - 1)
   | _ \<Rightarrow> False)"

text \<open>
  A nullifier is certified when a stored journal holds it and the router accepted a proof of
  that journal's digest for the configured image.
\<close>

definition certified :: "'f platform \<Rightarrow> 'f ledger \<Rightarrow> u8 list \<Rightarrow> bool" where
  "certified pl w n \<longleftrightarrow> (\<exists>cfg data idx f ra ve vp sl.
     coord w (config_key pl) = Some (Config_account cfg) \<and>
     coord w (journal_key pl (sha256 pl data)) = Some (Journal_account data) \<and>
     decode_nullifier_from_journal data idx = Inr n \<and>
     router_verify pl f ra ve vp sl (image_id cfg) (sha256 pl data))"

definition ledger_ok :: "'f platform \<Rightarrow> 'f ledger \<Rightarrow> bool" where
  "ledger_ok pl w \<longleftrightarrow>
     (\<forall>k d. coord w k = Some (Journal_account d) \<longrightarrow> k = journal_key pl (sha256 pl d) \<and> length d \<le> 2048) \<and>
     (\<forall>k c. coord w k = Some (Config_account c) \<longrightarrow> k = config_key pl) \<and>
     (\<forall>k. coord w k = Some Spent_nullifier \<longleftrightarrow> k \<in> nullifier_key pl ` set (verified w)) \<and>
     (\<forall>n \<in> set (verified w). length n = 32 \<and> certified pl w n) \<and>
     distinct (verified w) \<and> count_ok pl w"

lemma ledger_okD:
  assumes "ledger_ok pl w"
  shows "coord w k = Some (Journal_account d) \<Longrightarrow> k = journal_key pl (sha256 pl d) \<and> length d \<le> 2048"
    and "coord w k = Some (Config_account c) \<Longrightarrow> k = config_key pl"
    and "coord w k = Some Spent_nullifier \<longleftrightarrow> k \<in> nullifier_key pl ` set (verified w)"
    and "n \<in> set (verified w) \<Longrightarrow> length n = 32 \<and> certified pl w n"
    and "distinct (verified w)" and "count_ok pl w"
  using assms unfolding ledger_ok_def by blast+

lemma ledger_ok_genesis: "ledger_ok pl (genesis f)"
  by (auto simp: ledger_ok_def genesis_def verified_def count_ok_def)

lemma certified_mono:
  assumes "certified pl w n"
    and "\<And>c. coord w (config_key pl) = Some (Config_account c) \<Longrightarrow>
       \<exists>c'. coord w' (config_key pl) = Some (Config_account c') \<and> image_id c' = image_id c"
    and "\<And>k d. coord w k = Some (Journal_account d) \<Longrightarrow> coord w' k = Some (Journal_account d)"
  shows "certified pl w' n"
  using assms unfolding certified_def by metis

lemma certified_step:
  assumes "chain_step pl w w'" "certified pl w n"
  shows "certified pl w' n"
  using accounts_persist [OF chain_step_mono [OF assms(1)]]
  by (intro certified_mono [OF assms(2)]) blast+

lemma decoded_holds:
  assumes "decode_nullifier_from_journal d idx = Inr n" "length d \<le> 2048"
  shows "holds_nullifier (words_of d) (unat idx) n"
proof (cases "length d mod 4 = 0")
  case True
  then have "parse_journal (words_of d) (unat idx) = Inr n"
    using decode_refines_parser [of d idx] assms by simp
  then show ?thesis by (simp add: parse_journal_iff)
next
  case False
  then show ?thesis using assms(1) by (simp add: decode_nullifier_from_journal_def require_def)
qed

lemma decoded_length:
  "decode_nullifier_from_journal d idx = Inr n \<Longrightarrow> length d \<le> 2048 \<Longrightarrow> length n = 32"
  by (drule (1) decoded_holds) (auto simp: holds_nullifier_def)

lemma ledger_ok_journal:
  assumes pl: "platform_ok pl" and ok: "ledger_ok pl w" and st: "chain_step pl w w'"
    and j: "length d \<le> 2048" "verified w' = verified w"
      "coord w' = (coord w)(journal_key pl (sha256 pl d) \<mapsto> Journal_account d)"
  shows "ledger_ok pl w'"
proof -
  have d32: "length (sha256 pl d) = 32" using pl by (simp add: platform_ok_def)
  have ne: "config_key pl \<noteq> journal_key pl (sha256 pl d)"
    by (rule keys_distinct(1) [OF pl d32 d32 d32 d32])
  have ne': "nullifier_key pl n \<noteq> journal_key pl (sha256 pl d)" if "n \<in> set (verified w)" for n
    using keys_distinct(3) [OF pl d32 _ d32 d32, of n] ledger_okD(4) [OF ok that] by simp
  have "certified pl w' n" if "n \<in> set (verified w)" for n
    using ledger_okD(4) [OF ok that] certified_step [OF st] by simp
  moreover have "coord w' k = Some Spent_nullifier \<longleftrightarrow> k \<in> nullifier_key pl ` set (verified w')" for k
    using ledger_okD(3) [OF ok, of k] ne' j(2,3) by auto
  moreover have "count_ok pl w'"
    using ledger_okD(6) [OF ok] ne unfolding count_ok_def j(2,3) by simp
  moreover have "k = journal_key pl (sha256 pl d') \<and> length d' \<le> 2048"
    if "coord w' k = Some (Journal_account d')" for k d'
    using that ledger_okD(1) [OF ok, of k d'] j(1,3) by (simp split: if_split_asm)
  moreover have "k = config_key pl" if "coord w' k = Some (Config_account c)" for k c
    using that ledger_okD(2) [OF ok, of k c] j(3) by (simp split: if_split_asm)
  ultimately show ?thesis
    using ledger_okD(4,5) [OF ok] j(2) unfolding ledger_ok_def by auto
qed

lemma ledger_ok_verify:
  assumes ok: "ledger_ok pl w" and st: "chain_step pl w w'"
    and v: "coord w (config_key pl) = Some (Config_account cfg)"
      "coord w (journal_key pl (sha256 pl data)) = Some (Journal_account data)"
      "coord w (nullifier_key pl n) = None" "decode_nullifier_from_journal data idx = Inr n"
      "router_verify pl f ra ve vp sl (image_id cfg) (sha256 pl data)" "verified w' = verified w @ [n]"
      "coord w' = (coord w)(nullifier_key pl n \<mapsto> Spent_nullifier,
         config_key pl \<mapsto> Config_account (cfg\<lparr>verified_count := saturating_inc (verified_count cfg)\<rparr>))"
  shows "ledger_ok pl w'"
proof -
  let ?cfg = "cfg\<lparr>verified_count := saturating_inc (verified_count cfg)\<rparr>"
  have data: "length data \<le> 2048" using ledger_okD(1) [OF ok v(2)] by simp
  have n: "length n = 32" by (rule decoded_length [OF v(4) data])
  have fresh: "n \<notin> set (verified w)"
    using ledger_okD(3) [OF ok, of "nullifier_key pl n"] v(3) by auto
  have ne: "config_key pl \<noteq> nullifier_key pl n" "journal_key pl (sha256 pl data) \<noteq> config_key pl"
    using v(1-3) by auto
  have c': "coord w' (config_key pl) = Some (Config_account ?cfg)"
      "coord w' (journal_key pl (sha256 pl data)) = Some (Journal_account data)"
    using accounts_persist(2) [OF chain_step_mono [OF st] v(2)] by (simp_all add: v(7))
  have "certified pl w' n"
    unfolding certified_def using c' v(4,5) by force
  moreover have "certified pl w' m" if "m \<in> set (verified w)" for m
    using ledger_okD(4) [OF ok that] certified_step [OF st] by simp
  moreover have "coord w' k = Some Spent_nullifier \<longleftrightarrow> k \<in> nullifier_key pl ` set (verified w')" for k
    using ledger_okD(3) [OF ok, of k] v(1,6,7) ne by auto
  moreover have "count_ok pl w'"
    using ledger_okD(6) [OF ok] c'(1) v(1,6) by (simp add: count_ok_def unat_saturating_inc)
  moreover have "k = journal_key pl (sha256 pl d) \<and> length d \<le> 2048"
    if "coord w' k = Some (Journal_account d)" for k d
    using that ledger_okD(1) [OF ok, of k d] v(7) by (simp split: if_split_asm)
  moreover have "k = config_key pl" if "coord w' k = Some (Config_account c)" for k c
    using that ledger_okD(2) [OF ok, of k c] v(7) by (simp split: if_split_asm)
  ultimately show ?thesis
    using ledger_okD(4,5) [OF ok] n fresh v(6) unfolding ledger_ok_def by auto
qed

lemma ledger_ok_step:
  assumes pl: "platform_ok pl" and ok: "ledger_ok pl w" and st: "chain_step pl w w'"
  shows "ledger_ok pl w'"
  using st
proof (cases rule: chain_step_cases)
  case same
  show ?thesis using ok unfolding ledger_ok_def count_ok_def certified_def same .
next
  case (init img k)
  then have v: "verified w = []" using ledger_okD(6) [OF ok] by (simp add: count_ok_def)
  show ?thesis
    using init v ok ledger_okD(1-3) [OF ok] by (auto simp: ledger_ok_def count_ok_def)
next
  case (journal d)
  show ?thesis by (rule ledger_ok_journal [OF pl ok st journal(2-4)])
next
  case (verify cfg data idx n f ra ve vp sl)
  show ?thesis by (rule ledger_ok_verify [OF ok st verify])
qed

lemma ledger_ok_steps:
  assumes "platform_ok pl" "(chain_step pl)\<^sup>*\<^sup>* w w'" "ledger_ok pl w"
  shows "ledger_ok pl w'"
  using assms(2,3) by (induction rule: rtranclp_induct) (auto intro: ledger_ok_step [OF assms(1)])

lemma reachable_ok: "platform_ok pl \<Longrightarrow> reachable pl w \<Longrightarrow> ledger_ok pl w"
  by (auto simp: reachable_def intro: ledger_ok_steps [OF _ _ ledger_ok_genesis])

section \<open>An honest submission\<close>

text \<open>The accounts of a submitter who names the consumer.\<close>

definition honest_accounts :: "'f platform \<Rightarrow> seal \<Rightarrow> u8 list \<Rightarrow> u8 list \<Rightarrow> pubkey \<Rightarrow> pubkey \<Rightarrow> pubkey \<Rightarrow> verify_accounts" where
  "honest_accounts pl sl dg n ra vp caller =
     \<lparr>va_config = config_key pl, va_journal = journal_key pl dg, va_spent = nullifier_key pl n,
      va_router = router_id pl, va_router_account = ra, va_verifier_entry = verifier_key pl (selector sl),
      va_verifier_program = vp, va_consumer_program = consumer_id pl, va_consumer_registry = registry_key pl,
      va_caller = caller, va_signed = True, va_system = system_id pl\<rparr>"

lemma honest_verification:
  assumes "coord w (config_key pl) = Some (Config_account cfg)"
    and "coord w (journal_key pl (sha256 pl data)) = Some (Journal_account data)"
    and "coord w (nullifier_key pl n) = None" "cons w (nullifier_key pl n) = None"
    and "decode_nullifier_from_journal data idx = Inr n"
    and "create_account pl (foreign w) caller (nullifier_key pl n) 8 = Some f"
    and "is_router pl f ra" "is_verifier_entry pl f (verifier_key pl (selector sl))"
    and "router_verify pl f ra (verifier_key pl (selector sl)) vp sl (image_id cfg) (sha256 pl data)"
    and "cons w (registry_key pl) = Some reg"
  shows "verify_predicate pl (honest_accounts pl sl (sha256 pl data) n ra vp caller) sl (sha256 pl data) idx n w =
     Inr (w\<lparr>foreign := f,
       coord := (coord w)(nullifier_key pl n \<mapsto> Spent_nullifier,
         config_key pl \<mapsto> Config_account (cfg\<lparr>verified_count := saturating_inc (verified_count cfg)\<rparr>)),
       cons := (cons w)(registry_key pl \<mapsto> reg\<lparr>reg_count := saturating_inc (reg_count reg)\<rparr>),
       events := events w @ [VerificationRecorded n (saturating_inc (reg_count reg)), PredicateVerified caller n]\<rparr>)"
  using assms
  by (simp add: verify_predicate_def verify_accounts_ok_def honest_accounts_def load_config_def load_journal_def
      init_account_def map_error_def call_consumer_def record_verification_def Let_def)

section \<open>A concrete platform and ledger\<close>

definition demo_pda :: "u8 list list \<Rightarrow> pubkey \<Rightarrow> pubkey" where
  "demo_pda s p = replicate (length p) 1 @ [0] @ p @ concat s"

definition demo_platform :: "unit platform" where
  "demo_platform = \<lparr>coordinator_id = [1], consumer_id = [2], router_id = [3], system_id = [0],
     pda = demo_pda, sha256 = (\<lambda>d. take 32 (d @ replicate 32 0)), create_account = (\<lambda>_ _ _ _. Some ()),
     is_router = (\<lambda>_ _. True), is_verifier_entry = (\<lambda>_ _. True),
     router_verify = (\<lambda>_ _ _ _ sl img dg. img = replicate 32 5 \<and> length dg = 32),
     foreign_cpi = (\<lambda>_ _ _ _ _. Some ((), []))\<rparr>"

lemma unary_prefix_inj:
  "replicate a 1 @ 0 # x = replicate b (1 :: u8) @ 0 # y \<longleftrightarrow> a = b \<and> x = y"
proof (induction a arbitrary: b)
  case 0
  then show ?case by (cases b) simp_all
next
  case (Suc a)
  then show ?case by (cases b) simp_all
qed

lemma demo_platform_ok: "platform_ok demo_platform"
  by (auto simp: platform_ok_def demo_platform_def demo_pda_def unary_prefix_inj)

definition demo_data :: "u8 list" where "demo_data = serialise (output_words demo_output)"
definition demo_nullifier :: "u8 list" where "demo_nullifier = replicate 32 0x39"
definition demo_digest :: "u8 list" where "demo_digest = sha256 demo_platform demo_data"
definition demo_seal :: seal where "demo_seal = \<lparr>selector = [0, 0, 0, 0], proof_bytes = []\<rparr>"

lemma demo_digest_length: "length demo_digest = 32"
  using demo_platform_ok by (simp add: platform_ok_def demo_digest_def)

lemma demo_decode: "decode_nullifier_from_journal demo_data 0 = Inr demo_nullifier"
  using decode_refines_parser [of demo_data 0] output_holds [OF demo_output_ok, of 0 "[]"] demo_output_length
  by (simp add: parse_journal_iff demo_data_def demo_nullifier_def) (simp add: demo_output_def)

lemma demo_keys:
  "config_key demo_platform \<noteq> journal_key demo_platform demo_digest"
  "config_key demo_platform \<noteq> nullifier_key demo_platform demo_nullifier"
  "journal_key demo_platform demo_digest \<noteq> nullifier_key demo_platform demo_nullifier"
  using keys_distinct [OF demo_platform_ok demo_digest_length, of demo_nullifier demo_nullifier demo_digest]
  by (simp_all add: demo_nullifier_def demo_digest_length)

definition demo_config :: config where
  "demo_config = \<lparr>image_id = replicate 32 5, authority = [9], verified_count = 0\<rparr>"

text \<open>The ledger after both programs are initialised and the journal is stored.\<close>

definition demo_ledger :: "unit ledger" where
  "demo_ledger = \<lparr>coord = [config_key demo_platform \<mapsto> Config_account demo_config,
       journal_key demo_platform demo_digest \<mapsto> Journal_account demo_data],
     cons = [registry_key demo_platform \<mapsto> \<lparr>reg_count = 0, reg_authority = [9]\<rparr>],
     foreign = (), events = []\<rparr>"

definition demo_accounts :: verify_accounts where
  "demo_accounts = honest_accounts demo_platform demo_seal demo_digest demo_nullifier [7] [8] [6]"

definition demo_verified :: "unit ledger" where
  "demo_verified = demo_ledger\<lparr>
     coord := (coord demo_ledger)(nullifier_key demo_platform demo_nullifier \<mapsto> Spent_nullifier,
       config_key demo_platform \<mapsto> Config_account (demo_config\<lparr>verified_count := 1\<rparr>)),
     cons := [registry_key demo_platform \<mapsto> \<lparr>reg_count = 1, reg_authority = [9]\<rparr>],
     events := [VerificationRecorded demo_nullifier 1, PredicateVerified [6] demo_nullifier]\<rparr>"

lemma demo_verification:
  "verify_predicate demo_platform demo_accounts demo_seal demo_digest 0 demo_nullifier demo_ledger = Inr demo_verified"
proof -
  have c: "cons demo_ledger (nullifier_key demo_platform demo_nullifier) = None"
    by (simp add: demo_ledger_def nullifier_key_def registry_key_def)
      (simp add: demo_platform_def demo_pda_def unary_prefix_inj)
  have inc: "saturating_inc 0 = 1" by (simp add: saturating_inc_def)
  show ?thesis
    unfolding demo_accounts_def demo_digest_def
    by (subst honest_verification [of demo_ledger demo_platform demo_config demo_data demo_nullifier 0 "[6]" "()" "[7]"
          demo_seal "[8]" "\<lparr>reg_count = 0, reg_authority = [9]\<rparr>"])
      (use c demo_keys demo_decode demo_digest_length in
        \<open>simp_all add: demo_digest_def [symmetric] demo_ledger_def demo_verified_def demo_config_def inc\<close>,
       simp_all add: demo_platform_def demo_digest_length)
qed

lemma demo_spent_keys:
  "nullifier_key demo_platform demo_nullifier \<noteq> registry_key demo_platform"
  "config_key demo_platform \<noteq> registry_key demo_platform"
  "journal_key demo_platform demo_digest \<noteq> registry_key demo_platform"
  by (simp_all add: nullifier_key_def registry_key_def config_key_def journal_key_def)
    (simp_all add: demo_platform_def demo_pda_def unary_prefix_inj)

lemma demo_ledger_facts:
  "coord demo_ledger (config_key demo_platform) = Some (Config_account demo_config)"
  "coord demo_ledger (journal_key demo_platform (sha256 demo_platform demo_data)) = Some (Journal_account demo_data)"
  "coord demo_ledger (nullifier_key demo_platform demo_nullifier) = None"
  "cons demo_ledger (nullifier_key demo_platform demo_nullifier) = None"
  "create_account demo_platform (foreign demo_ledger) [6] (nullifier_key demo_platform demo_nullifier) 8 = Some ()"
  "is_router demo_platform () [7]"
  "is_verifier_entry demo_platform () (verifier_key demo_platform (selector demo_seal))"
  "router_verify demo_platform () [7] (verifier_key demo_platform (selector demo_seal)) [8] demo_seal
     (image_id demo_config) (sha256 demo_platform demo_data)"
  "cons demo_ledger (registry_key demo_platform) = Some \<lparr>reg_count = 0, reg_authority = [9]\<rparr>"
  using demo_keys demo_spent_keys demo_digest_length
  by (simp_all add: demo_digest_def [symmetric])
    (simp_all add: demo_ledger_def demo_platform_def demo_config_def demo_digest_length)

lemma demo_reachable: "reachable demo_platform demo_ledger"
proof -
  let ?g = "genesis () :: unit ledger"
  let ?c = "?g\<lparr>coord := [config_key demo_platform \<mapsto> Config_account demo_config]\<rparr>"
  let ?r = "?c\<lparr>cons := [registry_key demo_platform \<mapsto> \<lparr>reg_count = 0, reg_authority = [9]\<rparr>]\<rparr>"
  have create: "create_account demo_platform f p k n = Some ()" for f p k n
    by (simp add: demo_platform_def)
  have "initialize demo_platform \<lparr>ia_config = config_key demo_platform, ia_authority = [9], ia_signed = True,
      ia_system = system_id demo_platform\<rparr> (replicate 32 5) ?g = Inr ?c"
    by (simp add: initialize_Inr_iff create genesis_def demo_config_def)
  then have 1: "chain_step demo_platform ?g ?c" by (rule step_init)
  have "consumer_initialize demo_platform \<lparr>ir_registry = registry_key demo_platform, ir_authority = [9],
      ir_signed = True, ir_system = system_id demo_platform\<rparr> ?c = Inr ?r"
    using demo_spent_keys
    by (simp add: consumer_initialize_def bind_res_Inr_iff init_account_Inr_iff create genesis_def)
  then have 2: "chain_step demo_platform ?c ?r" by (rule step_consumer_init)
  have "store_journal demo_platform \<lparr>sa_journal = journal_key demo_platform demo_digest, sa_payer = [6],
      sa_signed = True, sa_system = system_id demo_platform\<rparr> demo_data ?r = Inr demo_ledger"
    using demo_keys demo_spent_keys demo_output_length
    by (simp add: store_journal_Inr_iff create genesis_def demo_ledger_def demo_digest_def demo_data_def)
  then have 3: "chain_step demo_platform ?r demo_ledger" by (rule step_journal)
  from 1 2 3 show ?thesis unfolding reachable_def
    by (intro exI [of _ "()"]) (meson converse_rtranclp_into_rtranclp rtranclp.rtrancl_refl)
qed

lemma demo_verified_reachable: "reachable demo_platform demo_verified"
  using demo_reachable step_verify [OF demo_verification]
  unfolding reachable_def by (blast intro: rtranclp.rtrancl_into_rtrancl)

lemma demo_verified_list: "verified demo_verified = [demo_nullifier]"
  by (simp add: verified_def demo_verified_def is_predicate_event_def)

lemma demo_replay:
  "verify_predicate demo_platform demo_accounts demo_seal demo_digest 0 demo_nullifier demo_verified =
     Inl (Fault Constraint)"
  using demo_keys
  by (simp add: verify_predicate_def verify_accounts_ok_def demo_accounts_def honest_accounts_def load_config_def
      load_journal_def init_account_def demo_verified_def demo_ledger_def)

lemma demo_other_consumer:
  "\<exists>w'. verify_predicate demo_platform (demo_accounts\<lparr>va_consumer_program := [4]\<rparr>) demo_seal demo_digest 0
     demo_nullifier demo_ledger = Inr w'"
proof -
  have c: "call_consumer demo_platform [4] rk c n w = Inr (w\<lparr>foreign := ()\<rparr>)" for rk c n w
    by (simp add: call_consumer_def demo_platform_def)
  show ?thesis
    using demo_ledger_facts demo_decode demo_digest_length
    by (simp add: verify_predicate_def verify_accounts_ok_def demo_accounts_def honest_accounts_def load_config_def
        load_journal_def init_account_def map_error_def c Let_def demo_digest_def [symmetric])
qed

theorem no_replay_witness:
  "verify_predicate demo_platform (demo_accounts\<lparr>va_caller := [10]\<rparr>) demo_seal demo_digest 1 demo_nullifier
     (demo_verified\<lparr>foreign := ()\<rparr>) \<noteq> Inr demo_ledger"
  by (rule no_replay [OF demo_verification]) (intro r_into_rtranclp step_other)

end
