(* ===== verification/Coordinator_Props.thy ===== *)
theory Coordinator_Props
  imports Coordinator_Safety
begin

text \<open>
  The properties of the two on-chain programs: self-certifying journals, certified
  nullifiers, exact counters, a fixed configuration, what a successful verification binds,
  when one succeeds, which errors it can return, and what the consumer's count means.
\<close>

section \<open>Reachable ledgers\<close>

text \<open>
  On every reachable ledger a journal account holds at most 2048 bytes and sits at the
  address derived from their digest.
\<close>

theorem journals_certify_themselves:
  assumes "platform_ok pl" "reachable pl w" "coord w k = Some (Journal_account d)"
  shows "k = journal_key pl (sha256 pl d) \<and> length d \<le> MAX_JOURNAL_LEN"
  using ledger_okD(1) [OF reachable_ok [OF assms(1,2)] assms(3)] by (simp add: MAX_JOURNAL_LEN_def)

theorem journals_certify_themselves_witness:
  "journal_key demo_platform demo_digest = journal_key demo_platform (sha256 demo_platform demo_data) \<and>
   length demo_data \<le> MAX_JOURNAL_LEN"
  using demo_keys
  by (intro journals_certify_themselves [OF demo_platform_ok demo_reachable]) (simp add: demo_ledger_def)

text \<open>
  C3: on every reachable ledger no nullifier was verified twice, and each verified nullifier
  has 32 bytes, has its replay guard, and comes from a stored journal whose digest the
  verifier router accepted for the configured image.
\<close>

theorem verified_nullifiers_certified:
  assumes "platform_ok pl" "reachable pl w"
  shows "distinct (verified w) \<and> (\<forall>n \<in> set (verified w).
     length n = 32 \<and> certified pl w n \<and> coord w (nullifier_key pl n) = Some Spent_nullifier)"
  using ledger_okD [OF reachable_ok [OF assms]] by blast

theorem verified_nullifiers_certified_witness:
  "length demo_nullifier = 32 \<and> certified demo_platform demo_verified demo_nullifier"
  using verified_nullifiers_certified [OF demo_platform_ok demo_verified_reachable] demo_verified_list
  by simp

text \<open>
  C24: on every reachable ledger the coordinator's count is the number of distinct
  nullifiers verified so far, up to the largest \<open>u64\<close>, where it stays.
\<close>

theorem verified_count_exact:
  assumes "platform_ok pl" "reachable pl w" "coord w (config_key pl) = Some (Config_account c)"
  shows "unat (verified_count c) = min (card (set (verified w))) (2 ^ 64 - 1)"
  using ledger_okD(5,6) [OF reachable_ok [OF assms(1,2)]] assms(3)
  by (simp add: count_ok_def distinct_card)

theorem verified_count_exact_witness:
  "unat (verified_count (demo_config\<lparr>verified_count := 1\<rparr>)) = min (card (set (verified demo_verified))) (2 ^ 64 - 1)"
  by (rule verified_count_exact [OF demo_platform_ok demo_verified_reachable]) (simp add: demo_verified_def)

text \<open>
  C25: once initialised, the configuration keeps its image id and authority for ever, its
  address is never initialised again, and its count never decreases.
\<close>

theorem config_is_fixed:
  assumes "(chain_step pl)\<^sup>*\<^sup>* w w'" "coord w (config_key pl) = Some (Config_account c)"
  shows "(\<exists>c'. coord w' (config_key pl) = Some (Config_account c') \<and> image_id c' = image_id c \<and>
       authority c' = authority c \<and> unat (verified_count c) \<le> unat (verified_count c')) \<and>
     initialize pl a img w' \<noteq> Inr w''"
  using accounts_persist(1) [OF chain_steps_mono [OF assms(1)] assms(2)]
  by (auto simp: initialize_Inr_iff word_le_nat_alt)

theorem config_is_fixed_witness:
  "\<exists>c'. coord demo_verified (config_key demo_platform) = Some (Config_account c') \<and>
     image_id c' = image_id demo_config"
proof -
  have "coord demo_ledger (config_key demo_platform) = Some (Config_account demo_config)"
    using demo_keys by (simp add: demo_ledger_def)
  moreover have "(chain_step demo_platform)\<^sup>*\<^sup>* demo_ledger demo_verified"
    by (intro r_into_rtranclp) (rule step_verify [OF demo_verification])
  ultimately show ?thesis using config_is_fixed [of demo_platform demo_ledger demo_verified] by blast
qed

section \<open>A verification\<close>

text \<open>
  C13: a verification that succeeds has bound its nullifier to the proof: the stored journal
  hashes to the digest given to the router, the router accepted that digest for the
  configured image, and the journal's words hold the claimed nullifier at the given entry.
  The submitter signed the transaction.
\<close>

theorem verification_binds:
  assumes "platform_ok pl" "reachable pl w" "verify_predicate pl a sl dg idx n w = Inr w'"
  shows "\<exists>cfg data f. coord w (config_key pl) = Some (Config_account cfg) \<and>
     coord w (journal_key pl dg) = Some (Journal_account data) \<and> sha256 pl data = dg \<and>
     holds_nullifier (words_of data) (unat idx) n \<and> va_signed a \<and>
     va_verifier_entry a = verifier_key pl (selector sl) \<and>
     router_verify pl f (va_router_account a) (va_verifier_entry a) (va_verifier_program a) sl (image_id cfg) dg"
  using assms(3)
proof (rule verify_predicate_Inr)
  fix cfg data f and es :: "event list"
  assume v: "coord w (config_key pl) = Some (Config_account cfg)"
    "coord w (journal_key pl dg) = Some (Journal_account data)" "sha256 pl data = dg"
    "decode_nullifier_from_journal data idx = Inr n" "va_verifier_entry a = verifier_key pl (selector sl)"
    "va_signed a" "router_verify pl f (va_router_account a) (va_verifier_entry a) (va_verifier_program a) sl
       (image_id cfg) dg"
  have "length data \<le> 2048" using ledger_okD(1) [OF reachable_ok [OF assms(1,2)] v(2)] by simp
  then have "holds_nullifier (words_of data) (unat idx) n" by (rule decoded_holds [OF v(4)])
  then show ?thesis using v by blast
qed

theorem verification_binds_witness:
  "\<exists>data. coord demo_ledger (journal_key demo_platform demo_digest) = Some (Journal_account data) \<and>
     holds_nullifier (words_of data) (unat (0 :: u8)) demo_nullifier"
  using verification_binds [OF demo_platform_ok demo_reachable demo_verification] by blast

lemma record_verification_faults: "record_verification pl rk c s n w = Inl e \<Longrightarrow> e = Fault Constraint"
  by (auto simp: record_verification_def bind_res_Inl_iff Let_def)

lemma record_all_faults: "record_all pl cs w = Inl e \<Longrightarrow> e = Fault Constraint"
  by (induction cs arbitrary: w) (auto simp: bind_res_Inl_iff dest: record_verification_faults)

lemma call_consumer_faults:
  "call_consumer pl p rk c n w = Inl e \<Longrightarrow> e = Fault Constraint \<or> e = Fault ConsumerFailed"
  by (auto simp: call_consumer_def bind_res_Inl_iff dest: record_verification_faults record_all_faults
      split: if_splits)

lemma verify_accounts_faults:
  "verify_accounts_ok pl a sl dg n w = Inl e \<Longrightarrow> e = Fault Constraint"
  by (auto simp: verify_accounts_ok_def bind_res_Inl_iff load_config_def load_journal_def init_account_def
      split: option.splits coord_account.splits)

lemma decoder_faults:
  assumes "length d \<le> 2048" "decode_nullifier_from_journal d idx = Inl e"
  shows "\<exists>x. e = Fault x"
proof (cases "length d mod 4 = 0")
  case True
  then have "parse_journal (words_of d) (unat idx) = Inl e"
    using decode_refines_parser [of d idx] assms by simp
  then show ?thesis
    by (auto simp: parse_journal_def bind_res_Inl_iff dest: parse_bytes_faults parse_ciphertexts_faults)
next
  case False
  then show ?thesis using assms(2) by (auto simp: decode_nullifier_from_journal_def require_def)
qed

text \<open>
  C26: on a reachable ledger a verification never panics, whatever its arguments, and never
  returns \<open>JournalDigestMismatch\<close>: the address check of the journal account already
  implies that its bytes hash to the given digest.
\<close>

theorem verification_errors:
  assumes "platform_ok pl" "reachable pl w" "verify_predicate pl a sl dg idx n w = Inl e"
  shows "e \<in> {Fault Constraint, Fault NullifierMismatch, Fault RouterFailed, Fault ConsumerFailed} \<or>
     (\<exists>x. e = Fault (Journal x))"
proof (cases "verify_accounts_ok pl a sl dg n w")
  case (Inl e')
  then show ?thesis using assms(3) verify_accounts_faults [OF Inl] by (simp add: verify_predicate_def)
next
  case (Inr p)
  obtain cfg data w1 where p: "p = (cfg, data, w1)" by (cases p)
  have j: "coord w (journal_key pl dg) = Some (Journal_account data)"
    using Inr unfolding p by (auto simp: verify_accounts_ok_def bind_res_Inr_iff load_Inr_iff)
  have data: "journal_key pl dg = journal_key pl (sha256 pl data)" "length data \<le> 2048"
    using ledger_okD(1) [OF reachable_ok [OF assms(1,2)] j] by simp_all
  have "concat [bytes ''journal'', dg] = concat [bytes ''journal'', sha256 pl data]"
    using assms(1) data(1) unfolding platform_ok_def journal_key_def by blast
  then have dg: "sha256 pl data = dg" by simp
  show ?thesis
    using assms(3) Inr unfolding p
    by (auto simp: verify_predicate_def bind_res_Inl_iff Let_def dg map_error_Inl
        dest: decoder_faults [OF data(2)] call_consumer_faults)
qed

theorem verification_errors_witness:
  "Fault Constraint \<in> {Fault Constraint, Fault NullifierMismatch, Fault RouterFailed, Fault ConsumerFailed} \<or>
     (\<exists>x. Fault Constraint = Fault (Journal x))"
  by (rule verification_errors [OF demo_platform_ok demo_verified_reachable demo_replay])



section \<open>The consumer\<close>

definition recorded :: "'f ledger \<Rightarrow> event list" where
  "recorded w = filter (\<lambda>e. \<not> is_predicate_event e) (events w)"

definition registry_ok :: "'f platform \<Rightarrow> 'f ledger \<Rightarrow> bool" where
  "registry_ok pl w \<longleftrightarrow>
     (\<forall>k r. cons w k = Some r \<longrightarrow> k = registry_key pl \<and>
        unat (reg_count r) = min (length (recorded w)) (2 ^ 64 - 1)) \<and>
     (cons w (registry_key pl) = None \<longrightarrow> recorded w = [])"

lemma registry_ok_same:
  "cons w' = cons w \<Longrightarrow> recorded w' = recorded w \<Longrightarrow> registry_ok pl w \<Longrightarrow> registry_ok pl w'"
  unfolding registry_ok_def by simp

lemma registry_ok_record:
  assumes "record_verification pl rk c s n w = Inr w'" "registry_ok pl w"
  shows "registry_ok pl w'"
proof -
  obtain reg where r: "rk = registry_key pl" "cons w rk = Some reg"
      "cons w' = (cons w)(rk \<mapsto> reg\<lparr>reg_count := saturating_inc (reg_count reg)\<rparr>)"
      "events w' = events w @ [VerificationRecorded n (saturating_inc (reg_count reg))]"
    using assms(1) by (auto simp: record_verification_Inr_iff)
  then have "recorded w' = recorded w @ [VerificationRecorded n (saturating_inc (reg_count reg))]"
    by (simp add: recorded_def is_predicate_event_def)
  moreover have "unat (reg_count reg) = min (length (recorded w)) (2 ^ 64 - 1)"
    using assms(2) r(2) unfolding registry_ok_def by blast
  ultimately have c: "unat (saturating_inc (reg_count reg)) = min (length (recorded w')) (2 ^ 64 - 1)"
    by (simp add: unat_saturating_inc)
  show ?thesis
    unfolding registry_ok_def r(3)
  proof (intro conjI allI impI)
    fix k r'
    assume k: "((cons w)(rk \<mapsto> reg\<lparr>reg_count := saturating_inc (reg_count reg)\<rparr>)) k = Some r'"
    then have "k = rk" using assms(2) r(1) unfolding registry_ok_def by (metis fun_upd_apply)
    then show "k = registry_key pl" "unat (reg_count r') = min (length (recorded w')) (2 ^ 64 - 1)"
      using k r(1) c by auto
  qed (use r(1) in auto)
qed

lemma registry_ok_record_all:
  assumes "record_all pl cs w = Inr w'" "registry_ok pl w"
  shows "registry_ok pl w'"
  using assms
proof (induction cs arbitrary: w)
  case (Cons c cs)
  then show ?case by (cases c) (auto simp: bind_res_Inr_iff intro: registry_ok_record)
qed simp

lemma registry_ok_call:
  assumes "call_consumer pl p rk c n w = Inr w'" "registry_ok pl w"
  shows "registry_ok pl w'"
proof (cases "p = consumer_id pl")
  case True
  then show ?thesis using assms by (auto simp: call_consumer_def intro: registry_ok_record)
next
  case False
  then obtain f calls where "record_all pl calls (w\<lparr>foreign := f\<rparr>) = Inr w'"
    using assms(1) by (auto simp: call_consumer_def bind_res_Inr_iff)
  moreover have "registry_ok pl (w\<lparr>foreign := f\<rparr>)"
    by (rule registry_ok_same [OF _ _ assms(2)]) (simp_all add: recorded_def)
  ultimately show ?thesis by (rule registry_ok_record_all)
qed

lemma registry_ok_verify:
  assumes "verify_predicate pl a sl dg idx n w = Inr w'" "registry_ok pl w"
  shows "registry_ok pl w'"
proof -
  obtain cfg data w1 w2 c' where v: "verify_accounts_ok pl a sl dg n w = Inr (cfg, data, w1)"
      and c: "call_consumer pl (va_consumer_program a) (va_consumer_registry a) (va_caller a) n w1 = Inr w2"
      and w': "w' = w2\<lparr>coord := c', events := events w2 @ [PredicateVerified (va_caller a) n]\<rparr>"
    using assms(1) by (auto simp: verify_predicate_def bind_res_Inr_iff Let_def)
  have "registry_ok pl w1"
    using v by (intro registry_ok_same [OF _ _ assms(2)])
      (auto simp: verify_accounts_ok_def bind_res_Inr_iff init_account_Inr_iff recorded_def)
  then have "registry_ok pl w2" by (rule registry_ok_call [OF c])
  then show ?thesis
    by (rule registry_ok_same [rotated 2]) (simp_all add: w' recorded_def is_predicate_event_def)
qed

lemma registry_ok_step:
  assumes "chain_step pl w w'" "registry_ok pl w"
  shows "registry_ok pl w'"
  using assms(1)
proof cases
  case (step_consumer_init ca)
  then have c: "cons w (registry_key pl) = None" "events w' = events w"
      "cons w' = (cons w)(registry_key pl \<mapsto> \<lparr>reg_count = 0, reg_authority = ir_authority ca\<rparr>)"
    by (auto simp: consumer_initialize_def bind_res_Inr_iff init_account_Inr_iff)
  moreover have "recorded w = []" using c(1) assms(2) unfolding registry_ok_def by blast
  ultimately show ?thesis
    using assms(2) unfolding registry_ok_def by (auto simp: recorded_def)
qed (use assms(2) in \<open>auto simp: initialize_Inr_iff store_journal_Inr_iff recorded_def
  intro: registry_ok_verify registry_ok_record registry_ok_same\<close>)

text \<open>
  C27: on every reachable ledger the consumer has at most one registry, at its derived
  address, and its count is the number of verifications recorded, up to the largest
  \<open>u64\<close>.
\<close>

theorem registry_count_exact:
  assumes "reachable pl w" "cons w k = Some r"
  shows "k = registry_key pl \<and> unat (reg_count r) = min (length (recorded w)) (2 ^ 64 - 1)"
proof -
  obtain f where "(chain_step pl)\<^sup>*\<^sup>* (genesis f) w" using assms(1) by (auto simp: reachable_def)
  moreover have "registry_ok pl (genesis f)"
    by (simp add: registry_ok_def genesis_def recorded_def)
  ultimately have "registry_ok pl w"
    by (induction rule: rtranclp_induct) (auto intro: registry_ok_step)
  then show ?thesis using assms(2) unfolding registry_ok_def by blast
qed

theorem registry_count_exact_witness:
  "registry_key demo_platform = registry_key demo_platform \<and>
   unat (1 :: u64) = min (length (recorded demo_verified)) (2 ^ 64 - 1)"
  using registry_count_exact [OF demo_verified_reachable,
      of "registry_key demo_platform" "\<lparr>reg_count = 1, reg_authority = [9]\<rparr>"]
  by (simp add: demo_verified_def)

text \<open>
  The choice of the consumer is the submitter's: a verification that names another
  program, one that makes no calls, spends the nullifier while the consumer's registry and
  its records stay as they were.
\<close>

theorem consumer_is_submitters_choice:
  assumes "verify_predicate pl a sl dg idx n w = Inr w'" "va_consumer_program a \<noteq> consumer_id pl"
    and "\<And>f rk k m p. foreign_cpi pl f (va_consumer_program a) rk k m = Some p \<Longrightarrow> snd p = []"
  shows "cons w' = cons w \<and> recorded w' = recorded w \<and> coord w' (nullifier_key pl n) = Some Spent_nullifier"
proof -
  obtain cfg data w1 w2 c' where v: "verify_accounts_ok pl a sl dg n w = Inr (cfg, data, w1)"
      and c: "call_consumer pl (va_consumer_program a) (va_consumer_registry a) (va_caller a) n w1 = Inr w2"
      and w': "w' = w2\<lparr>coord := c', events := events w2 @ [PredicateVerified (va_caller a) n]\<rparr>"
    using assms(1) by (auto simp: verify_predicate_def bind_res_Inr_iff Let_def)
  obtain f where "w2 = w1\<lparr>foreign := f\<rparr>"
    using c assms(2) by (auto simp: call_consumer_def bind_res_Inr_iff dest!: assms(3))
  moreover have "cons w1 = cons w" "events w1 = events w"
    using v by (auto simp: verify_accounts_ok_def bind_res_Inr_iff init_account_Inr_iff)
  ultimately show ?thesis
    using verify_marks [OF assms(1)] by (simp add: w' recorded_def is_predicate_event_def)
qed

theorem consumer_is_submitters_choice_witness:
  "\<exists>w'. verify_predicate demo_platform (demo_accounts\<lparr>va_consumer_program := [4]\<rparr>) demo_seal demo_digest 0
       demo_nullifier demo_ledger = Inr w' \<and> cons w' = cons demo_ledger"
proof -
  obtain w' where w': "verify_predicate demo_platform (demo_accounts\<lparr>va_consumer_program := [4]\<rparr>) demo_seal
      demo_digest 0 demo_nullifier demo_ledger = Inr w'"
    using demo_other_consumer by blast
  have "cons w' = cons demo_ledger"
    using consumer_is_submitters_choice [OF w'] by (auto simp: demo_platform_def)
  with w' show ?thesis by blast
qed

end
