(* ===== verification/Coordinator_Spec.thy ===== *)
theory Coordinator_Spec
  imports Coordinator_Safety Simulation
begin

text \<open>
  What the coordinator promises, without accounts, addresses and errors: a registry that is
  configured once with an image, to which journals are published, and which marks a
  nullifier as spent when a published journal holds it and the verifier accepts that journal
  for the image, once per nullifier. The two programs on the ledger implement it.
\<close>

section \<open>The specification\<close>

record registry_spec =
  sp_config :: "(u8 list \<times> pubkey) option"
  sp_published :: "u8 list set"
  sp_spent :: "u8 list set"

inductive spec_step :: "(u8 list \<Rightarrow> u8 list \<Rightarrow> bool) \<Rightarrow> registry_spec \<Rightarrow> registry_spec \<Rightarrow> bool" for accepts where
  spec_configure: "sp_config s = None \<Longrightarrow> spec_step accepts s (s\<lparr>sp_config := Some (img, k)\<rparr>)"
| spec_publish: "length d \<le> 2048 \<Longrightarrow> spec_step accepts s (s\<lparr>sp_published := insert d (sp_published s)\<rparr>)"
| spec_spend: "sp_config s = Some (img, k) \<Longrightarrow> d \<in> sp_published s \<Longrightarrow> accepts img d \<Longrightarrow>
    holds_nullifier (words_of d) i n \<Longrightarrow> n \<notin> sp_spent s \<Longrightarrow>
    spec_step accepts s (s\<lparr>sp_spent := insert n (sp_spent s)\<rparr>)"

inductive_cases spec_stepE: "spec_step accepts s s'"

text \<open>What the specification guarantees of every nullifier it marks as spent.\<close>

definition justified :: "(u8 list \<Rightarrow> u8 list \<Rightarrow> bool) \<Rightarrow> registry_spec \<Rightarrow> bool" where
  "justified accepts s \<longleftrightarrow> (\<forall>n \<in> sp_spent s. \<exists>img k d i.
     sp_config s = Some (img, k) \<and> d \<in> sp_published s \<and> accepts img d \<and> holds_nullifier (words_of d) i n)"

lemma justified_step: "spec_step accepts s s' \<Longrightarrow> justified accepts s \<Longrightarrow> justified accepts s'"
  by (erule spec_stepE) (fastforce simp: justified_def)+

section \<open>The abstraction\<close>

text \<open>The registry a ledger represents, read off the coordinator's accounts.\<close>

definition spec_of :: "'f platform \<Rightarrow> 'f ledger \<Rightarrow> registry_spec" where
  "spec_of pl w = \<lparr>
     sp_config = (case coord w (config_key pl) of Some (Config_account c) \<Rightarrow> Some (image_id c, authority c) | _ \<Rightarrow> None),
     sp_published = {d. coord w (journal_key pl (sha256 pl d)) = Some (Journal_account d)},
     sp_spent = {n. length n = 32 \<and> coord w (nullifier_key pl n) = Some Spent_nullifier}\<rparr>"

text \<open>The router accepts a proof of the journal's digest for the image, in some state of its own.\<close>

definition router_accepts :: "'f platform \<Rightarrow> u8 list \<Rightarrow> u8 list \<Rightarrow> bool" where
  "router_accepts pl img d \<longleftrightarrow> (\<exists>f ra ve vp sl. router_verify pl f ra ve vp sl img (sha256 pl d))"

lemma spec_of_simps [simp]:
  "d \<in> sp_published (spec_of pl w) \<longleftrightarrow> coord w (journal_key pl (sha256 pl d)) = Some (Journal_account d)"
  "n \<in> sp_spent (spec_of pl w) \<longleftrightarrow> length n = 32 \<and> coord w (nullifier_key pl n) = Some Spent_nullifier"
  by (simp_all add: spec_of_def)

lemma spec_of_cong: "coord w' = coord w \<Longrightarrow> spec_of pl w' = spec_of pl w"
  by (simp add: spec_of_def)

text \<open>What the three kinds of change do to the represented registry.\<close>

lemma spec_of_init:
  assumes "platform_ok pl" "ledger_ok pl w" "coord w (config_key pl) = None"
    and "coord w' = (coord w)(config_key pl \<mapsto> Config_account c)"
  shows "spec_of pl w' = (spec_of pl w)\<lparr>sp_config := Some (image_id c, authority c)\<rparr>"
proof -
  have d32: "length (sha256 pl d) = 32" for d using assms(1) by (simp add: platform_ok_def)
  note ne = keys_distinct(1,2) [OF assms(1) d32 _ d32 d32]
  have "coord w' (journal_key pl (sha256 pl d)) = coord w (journal_key pl (sha256 pl d))" for d
    using ne(1) [of "replicate 32 0"] assms(4) by (metis fun_upd_apply length_replicate)
  moreover have "coord w' (nullifier_key pl n) = coord w (nullifier_key pl n)" if "length n = 32" for n
    using ne(2) [OF that] assms(4) by (metis fun_upd_apply)
  moreover have "coord w' (config_key pl) = Some (Config_account c)" by (simp add: assms(4))
  ultimately show ?thesis unfolding spec_of_def by (auto cong: conj_cong)
qed

lemma spec_of_journal:
  assumes "platform_ok pl" "coord w (journal_key pl (sha256 pl d)) = None"
    and "coord w' = (coord w)(journal_key pl (sha256 pl d) \<mapsto> Journal_account d)"
  shows "spec_of pl w' = (spec_of pl w)\<lparr>sp_published := insert d (sp_published (spec_of pl w))\<rparr>"
proof -
  have d32: "length (sha256 pl d) = 32" for d using assms(1) by (simp add: platform_ok_def)
  note ne = keys_distinct [OF assms(1) d32 _ d32 d32]
  have "coord w' (config_key pl) = coord w (config_key pl)"
    using ne(1) [of "replicate 32 0"] assms(3) by (metis fun_upd_apply length_replicate)
  moreover have "coord w' (nullifier_key pl n) = coord w (nullifier_key pl n)" if "length n = 32" for n
    using ne(3) [OF that] assms(3) by (metis fun_upd_apply)
  moreover have "coord w' (journal_key pl (sha256 pl e)) = Some (Journal_account e) \<longleftrightarrow>
      e = d \<or> coord w (journal_key pl (sha256 pl e)) = Some (Journal_account e)" for e
    using assms(2,3) by auto
  ultimately show ?thesis unfolding spec_of_def by (auto cong: conj_cong)
qed

lemma spec_of_spend:
  assumes "platform_ok pl" "length n = 32" "coord w (nullifier_key pl n) = None"
    and "coord w (config_key pl) = Some (Config_account c)"
    and "image_id c' = image_id c" "authority c' = authority c"
    and "coord w' = (coord w)(nullifier_key pl n \<mapsto> Spent_nullifier, config_key pl \<mapsto> Config_account c')"
  shows "spec_of pl w' = (spec_of pl w)\<lparr>sp_spent := insert n (sp_spent (spec_of pl w))\<rparr>"
proof -
  have d32: "length (sha256 pl d) = 32" for d using assms(1) by (simp add: platform_ok_def)
  note ne = keys_distinct [OF assms(1) d32 assms(2) _ d32]
  have "coord w' (journal_key pl (sha256 pl d)) = coord w (journal_key pl (sha256 pl d))" for d
    using ne(1,3) [of n d] assms(2,7) by (metis fun_upd_apply)
  moreover have "coord w' (nullifier_key pl m) = Some Spent_nullifier \<longleftrightarrow>
      m = n \<or> coord w (nullifier_key pl m) = Some Spent_nullifier" if "length m = 32" for m
    using ne(4) [OF that] keys_distinct(2) [OF assms(1) d32 that that d32] assms(7) by auto
  moreover have "coord w' (config_key pl) = Some (Config_account c')" by (simp add: assms(7))
  ultimately show ?thesis
    unfolding spec_of_def using assms(2,4-6) by (auto cong: conj_cong)
qed

section \<open>The ledger implements the specification\<close>

lemma chain_step_simulates:
  assumes "platform_ok pl" "ledger_ok pl w" "chain_step pl w w'"
  shows "(spec_step (router_accepts pl))\<^sup>=\<^sup>= (spec_of pl w) (spec_of pl w')"
  using assms(3)
proof (cases rule: chain_step_cases)
  case same
  show ?thesis by (simp add: spec_of_cong [OF same(1)])
next
  case (init img k)
  show ?thesis
    unfolding spec_of_init [OF assms(1,2) init(1,3)] using init(1)
    by (intro sup2I1 spec_configure) (simp add: spec_of_def)
next
  case (journal d)
  show ?thesis
    unfolding spec_of_journal [OF assms(1) journal(1,4)] by (intro sup2I1 spec_publish journal(2))
next
  case (verify cfg data idx n f ra ve vp sl)
  have "length data \<le> 2048" using ledger_okD(1) [OF assms(2) verify(2)] by simp
  then have n: "length n = 32" "holds_nullifier (words_of data) (unat idx) n"
    using decoded_length [OF verify(4)] decoded_holds [OF verify(4)] by simp_all
  have "spec_of pl w' = (spec_of pl w)\<lparr>sp_spent := insert n (sp_spent (spec_of pl w))\<rparr>"
    by (rule spec_of_spend [OF assms(1) n(1) verify(3,1) _ _ verify(7)]) simp_all
  moreover have "sp_config (spec_of pl w) = Some (image_id cfg, authority cfg)"
    using verify(1) by (simp add: spec_of_def)
  moreover have "data \<in> sp_published (spec_of pl w)" "n \<notin> sp_spent (spec_of pl w)"
    using verify(2,3) by simp_all
  moreover have "router_accepts pl (image_id cfg) data"
    using verify(5) unfolding router_accepts_def by blast
  ultimately show ?thesis using n(2) by (auto intro: spec_spend)
qed

text \<open>
  The registry of the specification, over the ledgers of a platform whose derived addresses
  do not collide.
\<close>

interpretation coordinator_spec: simulation "chain_step pl" "spec_step (router_accepts pl)" "spec_of pl"
  "\<lambda>w. platform_ok pl \<and> ledger_ok pl w" for pl :: "'f platform"
  by unfold_locales (auto intro: ledger_ok_step dest: chain_step_simulates)

lemma ledger_justified:
  assumes "platform_ok pl" "reachable pl w"
  shows "justified (router_accepts pl) (spec_of pl w)"
proof -
  obtain f where f: "(chain_step pl)\<^sup>*\<^sup>* (genesis f) w" using assms(2) unfolding reachable_def by blast
  show ?thesis
    by (rule coordinator_spec.spec_invariant [OF f])
      (auto simp: assms(1) ledger_ok_genesis justified_step, simp add: justified_def spec_of_def genesis_def)
qed

definition empty_registry :: registry_spec where
  "empty_registry = \<lparr>sp_config = None, sp_published = {}, sp_spent = {}\<rparr>"

lemma spec_of_genesis: "spec_of pl (genesis f) = empty_registry"
  by (simp add: spec_of_def genesis_def empty_registry_def)

text \<open>
  C1: the two programs implement the registry: on every ledger that successful instructions,
  by anyone and in any order, lead to from an empty one, the accounts represent a registry
  that the specification reaches from the empty registry, and each further instruction is a
  step of the specification or changes nothing of the registry. Every nullifier it has spent,
  the verified ones, is held by a published journal that the verifier accepts for the
  configured image.
\<close>

theorem coordinator_implements_registry:
  assumes "platform_ok pl" "reachable pl w"
  shows "(spec_step (router_accepts pl))\<^sup>*\<^sup>* empty_registry (spec_of pl w) \<and>
     (\<forall>w'. chain_step pl w w' \<longrightarrow>
        spec_of pl w' = spec_of pl w \<or> spec_step (router_accepts pl) (spec_of pl w) (spec_of pl w')) \<and>
     justified (router_accepts pl) (spec_of pl w) \<and> sp_spent (spec_of pl w) = set (verified w)"
proof (intro conjI allI impI ledger_justified [OF assms])
  obtain f where f: "(chain_step pl)\<^sup>*\<^sup>* (genesis f) w" using assms(2) unfolding reachable_def by blast
  show "(spec_step (router_accepts pl))\<^sup>*\<^sup>* empty_registry (spec_of pl w)"
    using coordinator_spec.run_simulates [OF f] assms(1) ledger_ok_genesis [of pl f] by (simp add: spec_of_genesis)
  have ok: "ledger_ok pl w" by (rule reachable_ok [OF assms])
  show "spec_of pl w' = spec_of pl w \<or> spec_step (router_accepts pl) (spec_of pl w) (spec_of pl w')"
    if "chain_step pl w w'" for w'
    using chain_step_simulates [OF assms(1) ok that] by auto
  have d32: "length (sha256 pl d) = 32" for d using assms(1) by (simp add: platform_ok_def)
  show "sp_spent (spec_of pl w) = set (verified w)"
    using ledger_okD(3,4) [OF ok] keys_distinct(4) [OF assms(1) d32 _ _ d32]
    by (auto simp: spec_of_def image_iff)
qed

theorem coordinator_implements_registry_witness:
  "(spec_step (router_accepts demo_platform))\<^sup>*\<^sup>* empty_registry (spec_of demo_platform demo_verified) \<and>
   sp_spent (spec_of demo_platform demo_verified) = {demo_nullifier}"
  using coordinator_implements_registry [OF demo_platform_ok demo_verified_reachable] demo_verified_list
  by simp

end
