(* ===== verification/Front_Running.thy ===== *)
theory Front_Running
  imports Coordinator_Props
begin

text \<open>
  What a verification does not bind. The caller of \<open>verify_predicate\<close> and the consumer
  program it names are in no relation to the proof: whoever sees a submission before it is
  confirmed can send the same proof first, as a caller of its own and with a consumer
  program of its own. The nullifier is spent, the registry learns nothing, and the
  submission it copied fails for good.
\<close>

text \<open>
  Paying for a new account changes the lamports of the payer and the new account only; what
  the router reads is the same whoever pays.
\<close>

definition router_unchanged :: "'f platform \<Rightarrow> 'f \<Rightarrow> 'f \<Rightarrow> bool" where
  "router_unchanged pl f f' \<longleftrightarrow> is_router pl f' = is_router pl f \<and>
     is_verifier_entry pl f' = is_verifier_entry pl f \<and> router_verify pl f' = router_verify pl f"

text \<open>The copy of a submission: the same proof, another caller, another consumer program.\<close>

definition copied :: "verify_accounts \<Rightarrow> pubkey \<Rightarrow> pubkey \<Rightarrow> verify_accounts" where
  "copied a caller program = a\<lparr>va_caller := caller, va_signed := True, va_consumer_program := program\<rparr>"

lemma copied_verification:
  assumes "verify_predicate pl a sl dg idx n w = Inr w1"
    and "create_account pl (foreign w) caller (nullifier_key pl n) 8 = Some f"
    and "\<And>g. create_account pl (foreign w) (va_caller a) (nullifier_key pl n) 8 = Some g \<Longrightarrow> router_unchanged pl g f"
    and "program \<noteq> consumer_id pl"
    and "foreign_cpi pl f program (va_consumer_registry a) caller n = Some (f', [])"
  obtains cfg where "verify_predicate pl (copied a caller program) sl dg idx n w =
     Inr (w\<lparr>foreign := f', coord := (coord w)(nullifier_key pl n \<mapsto> Spent_nullifier,
         config_key pl \<mapsto> Config_account (cfg\<lparr>verified_count := saturating_inc (verified_count cfg)\<rparr>)),
       events := events w @ [PredicateVerified caller n]\<rparr>)"
proof -
  from assms(1) obtain cfg data w2 where v: "verify_accounts_ok pl a sl dg n w = Inr (cfg, data, w2)"
      and d: "sha256 pl data = dg" "decode_nullifier_from_journal data idx = Inr n"
      and r: "router_verify pl (foreign w2) (va_router_account a) (va_verifier_entry a) (va_verifier_program a) sl
        (image_id cfg) dg"
    by (auto simp: verify_predicate_def bind_res_Inr_iff Let_def)
  from v obtain g where a: "create_account pl (foreign w) (va_caller a) (nullifier_key pl n) 8 = Some g"
      "va_config a = config_key pl" "coord w (config_key pl) = Some (Config_account cfg)"
      "va_journal a = journal_key pl dg" "coord w (journal_key pl dg) = Some (Journal_account data)"
      "va_spent a = nullifier_key pl n" "coord w (nullifier_key pl n) = None" "cons w (nullifier_key pl n) = None"
      "va_router a = router_id pl" "is_router pl g (va_router_account a)"
      "va_verifier_entry a = verifier_key pl (selector sl)" "is_verifier_entry pl g (va_verifier_entry a)"
      "va_system a = system_id pl" "foreign w2 = g"
    by (auto simp: verify_accounts_ok_def bind_res_Inr_iff load_Inr_iff init_account_Inr_iff)
  have u: "router_unchanged pl g f" by (rule assms(3) [OF a(1)])
  show thesis
    using assms(2,4,5) d r a u
    by (intro that [of cfg])
      (simp add: verify_predicate_def verify_accounts_ok_def copied_def load_config_def load_journal_def
        init_account_def map_error_def call_consumer_def router_unchanged_def Let_def)
qed

text \<open>
  C14: a submission that would succeed can be spent by anyone: a copy of it with another
  caller, who pays for the nullifier's account, and another consumer program that accepts the
  call succeeds in its place; the consumer's registry is untouched, and from then on every
  submission of that nullifier fails, the original included.
\<close>

theorem anyone_can_spend_a_proof:
  assumes "verify_predicate pl a sl dg idx n w = Inr w1"
    and "create_account pl (foreign w) caller (nullifier_key pl n) 8 = Some f"
    and "\<And>g. create_account pl (foreign w) (va_caller a) (nullifier_key pl n) 8 = Some g \<Longrightarrow> router_unchanged pl g f"
    and "program \<noteq> consumer_id pl"
    and "foreign_cpi pl f program (va_consumer_registry a) caller n = Some (f', [])"
  shows "\<exists>w2. verify_predicate pl (copied a caller program) sl dg idx n w = Inr w2 \<and>
     cons w2 = cons w \<and> verified w2 = verified w @ [n] \<and>
     (\<forall>w3 a' sl' dg' idx' w4. (chain_step pl)\<^sup>*\<^sup>* w2 w3 \<longrightarrow> verify_predicate pl a' sl' dg' idx' n w3 \<noteq> Inr w4)"
proof -
  obtain cfg where c: "verify_predicate pl (copied a caller program) sl dg idx n w =
      Inr (w\<lparr>foreign := f', coord := (coord w)(nullifier_key pl n \<mapsto> Spent_nullifier,
         config_key pl \<mapsto> Config_account (cfg\<lparr>verified_count := saturating_inc (verified_count cfg)\<rparr>)),
       events := events w @ [PredicateVerified caller n]\<rparr>)" (is "_ = Inr ?w2")
    by (rule copied_verification [OF assms])
  then have "verify_predicate pl a' sl' dg' idx' n w3 \<noteq> Inr w4" if "(chain_step pl)\<^sup>*\<^sup>* ?w2 w3" for w3 a' sl' dg' idx' w4
    using nullifier_guard.consumed_once [of pl n w ?w2 w3 w4] that by blast
  with c show ?thesis
    by (intro exI [of _ ?w2]) (simp add: verified_def is_predicate_event_def)
qed

theorem anyone_can_spend_a_proof_witness:
  "\<exists>w2. verify_predicate demo_platform (copied demo_accounts [13] [14]) demo_seal demo_digest 0 demo_nullifier
       demo_ledger = Inr w2 \<and> cons w2 = cons demo_ledger"
  using anyone_can_spend_a_proof [OF demo_verification, of "[13]" "()" "[14]" "()"]
  by (auto simp: demo_platform_def router_unchanged_def)

end
