(* ===== verification/Image_Ids.thy ===== *)
theory Image_Ids
  imports Rust_Strings
begin

text \<open>
  Image ids as text: the parser and the printer of the prover
  (\<open>prover/src/main.rs\<close>) and the parser of the submit client
  (\<open>devnet-client/src/main.rs\<close>), which reads the text the prover's service answers with.
\<close>

section \<open>The prover\<close>

datatype image_id_error = WrongLength nat | BadWord nat int_error

text \<open>The loop over the words, \<open>n\<close> of which are left from index \<open>i\<close> on.\<close>

primrec parse_words :: "str \<Rightarrow> nat \<Rightarrow> nat \<Rightarrow> (image_id_error, u32 list) res" where
  "parse_words hex i 0 = Inr []"
| "parse_words hex i (Suc n) =
     bind_res (str_slice hex (i * 8) ((i + 1) * 8)) (\<lambda>chunk.
     bind_res (map_error (BadWord i) (from_hex chunk)) (\<lambda>w.
     bind_res (parse_words hex (Suc i) n) (\<lambda>ws. Inr (w # ws))))"

definition parse_image_id :: "str \<Rightarrow> (image_id_error, u32 list) res" where
  "parse_image_id s =
     (let hex = trim s
      in bind_res (require (str_len hex = 64) (WrongLength (str_len hex))) (\<lambda>_. parse_words hex 0 8))"

definition image_id_to_hex :: "u32 list \<Rightarrow> str" where
  "image_id_to_hex ids = concat (map format_08x ids)"

section \<open>The client\<close>

primrec client_words :: "str \<Rightarrow> nat \<Rightarrow> nat \<Rightarrow> ('e, u8 list) res" where
  "client_words hex i 0 = Inr []"
| "client_words hex i (Suc n) =
     bind_res (str_slice hex (i * 8) ((i + 1) * 8)) (\<lambda>chunk.
     bind_res (unwrap_result (from_hex chunk)) (\<lambda>w.
     bind_res (client_words hex (Suc i) n) (\<lambda>bs. Inr (to_le 4 w @ bs))))"

definition client_image_id :: "str \<Rightarrow> ('e, u8 list) res" where
  "client_image_id s = client_words (trim s) 0 8"

section \<open>What the parsers accept\<close>

text \<open>
  The words of a text: a concatenation of texts of eight characters, each the text of a
  word.
\<close>

lemma str_slice_word:
  assumes "str_len p = a"
  shows "str_slice (p @ c @ r) a (a + str_len c) = Inr c"
  using assms unfolding str_slice_Inr_iff by auto

lemma from_hex_ascii:
  assumes "from_hex c = Inr w"
  shows "ascii c"
proof -
  have "parse_digits 0 (if hd c = 0x2B then tl c else c) = Inr w"
    using assms by (simp add: from_hex_def split: if_splits)
  then have "ascii (if hd c = 0x2B then tl c else c)"
    using parse_digits_Inr digits_of_ascii by blast
  then show ?thesis by (cases c) (auto split: if_splits)
qed

lemma from_hex_chunk:
  assumes "str_len c = 8"
  shows "from_hex c = Inr w \<longleftrightarrow> word_text c w"
  using assms from_hex_ascii [of c w] word_text_ascii [of c w] from_hex_word_text [of c w] by auto

lemma word_text_len: "word_text c w \<Longrightarrow> str_len c = 8"
  using word_text_ascii [of c w] by (simp add: word_text_def)

text \<open>One word: the slice at the current position is its text.\<close>

lemma parse_words_Suc_iff:
  assumes "str_len p = i * 8"
  shows "parse_words (p @ s) i (Suc n) = Inr ws \<longleftrightarrow>
     (\<exists>c r w ws'. s = c @ r \<and> word_text c w \<and> ws = w # ws' \<and> parse_words ((p @ c) @ r) (Suc i) n = Inr ws')"
    (is "?l = ?r")
proof
  assume ?l
  then obtain c w ws' where c: "str_slice (p @ s) (i * 8) ((i + 1) * 8) = (Inr c :: (image_id_error, _) res)"
      "from_hex c = Inr w" "parse_words (p @ s) (Suc i) n = Inr ws'" "ws = w # ws'"
    by (auto simp: bind_res_Inr_iff)
  then obtain q r where q: "p @ s = q @ c @ r" "str_len q = i * 8" "str_len c = 8"
    unfolding str_slice_Inr_iff by auto
  have "split_bytes (i * 8) (p @ s) = Some (p, s)" "split_bytes (i * 8) (p @ s) = Some (q, c @ r)"
    unfolding split_bytes_Some_iff using q assms by auto
  then have "s = c @ r" by simp
  then show ?r using c q(3) from_hex_chunk [of c w] by auto
next
  assume ?r
  then obtain c r w ws' where c: "s = c @ r" "word_text c w" "ws = w # ws'"
      "parse_words ((p @ c) @ r) (Suc i) n = Inr ws'" by blast
  have "str_slice (p @ c @ r) (i * 8) (i * 8 + str_len c) = (Inr c :: (image_id_error, _) res)"
    by (rule str_slice_word [OF assms])
  then show ?l
    using c from_hex_chunk [of c w] word_text_len [OF c(2)] by (simp add: add.commute)
qed

lemma parse_words_Inr_iff:
  assumes "str_len p = i * 8"
  shows "parse_words (p @ s) i n = Inr ws \<longleftrightarrow>
     (\<exists>cs r. s = concat cs @ r \<and> length cs = n \<and> list_all2 word_text cs ws)"
  using assms
proof (induction n arbitrary: i p s ws)
  case 0
  show ?case by auto
next
  case (Suc n)
  note step = parse_words_Suc_iff [OF Suc.prems]
  have ih: "parse_words ((p @ c) @ r) (Suc i) n = Inr ws' \<longleftrightarrow>
      (\<exists>cs r'. r = concat cs @ r' \<and> length cs = n \<and> list_all2 word_text cs ws')" if "word_text c w" for c r w ws'
    using word_text_len [OF that] by (intro Suc.IH) (simp add: Suc.prems)
  show ?case (is "_ \<longleftrightarrow> ?g")
  proof
    assume "parse_words (p @ s) i (Suc n) = Inr ws"
    then obtain c r w ws' where c: "s = c @ r" "word_text c w" "ws = w # ws'"
        "parse_words ((p @ c) @ r) (Suc i) n = Inr ws'"
      unfolding step by blast
    then obtain cs r' where "r = concat cs @ r'" "length cs = n" "list_all2 word_text cs ws'"
      unfolding ih [OF c(2)] by blast
    then show ?g using c(1-3) by (intro exI [of _ "c # cs"] exI [of _ r']) simp
  next
    assume ?g
    then obtain cs r where "s = concat cs @ r" "length cs = Suc n" "list_all2 word_text cs ws" by blast
    then obtain c cs w ws' where c: "s = c @ concat cs @ r" "length cs = n" "word_text c w"
        "list_all2 word_text cs ws'" "ws = w # ws'"
      by (cases cs; cases ws) auto
    have "parse_words ((p @ c) @ concat cs @ r) (Suc i) n = Inr ws'"
      unfolding ih [OF c(3)] using c(2,4) by blast
    then show "parse_words (p @ s) i (Suc n) = Inr ws"
      unfolding step using c by (intro exI [of _ c] exI [of _ "concat cs @ r"] exI [of _ w] exI [of _ ws']) simp
  qed
qed

lemma concat_word_texts: "list_all2 word_text cs ws \<Longrightarrow> str_len (concat cs) = 8 * length cs"
  by (induction rule: list_all2_induct) (simp_all add: word_text_len)

lemma client_words_eq:
  "client_words hex i n = (case parse_words hex i n of
     Inr ws \<Rightarrow> Inr (concat (map (to_le 4) ws)) | Inl _ \<Rightarrow> Inl Panic)"
proof (induction n arbitrary: i)
  case (Suc n)
  show ?case
  proof (cases "str_slice hex (i * 8) ((i + 1) * 8) :: (image_id_error, _) res")
    case (Inl e)
    then have "e = Panic" "str_slice hex (i * 8) ((i + 1) * 8) = (Inl Panic :: ('a, _) res)"
      by (auto simp: str_slice_def split: if_splits option.splits)
    then show ?thesis using Inl by simp
  next
    case (Inr c)
    note c' = this
    then have c: "str_slice hex (i * 8) ((i + 1) * 8) = (Inr c :: ('a, _) res)"
      by (auto simp: str_slice_def split: if_splits option.splits)
    show ?thesis
    proof (cases "from_hex c")
      case (Inl e)
      then obtain x where "from_hex c = Inl (Fault x)" using from_hex_faults by blast
      then show ?thesis using c' c by simp
    next
      case (Inr w)
      then show ?thesis
        using c c' Suc.IH [of "Suc i"] by (simp split: sum.splits)
    qed
  qed
qed simp

section \<open>Properties\<close>

lemma parse_image_id_iff:
  "parse_image_id s = Inr ids \<longleftrightarrow>
     (\<exists>cs. trim s = concat cs \<and> length cs = 8 \<and> list_all2 word_text cs ids)"
proof -
  note w = parse_words_Inr_iff [of "[]" 0 "trim s" 8 ids, simplified]
  show ?thesis
    unfolding parse_image_id_def Let_def bind_res_Inr_iff require_Inr_iff w
    using concat_word_texts by fastforce
qed

text \<open>
  The prover accepts a text exactly when, trimmed, it is eight groups of eight
  characters, each eight hexadecimal digits of either case or a plus sign and seven digits,
  and the words it returns are their values.
\<close>

theorem parse_image_id_accepts:
  "parse_image_id s = Inr ids \<longleftrightarrow>
     (\<exists>cs. trim s = concat cs \<and> length cs = 8 \<and> length ids = 8 \<and>
        (\<forall>i < 8. length (cs ! i) = 8 \<and>
          (\<exists>ds. digits_of (if hd (cs ! i) = 0x2B then tl (cs ! i) else cs ! i) = Some ds \<and>
             ids ! i = of_nat (hex_value ds))))"
  unfolding parse_image_id_iff list_all2_conv_all_nth word_text_def by (intro ex_cong1) auto

lemma format_08x_texts: "list_all2 word_text (map format_08x ids) ids"
  by (induction ids) (simp_all add: format_08x_text)

lemma print_then_parse:
  assumes "length ids = 8" "list_all is_whitespace ws" "list_all is_whitespace ws'"
  shows "parse_image_id (ws @ image_id_to_hex ids @ ws') = Inr ids"
proof -
  obtain w ids' where h: "ids = w # ids'" using assms(1) by (cases ids) auto
  obtain ids'' v where l: "ids = ids'' @ [v]" using assms(1) by (cases ids rule: rev_cases) auto
  have ne: "format_08x x \<noteq> []" for x using format_08x_text(2) [of x] by auto
  have "hd (image_id_to_hex ids) = hd (format_08x w)" using ne by (simp add: image_id_to_hex_def h)
  moreover have "last (image_id_to_hex ids) = last (format_08x v)" using ne by (simp add: image_id_to_hex_def l)
  moreover have "image_id_to_hex ids \<noteq> []" using ne by (simp add: image_id_to_hex_def h)
  ultimately have "trim (ws @ image_id_to_hex ids @ ws') = image_id_to_hex ids"
    by (intro trim_between assms(2,3)) (simp_all add: format_08x_text)
  then show ?thesis
    unfolding parse_image_id_iff image_id_to_hex_def using assms(1) format_08x_texts
    by (intro exI [of _ "map format_08x ids"]) simp
qed

text \<open>
  Parsing what the printer prints, whatever white space surrounds it, gives the words
  back.
\<close>

theorem image_id_roundtrip:
  assumes "length ids = 8" "list_all is_whitespace ws" "list_all is_whitespace ws'"
  shows "parse_image_id (ws @ image_id_to_hex ids @ ws') = Inr ids"
  by (rule print_then_parse [OF assms])

theorem image_id_roundtrip_witness:
  "parse_image_id ([0x20] @ image_id_to_hex (replicate 8 0xDEADBEEF) @ [0x0D, 0x0A]) = Inr (replicate 8 0xDEADBEEF)"
  by (rule image_id_roundtrip) (simp_all add: is_whitespace_def)

lemma word_text_hd: "word_text c w \<Longrightarrow> c \<noteq> [] \<and> \<not> is_whitespace (hd c)"
  by (cases c) (auto simp: word_text_def is_whitespace_def to_digit_def split: if_splits option.splits)

lemma client_image_id_iff:
  "client_image_id s = (Inr bs :: ('e, _) res) \<longleftrightarrow>
     (\<exists>cs r ids. trim s = concat cs @ r \<and> length cs = 8 \<and> list_all2 word_text cs ids \<and>
        bs = concat (map (to_le 4) ids))"
proof -
  have "client_image_id s = (Inr bs :: ('e, _) res) \<longleftrightarrow>
      (\<exists>ids. parse_words (trim s) 0 8 = Inr ids \<and> bs = concat (map (to_le 4) ids))"
    by (auto simp: client_image_id_def client_words_eq split: sum.splits)
  then show ?thesis
    using parse_words_Inr_iff [of "[]" 0 "trim s" 8] by auto
qed

lemma client_reads_accepted:
  assumes "parse_image_id s = Inr ids"
  shows "client_image_id s = (Inr (concat (map (to_le 4) ids)) :: ('e, _) res)"
proof -
  obtain cs where "trim s = concat cs" "length cs = 8" "list_all2 word_text cs ids"
    using assms parse_image_id_iff by blast
  then show ?thesis
    unfolding client_image_id_iff by (intro exI [of _ cs] exI [of _ "[]"] exI [of _ ids]) simp
qed

text \<open>
  C31: the client reads every text the prover accepts as the same words, in little-endian
  bytes. It does not check the length, so it reads the same id from a text with anything
  appended, which the prover refuses.
\<close>

theorem client_reads_prover_ids:
  assumes "parse_image_id s = Inr ids" "t \<noteq> []" "\<not> is_whitespace (last t)"
  shows "client_image_id s = (Inr (concat (map (to_le 4) ids)) :: ('e, _) res) \<and>
     client_image_id (trim s @ t) = (Inr (concat (map (to_le 4) ids)) :: ('e, _) res) \<and>
     parse_image_id (trim s @ t) = Inl (Fault (WrongLength (64 + str_len t)))"
proof -
  obtain cs where cs: "trim s = concat cs" "length cs = 8" "list_all2 word_text cs ids"
    using assms(1) parse_image_id_iff by blast
  obtain c cs' w ids' where c: "cs = c # cs'" "word_text c w" "ids = w # ids'"
    using cs(2,3) by (cases cs; cases ids) auto
  have "trim ([] @ (trim s @ t) @ []) = trim s @ t"
    using word_text_hd [OF c(2)] assms(2,3) by (intro trim_between) (simp_all add: cs(1) c(1))
  then have t: "trim (trim s @ t) = trim s @ t" by simp
  have "str_len (trim s) = 64" using concat_word_texts [OF cs(3)] cs(1,2) by simp
  moreover have "str_len t \<noteq> 0" using assms(2) by simp
  ultimately have "parse_image_id (trim s @ t) = Inl (Fault (WrongLength (64 + str_len t)))"
    unfolding parse_image_id_def Let_def t by (simp add: require_def)
  moreover have "client_image_id s = (Inr (concat (map (to_le 4) ids)) :: ('e, _) res)"
    by (rule client_reads_accepted [OF assms(1)])
  moreover have "client_image_id (trim s @ t) = (Inr (concat (map (to_le 4) ids)) :: ('e, _) res)"
    unfolding client_image_id_iff t using cs by (intro exI [of _ cs] exI [of _ t] exI [of _ ids]) simp
  ultimately show ?thesis by blast
qed

theorem client_reads_prover_ids_witness:
  "client_image_id (image_id_to_hex (replicate 8 7)) = (Inr (concat (replicate 8 [7, 0, 0, 0])) :: (unit, _) res)"
proof -
  have "parse_image_id (image_id_to_hex (replicate 8 7)) = Inr (replicate 8 7)"
    using print_then_parse [of "replicate 8 7" "[]" "[]"] by simp
  from client_reads_prover_ids [OF this, of "[0x61]", where 'e = unit] show ?thesis
    by (simp add: is_whitespace_def to_le_numeral)
qed

lemma parse_words_ascii:
  assumes "ascii hex" "length hex = 64" "i + n \<le> 8"
  shows "parse_words hex i n \<noteq> Inl Panic"
  using assms(3)
proof (induction n arbitrary: i)
  case (Suc n)
  have "str_slice hex (i * 8) ((i + 1) * 8) = (Inr (take 8 (drop (i * 8) hex)) :: (image_id_error, _) res)"
    using str_slice_ascii [OF assms(1), of "i * 8" "(i + 1) * 8"] Suc.prems assms(2) by simp
  moreover have "from_hex c \<noteq> Inl Panic" for c using from_hex_faults by blast
  ultimately show ?case
    using Suc.IH [of "Suc i"] Suc.prems by (auto simp: bind_res_Inl_iff)
qed simp

lemma first_slice_panics: "str_slice hex 0 8 = (Inl Panic :: (image_id_error, _) res) \<Longrightarrow> parse_words hex 0 8 = Inl Panic"
  by (simp add: numeral_eq_Suc)

text \<open>
  C40: on ASCII text the prover's parser never panics: it returns the words or one of its
  errors. On other text it may: a character of two bytes across the boundary of two words
  stops the thread that parses it.
\<close>

theorem ascii_ids_never_panic:
  assumes "ascii (trim s)"
  shows "parse_image_id s \<noteq> Inl Panic \<and>
     parse_image_id (replicate 7 0x30 @ [0xE9] @ replicate 55 0x30) = Inl Panic"
proof (intro conjI)
  show "parse_image_id s \<noteq> Inl Panic"
    using parse_words_ascii [OF assms, of 0 8] assms
    by (auto simp: parse_image_id_def Let_def bind_res_Inl_iff)
  let ?s = "replicate 7 0x30 @ [0xE9] @ replicate 55 (0x30 :: nat)"
  have "trim ([] @ ?s @ []) = ?s" by (rule trim_between) (simp_all add: is_whitespace_def)
  then have t: "trim ?s = ?s" by simp
  have "str_slice ?s 0 8 = (Inl Panic :: (image_id_error, _) res)"
    by (simp add: str_slice_def replicate_numeral utf8_len_def)
  then have "parse_words ?s 0 8 = Inl Panic" by (rule first_slice_panics)
  moreover have "str_len ?s = 64" by (simp add: utf8_len_def ascii_def list_all_iff)
  ultimately show "parse_image_id ?s = Inl Panic"
    unfolding parse_image_id_def Let_def t by simp
qed

theorem ascii_ids_never_panic_witness: "parse_image_id (replicate 64 0x2D) \<noteq> Inl Panic"
proof -
  have "trim ([] @ replicate 64 0x2D @ []) = replicate 64 0x2D"
    by (rule trim_between) (simp_all add: is_whitespace_def)
  then show ?thesis
    by (intro conjunct1 [OF ascii_ids_never_panic]) (simp add: ascii_def list_all_iff)
qed

end
