(* ===== verification/Wrap_Service.thy ===== *)
theory Wrap_Service
  imports Image_Ids
begin

text \<open>
  The prover (\<open>prover/src/main.rs\<close>): it wraps a succinct receipt into a Groth16 receipt,
  once from files or as an HTTP service. The RISC Zero library and the base64 codec are a
  record of parameters; the file system is a map from paths to contents.
\<close>

section \<open>What the prover is given\<close>

record ('i, 'r) risc0 =
  inner_from_slice :: "u8 list \<Rightarrow> 'i option"
  receipt_new :: "'i \<Rightarrow> u8 list \<Rightarrow> 'r"
  receipt_verify :: "'r \<Rightarrow> u32 list \<Rightarrow> bool"
  compress_groth16 :: "'r \<Rightarrow> 'r option"
  groth16_seal :: "'r \<Rightarrow> u8 list option"
  b64_decode :: "str \<Rightarrow> u8 list option"
  b64_encode :: "u8 list \<Rightarrow> str"

text \<open>
  A write succeeds, or it fails and leaves the file in some state (none, old or partly
  written).
\<close>

record disk =
  contents :: "string \<Rightarrow> u8 list option"
  fault :: "u8 list option option"

definition fs_write :: "disk \<Rightarrow> string \<Rightarrow> u8 list \<Rightarrow> disk \<times> bool" where
  "fs_write d path bs = (case fault d of
     None \<Rightarrow> (d\<lparr>contents := (contents d)(path \<mapsto> bs)\<rparr>, True)
   | Some left \<Rightarrow> (d\<lparr>contents := (contents d)(path := left)\<rparr>, False))"

section \<open>wrap\<close>

record wrap_input =
  proof_in :: "u8 list"
  journal_in :: "u8 list"
  id_in :: "u32 list"

record wrap_output =
  seal_out :: "u8 list"
  journal_out :: "u8 list"
  id_hex_out :: str

datatype wrap_error =
  DeserializeInner | SuccinctInvalid | CompressionFailed | Groth16Invalid | ExpectedGroth16

definition wrap :: "('i, 'r) risc0 \<Rightarrow> wrap_input \<Rightarrow> (wrap_error, wrap_output) res" where
  "wrap z inp =
     bind_res (ok_or DeserializeInner (inner_from_slice z (proof_in inp))) (\<lambda>inner.
     let receipt = receipt_new z inner (journal_in inp) in
     bind_res (require (receipt_verify z receipt (id_in inp)) SuccinctInvalid) (\<lambda>_.
     bind_res (ok_or CompressionFailed (compress_groth16 z receipt)) (\<lambda>groth16.
     bind_res (require (receipt_verify z groth16 (id_in inp)) Groth16Invalid) (\<lambda>_.
     bind_res (ok_or ExpectedGroth16 (groth16_seal z groth16)) (\<lambda>sl.
       Inr \<lparr>seal_out = sl, journal_out = journal_in inp, id_hex_out = image_id_to_hex (id_in inp)\<rparr>)))))"

section \<open>The one-shot mode\<close>

datatype oneshot_error =
  ReadFailed string | BadImageId image_id_error | WrapFailed wrap_error | WriteFailed

text \<open>\<open>fs::read_to_string\<close> fails on bytes that are not UTF-8.\<close>

definition read_to_string :: "disk \<Rightarrow> string \<Rightarrow> str option" where
  "read_to_string d path = (case contents d path of None \<Rightarrow> None | Some bs \<Rightarrow> utf8_decode bs)"

definition oneshot_output :: "('i, 'r) risc0 \<Rightarrow> disk \<Rightarrow> (oneshot_error, wrap_output) res" where
  "oneshot_output z d =
     bind_res (ok_or (ReadFailed ''artifacts/proof.bin'') (contents d ''artifacts/proof.bin'')) (\<lambda>proof_bytes.
     bind_res (ok_or (ReadFailed ''artifacts/journal.bin'') (contents d ''artifacts/journal.bin'')) (\<lambda>journal_bytes.
     bind_res (ok_or (ReadFailed ''artifacts/image_id.txt'') (read_to_string d ''artifacts/image_id.txt'')) (\<lambda>hex.
     bind_res (map_error BadImageId (parse_image_id hex)) (\<lambda>ids.
       map_error WrapFailed (wrap z \<lparr>proof_in = proof_bytes, journal_in = journal_bytes, id_in = ids\<rparr>)))))"

definition run_oneshot :: "('i, 'r) risc0 \<Rightarrow> disk \<Rightarrow> (oneshot_error, unit) res \<times> disk" where
  "run_oneshot z d =
     (case oneshot_output z d of
        Inl e \<Rightarrow> (Inl e, d)
      | Inr out \<Rightarrow>
          (case fs_write d ''artifacts/seal.bin'' (seal_out out) of
             (d', ok) \<Rightarrow> (require ok WriteFailed, d')))"

section \<open>The service\<close>

record wrap_request =
  proof_b64 :: str
  request_id_hex :: str

record wrap_response =
  seal_b64 :: str
  journal_b64 :: str
  response_id_hex :: str

datatype reason = Invalid_base64 | Invalid_image_id image_id_error | Cannot_read_journal | Cannot_wrap wrap_error

datatype http_response = Bad_request reason | Server_error reason | Wrapped wrap_response

definition handle_wrap :: "('i, 'r) risc0 \<Rightarrow> disk \<Rightarrow> wrap_request \<Rightarrow> (unit, http_response) res" where
  "handle_wrap z d req =
     (case b64_decode z (proof_b64 req) of
        None \<Rightarrow> Inr (Bad_request Invalid_base64)
      | Some proof_bytes \<Rightarrow>
     (case parse_image_id (request_id_hex req) of
        Inl (Fault e) \<Rightarrow> Inr (Bad_request (Invalid_image_id e))
      | Inl Panic \<Rightarrow> Inl Panic
      | Inl Undefined \<Rightarrow> Inl Undefined
      | Inr ids \<Rightarrow>
     (case contents d ''artifacts/journal.bin'' of
        None \<Rightarrow> Inr (Server_error Cannot_read_journal)
      | Some journal_bytes \<Rightarrow>
     (case wrap z \<lparr>proof_in = proof_bytes, journal_in = journal_bytes, id_in = ids\<rparr> of
        Inr out \<Rightarrow> Inr (Wrapped \<lparr>seal_b64 = b64_encode z (seal_out out), journal_b64 = b64_encode z (journal_out out),
          response_id_hex = id_hex_out out\<rparr>)
      | Inl (Fault e) \<Rightarrow> Inr (Server_error (Cannot_wrap e))
      | Inl Panic \<Rightarrow> Inl Panic
      | Inl Undefined \<Rightarrow> Inl Undefined))))"

section \<open>Lemmas\<close>

lemma wrap_Inr_iff:
  "wrap z inp = Inr out \<longleftrightarrow> (\<exists>inner groth16.
     inner_from_slice z (proof_in inp) = Some inner \<and>
     receipt_verify z (receipt_new z inner (journal_in inp)) (id_in inp) \<and>
     compress_groth16 z (receipt_new z inner (journal_in inp)) = Some groth16 \<and>
     receipt_verify z groth16 (id_in inp) \<and> groth16_seal z groth16 = Some (seal_out out) \<and>
     journal_out out = journal_in inp \<and> id_hex_out out = image_id_to_hex (id_in inp))"
  by (cases out) (auto simp: wrap_def bind_res_Inr_iff Let_def)

lemma wrap_faults: "wrap z inp = Inl e \<Longrightarrow> \<exists>x. e = Fault x"
  by (auto simp: wrap_def bind_res_Inl_iff Let_def)

lemma handle_wrap_Wrapped_iff:
  "handle_wrap z d req = Inr (Wrapped r) \<longleftrightarrow> (\<exists>proof_bytes ids journal_bytes out.
     b64_decode z (proof_b64 req) = Some proof_bytes \<and> parse_image_id (request_id_hex req) = Inr ids \<and>
     contents d ''artifacts/journal.bin'' = Some journal_bytes \<and>
     wrap z \<lparr>proof_in = proof_bytes, journal_in = journal_bytes, id_in = ids\<rparr> = Inr out \<and>
     r = \<lparr>seal_b64 = b64_encode z (seal_out out), journal_b64 = b64_encode z (journal_out out),
       response_id_hex = id_hex_out out\<rparr>)"
  by (auto simp: handle_wrap_def split: option.splits sum.splits stop.splits)

lemma oneshot_output_Inr_iff:
  "oneshot_output z d = Inr out \<longleftrightarrow> (\<exists>proof_bytes journal_bytes hex ids.
     contents d ''artifacts/proof.bin'' = Some proof_bytes \<and> contents d ''artifacts/journal.bin'' = Some journal_bytes \<and>
     read_to_string d ''artifacts/image_id.txt'' = Some hex \<and> parse_image_id hex = Inr ids \<and>
     wrap z \<lparr>proof_in = proof_bytes, journal_in = journal_bytes, id_in = ids\<rparr> = Inr out)"
  by (auto simp: oneshot_output_def bind_res_Inr_iff)

lemma parsed_id_length: "parse_image_id s = Inr ids \<Longrightarrow> length ids = 8"
  unfolding parse_image_id_iff by (auto dest: list_all2_lengthD)

section \<open>A concrete library and disk\<close>

definition demo_risc0 :: "(u8 list, u8 list \<times> u8 list) risc0" where
  "demo_risc0 = \<lparr>inner_from_slice = (\<lambda>bs. if bs = [] then None else Some bs), receipt_new = Pair,
     receipt_verify = (\<lambda>r ids. snd r \<noteq> [] \<and> ids = replicate 8 7), compress_groth16 = Some,
     groth16_seal = (\<lambda>r. Some (snd r @ fst r)), b64_decode = (\<lambda>s. Some (map of_nat s)), b64_encode = map unat\<rparr>"

definition demo_id_text :: str where
  "demo_id_text = image_id_to_hex (replicate 8 7)"

definition demo_disk :: disk where
  "demo_disk = \<lparr>contents = [''artifacts/proof.bin'' \<mapsto> [1, 2], ''artifacts/journal.bin'' \<mapsto> [3],
     ''artifacts/image_id.txt'' \<mapsto> utf8_encode demo_id_text], fault = None\<rparr>"

definition demo_request :: wrap_request where
  "demo_request = \<lparr>proof_b64 = [1, 2], request_id_hex = demo_id_text\<rparr>"

lemma image_id_chars: "list_all is_char (image_id_to_hex ids)"
proof -
  have "is_char (hex_char d)" if "d < 16" for d using that by (simp add: is_char_def hex_char_def)
  then have "list_all is_char (format_08x w)" for w
    using format_08x_text(5) [of w] by (auto simp: list_all_iff)
  then show ?thesis by (induction ids) (simp_all add: image_id_to_hex_def)
qed

lemma demo_id: "parse_image_id demo_id_text = Inr (replicate 8 7)"
  using print_then_parse [of "replicate 8 7" "[]" "[]"] by (simp add: demo_id_text_def)

lemma demo_disk_id: "read_to_string demo_disk ''artifacts/image_id.txt'' = Some demo_id_text"
  using utf8_roundtrip [OF image_id_chars] by (simp add: read_to_string_def demo_disk_def demo_id_text_def)

lemma demo_wrap:
  "wrap demo_risc0 \<lparr>proof_in = [1, 2], journal_in = [3], id_in = replicate 8 7\<rparr> =
     Inr \<lparr>seal_out = [3, 1, 2], journal_out = [3], id_hex_out = demo_id_text\<rparr>"
  by (simp add: wrap_Inr_iff) (simp add: demo_risc0_def demo_id_text_def)

lemma demo_answer:
  "handle_wrap demo_risc0 demo_disk demo_request =
     Inr (Wrapped \<lparr>seal_b64 = [3, 1, 2], journal_b64 = [3], response_id_hex = demo_id_text\<rparr>)"
  unfolding handle_wrap_Wrapped_iff
  using demo_wrap by (auto simp: demo_id demo_request_def) (simp add: demo_risc0_def demo_disk_def)

lemma demo_oneshot:
  "oneshot_output demo_risc0 demo_disk = Inr \<lparr>seal_out = [3, 1, 2], journal_out = [3], id_hex_out = demo_id_text\<rparr>"
  unfolding oneshot_output_Inr_iff using demo_wrap
  by (auto simp: demo_disk_id demo_id) (simp add: demo_disk_def)

section \<open>Properties\<close>

text \<open>
  When the service answers with a seal, the receipt built from the proof of the request
  and the journal on the host's disk was verified for the requested image id, so was its
  Groth16 form the seal comes from, and the image id of the answer, in text, is read back as
  the requested one by the prover and, in bytes, by the client.
\<close>

theorem service_answer_is_verified:
  assumes "handle_wrap z d req = Inr (Wrapped r)"
  shows "\<exists>inner journal_bytes ids groth16 sl.
     b64_decode z (proof_b64 req) \<noteq> None \<and> inner_from_slice z (the (b64_decode z (proof_b64 req))) = Some inner \<and>
     contents d ''artifacts/journal.bin'' = Some journal_bytes \<and>
     parse_image_id (request_id_hex req) = Inr ids \<and>
     receipt_verify z (receipt_new z inner journal_bytes) ids \<and>
     compress_groth16 z (receipt_new z inner journal_bytes) = Some groth16 \<and>
     receipt_verify z groth16 ids \<and> groth16_seal z groth16 = Some sl \<and>
     seal_b64 r = b64_encode z sl \<and> journal_b64 r = b64_encode z journal_bytes \<and>
     parse_image_id (response_id_hex r) = Inr ids \<and>
     client_image_id (response_id_hex r) = (Inr (concat (map (to_le 4) ids)) :: ('e, _) res)"
proof -
  obtain proof_bytes ids journal_bytes out where
    h: "b64_decode z (proof_b64 req) = Some proof_bytes" "parse_image_id (request_id_hex req) = Inr ids"
      "contents d ''artifacts/journal.bin'' = Some journal_bytes"
      "wrap z \<lparr>proof_in = proof_bytes, journal_in = journal_bytes, id_in = ids\<rparr> = Inr out"
      "r = \<lparr>seal_b64 = b64_encode z (seal_out out), journal_b64 = b64_encode z (journal_out out),
         response_id_hex = id_hex_out out\<rparr>"
    using assms unfolding handle_wrap_Wrapped_iff by blast
  have ids: "parse_image_id (image_id_to_hex ids) = Inr ids"
    using print_then_parse [of ids "[]" "[]"] parsed_id_length [OF h(2)] by simp
  then have "client_image_id (image_id_to_hex ids) = (Inr (concat (map (to_le 4) ids)) :: ('e, _) res)"
    by (rule client_reads_accepted)
  with ids h(1-3,5) h(4) show ?thesis unfolding wrap_Inr_iff by auto
qed

theorem service_answer_is_verified_witness:
  "\<exists>ids. receipt_verify demo_risc0 ([1, 2], [3]) ids \<and> parse_image_id demo_id_text = Inr ids"
  using service_answer_is_verified [OF demo_answer, where 'e = unit]
  by (auto simp: demo_risc0_def demo_disk_def demo_request_def)

lemma parse_words_defined: "parse_words hex i n \<noteq> Inl Undefined"
proof (induction n arbitrary: i)
  case (Suc n)
  have "map_error f (from_hex c) \<noteq> Inl Undefined" for f and c :: str
    using from_hex_faults [of c] by (auto simp: map_error_def split: sum.splits stop.splits)
  then show ?case using Suc.IH by (auto simp: bind_res_Inl_iff dest: str_slice_Inl)
qed simp

lemma parse_image_id_defined: "parse_image_id s \<noteq> Inl Undefined"
  by (auto simp: parse_image_id_def Let_def bind_res_Inl_iff parse_words_defined)

text \<open>
  The status of the service's answer: 400 exactly when the proof is not base64 or the id
  text is refused, 500 exactly when both are accepted and the journal is missing or the
  receipt cannot be wrapped; the handler panics exactly when the parser of the id does.
\<close>

theorem service_status:
  "((\<exists>x. handle_wrap z d req = Inr (Bad_request x)) \<longleftrightarrow>
      b64_decode z (proof_b64 req) = None \<or> (\<exists>e. parse_image_id (request_id_hex req) = Inl (Fault e))) \<and>
   ((\<exists>x. handle_wrap z d req = Inr (Server_error x)) \<longleftrightarrow>
      (\<exists>p ids. b64_decode z (proof_b64 req) = Some p \<and> parse_image_id (request_id_hex req) = Inr ids \<and>
        (case contents d ''artifacts/journal.bin'' of None \<Rightarrow> True | Some j \<Rightarrow>
           \<exists>e. wrap z \<lparr>proof_in = p, journal_in = j, id_in = ids\<rparr> = Inl (Fault e)))) \<and>
   ((\<exists>e. handle_wrap z d req = Inl e) \<longleftrightarrow>
      b64_decode z (proof_b64 req) \<noteq> None \<and> parse_image_id (request_id_hex req) = Inl Panic)"
proof (cases "b64_decode z (proof_b64 req)")
  case None
  then show ?thesis by (simp add: handle_wrap_def)
next
  case (Some p)
  note p = this
  show ?thesis
  proof (cases "parse_image_id (request_id_hex req)")
    case (Inl e)
    then show ?thesis
      using p parse_image_id_defined [of "request_id_hex req"] by (cases e) (simp_all add: handle_wrap_def)
  next
    case (Inr ids)
    show ?thesis
    proof (cases "contents d ''artifacts/journal.bin''")
      case None
      then show ?thesis using p Inr by (simp add: handle_wrap_def)
    next
      case (Some j)
      show ?thesis
        using p Inr Some wrap_faults [of z "\<lparr>proof_in = p, journal_in = j, id_in = ids\<rparr>"]
        by (cases "wrap z \<lparr>proof_in = p, journal_in = j, id_in = ids\<rparr>") (auto simp: handle_wrap_def)
    qed
  qed
qed

text \<open>
  The one-shot mode and the service agree: on the same proof, journal and id text the
  one wraps exactly when the other does, and the file the one writes holds the seal the
  other answers with.
\<close>

theorem oneshot_and_service_agree:
  assumes "contents d ''artifacts/proof.bin'' = b64_decode z (proof_b64 req)"
    and "read_to_string d ''artifacts/image_id.txt'' = Some (request_id_hex req)" "fault d = None"
  shows "(fst (run_oneshot z d) = Inr () \<longleftrightarrow> (\<exists>r. handle_wrap z d req = Inr (Wrapped r))) \<and>
     (\<forall>r. handle_wrap z d req = Inr (Wrapped r) \<longrightarrow>
        (\<exists>sl. contents (snd (run_oneshot z d)) ''artifacts/seal.bin'' = Some sl \<and> seal_b64 r = b64_encode z sl))"
proof -
  have agree: "handle_wrap z d req = Inr (Wrapped r) \<longleftrightarrow> (\<exists>out. oneshot_output z d = Inr out \<and>
      r = \<lparr>seal_b64 = b64_encode z (seal_out out), journal_b64 = b64_encode z (journal_out out),
        response_id_hex = id_hex_out out\<rparr>)" for r
    unfolding handle_wrap_Wrapped_iff oneshot_output_Inr_iff using assms(1,2) by auto
  show ?thesis
    unfolding agree using assms(3)
    by (cases "oneshot_output z d") (auto simp: run_oneshot_def fs_write_def)
qed

theorem oneshot_and_service_agree_witness:
  "fst (run_oneshot demo_risc0 demo_disk) = Inr () \<and>
   contents (snd (run_oneshot demo_risc0 demo_disk)) ''artifacts/seal.bin'' = Some [3, 1, 2]"
proof -
  have "contents demo_disk ''artifacts/proof.bin'' = b64_decode demo_risc0 (proof_b64 demo_request)"
    by (simp add: demo_disk_def demo_risc0_def demo_request_def)
  moreover have "read_to_string demo_disk ''artifacts/image_id.txt'' = Some (request_id_hex demo_request)"
    by (simp add: demo_disk_id demo_request_def)
  moreover have "fault demo_disk = None" by (simp add: demo_disk_def)
  ultimately have "fst (run_oneshot demo_risc0 demo_disk) = Inr ()"
    using oneshot_and_service_agree [of demo_disk demo_risc0 demo_request] demo_answer by blast
  then show ?thesis
    by (simp add: run_oneshot_def demo_oneshot) (simp add: fs_write_def demo_disk_def)
qed

text \<open>
  The one-shot mode writes no file but the seal, and that only after both receipts were
  verified for the id in the id file: it leaves the disk alone on every error but a failed
  write.
\<close>

theorem oneshot_writes_verified_seal:
  assumes "run_oneshot z d = (r, d')"
  shows "(\<forall>path. path \<noteq> ''artifacts/seal.bin'' \<longrightarrow> contents d' path = contents d path) \<and>
     (r \<noteq> Inr () \<longrightarrow> d' = d \<or> r = Inl (Fault WriteFailed)) \<and>
     (d' \<noteq> d \<or> r = Inr () \<longrightarrow> (\<exists>hex ids receipt groth16.
        read_to_string d ''artifacts/image_id.txt'' = Some hex \<and> parse_image_id hex = Inr ids \<and>
        receipt_verify z receipt ids \<and> compress_groth16 z receipt = Some groth16 \<and>
        receipt_verify z groth16 ids \<and>
        (r = Inr () \<longrightarrow> contents d' ''artifacts/seal.bin'' = groth16_seal z groth16)))"
proof (cases "oneshot_output z d")
  case (Inl e)
  then show ?thesis using assms by (auto simp: run_oneshot_def)
next
  case (Inr out)
  then have d': "contents d' path = contents d path" if "path \<noteq> ''artifacts/seal.bin''" for path
    using assms that by (auto simp: run_oneshot_def fs_write_def split: option.splits)
  moreover have "r = Inr () \<and> contents d' ''artifacts/seal.bin'' = Some (seal_out out) \<or> r = Inl (Fault WriteFailed)"
    using assms Inr by (auto simp: run_oneshot_def fs_write_def split: option.splits)
  moreover obtain hex ids receipt groth16 where
    "read_to_string d ''artifacts/image_id.txt'' = Some hex" "parse_image_id hex = Inr ids"
    "receipt_verify z receipt ids" "compress_groth16 z receipt = Some groth16"
    "receipt_verify z groth16 ids" "groth16_seal z groth16 = Some (seal_out out)"
    using Inr unfolding oneshot_output_Inr_iff wrap_Inr_iff by auto
  ultimately show ?thesis by auto
qed

theorem oneshot_writes_verified_seal_witness:
  "contents (snd (run_oneshot demo_risc0 demo_disk)) ''artifacts/proof.bin'' = Some [1, 2]"
proof -
  have "contents (snd (run_oneshot demo_risc0 demo_disk)) ''artifacts/proof.bin'' = contents demo_disk ''artifacts/proof.bin''"
    using oneshot_writes_verified_seal [OF prod.collapse [symmetric], of demo_risc0 demo_disk] by simp
  then show ?thesis by (simp add: demo_disk_def)
qed

end
