(* ===== verification/Secret_Check.thy ===== *)
theory Secret_Check
  imports Wrap_Service Journal_Decode Rust_Format "HOL-Library.Sublist"
begin

text \<open>
  The example program that prints the captured journal and looks for the secret balance in it
  (\<open>predicate-engine/integration_tests/examples/decode.rs\<close>), and what its search can see: the
  journal spends a word on each byte, so a secret that is published as bytes stays unseen.
\<close>

section \<open>decode.rs\<close>

text \<open>\<open>bytes.windows(k)\<close>\<close>

definition windows :: "nat \<Rightarrow> 'a list \<Rightarrow> 'a list list" where
  "windows k xs = map (\<lambda>i. take k (drop i xs)) [0..<length xs + 1 - k]"

definition needle :: "u8 list" where "needle = to_le 16 (5000 :: u128)"

definition leaked :: "u8 list \<Rightarrow> bool" where
  "leaked bs = list_ex (\<lambda>w. w = needle) (windows (length needle) bs)"

text \<open>
  What the program shows of the decoded output, whose type is the privacy library's: the
  lengths of its five vectors and its pretty-printed \<open>Debug\<close>.
\<close>

record 'out output_view =
  public_pre_states_len :: "'out \<Rightarrow> nat"
  public_post_states_len :: "'out \<Rightarrow> nat"
  ciphertexts_len :: "'out \<Rightarrow> nat"
  new_commitments_len :: "'out \<Rightarrow> nat"
  new_nullifiers_len :: "'out \<Rightarrow> nat"
  full_dump :: "'out \<Rightarrow> str"

definition entries_line :: "string \<Rightarrow> nat \<Rightarrow> str" where
  "entries_line label n = chars label @ show_nat n @ chars '' entries''"

definition output_report :: "'out output_view \<Rightarrow> 'out \<Rightarrow> str list" where
  "output_report v out =
     [newline # chars ''=== PrivacyPreservingCircuitOutput ==='',
      entries_line ''public_pre_states:  '' (public_pre_states_len v out),
      entries_line ''public_post_states: '' (public_post_states_len v out),
      entries_line ''ciphertexts:        '' (ciphertexts_len v out),
      entries_line ''new_commitments:    '' (new_commitments_len v out),
      entries_line ''new_nullifiers:     '' (new_nullifiers_len v out),
      newline # chars ''full dump:'' @ [newline] @ full_dump v out]"

definition secret_line :: "bool \<Rightarrow> str" where
  "secret_line b = newline # chars ''secret-absence check: 5000 '' @
     chars (if b then ''PRESENT (LEAK!)'' else ''absent (good)'') @ chars '' in journal bytes''"

text \<open>
  \<open>bytemuck::cast_slice\<close> panics when the length is not a multiple of four; the decoder of
  the zkVM library is a parameter.
\<close>

definition decode_main ::
  "(u32 list \<Rightarrow> 'out option) \<Rightarrow> 'out output_view \<Rightarrow> disk \<Rightarrow> ('e, unit) res printed"
where
  "decode_main from_slice v d =
     then_print (unwrap (contents d ''artifacts/journal.bin'')) (\<lambda>bs.
     print [chars ''journal.bin: '' @ show_nat (length bs) @ chars '' bytes'']
     (then_print (if length bs mod 4 = 0 then Inr (words_of bs) else Inl Panic) (\<lambda>words.
      print [chars ''as u32 words: '' @ show_nat (length words)]
      (then_print (unwrap (from_slice words)) (\<lambda>out.
         (output_report v out @ [secret_line (leaked bs)], Inr ()))))))"

section \<open>What the search sees\<close>

lemma needle_bytes: "needle = [0x88, 0x13] @ replicate 14 0"
  by (simp add: needle_def to_le_numeral replicate_numeral)

lemma windows_sublist:
  assumes "ys \<noteq> []"
  shows "ys \<in> set (windows (length ys) xs) \<longleftrightarrow> sublist ys xs"
proof
  assume "ys \<in> set (windows (length ys) xs)"
  then obtain i where "ys = take (length ys) (drop i xs)" by (auto simp: windows_def)
  then show "sublist ys xs"
    by (metis sublist_drop sublist_order.order_trans sublist_take)
next
  assume "sublist ys xs"
  then obtain ps ss where xs: "xs = ps @ ys @ ss" by (auto simp: sublist_def)
  then have "ys = take (length ys) (drop (length ps) xs)" by simp
  moreover have "length ps < length xs + 1 - length ys" using xs by simp
  ultimately show "ys \<in> set (windows (length ys) xs)"
    by (auto simp: windows_def intro!: image_eqI [of _ _ "length ps"])
qed

text \<open>The search itself is right: it finds exactly the occurrences of the sixteen bytes.\<close>

lemma leaked_iff: "leaked bs \<longleftrightarrow> sublist needle bs"
  using windows_sublist [of needle bs] by (auto simp: leaked_def list_ex_iff needle_bytes)

text \<open>In a sequence of words below 256, every byte that is not zero is alone in its word.\<close>

lemma nth_serialise:
  assumes "k < 4 * length ws"
  shows "serialise ws ! k = to_le 4 (ws ! (k div 4)) ! (k mod 4)"
  using assms
proof (induction ws arbitrary: k)
  case (Cons w ws)
  show ?case
  proof (cases "k < 4")
    case True
    then show ?thesis by (simp add: serialise_def nth_append)
  next
    case False
    then have "serialise (w # ws) ! k = serialise ws ! (k - 4)" by (simp add: serialise_def nth_append)
    also have "\<dots> = to_le 4 (ws ! ((k - 4) div 4)) ! ((k - 4) mod 4)"
      using Cons.prems False by (intro Cons.IH) simp
    finally show ?thesis using False by (simp add: le_div_geq le_mod_geq)
  qed
qed simp

lemma small_word_bytes:
  assumes "w < (256 :: u32)" "0 < k" "k < 4"
  shows "to_le 4 w ! k = 0"
proof -
  have "(2 :: nat) ^ 8 \<le> 2 ^ (8 * k)" using assms(2) by (intro power_increasing) simp_all
  moreover have "unat w < 256" using assms(1) by (simp add: word_less_nat_alt)
  ultimately have "unat w div 2 ^ (8 * k) = 0" by simp
  then have "unat (drop_bit (8 * k) w) = 0" by (simp only: unat_drop_bit_eq) (simp only: drop_bit_eq_div)
  then have "drop_bit (8 * k) w = 0" by (simp add: unat_eq_0)
  then show ?thesis using assms(3) by (simp add: nth_to_le)
qed

lemma small_words_unseen:
  assumes "\<forall>w \<in> set ws. w < 256"
  shows "\<not> leaked (serialise ws)"
proof
  assume "leaked (serialise ws)"
  then obtain ps ss where s: "serialise ws = ps @ [0x88, 0x13] @ replicate 14 0 @ ss"
    by (auto simp: leaked_iff sublist_def needle_bytes)
  let ?k = "length ps"
  have l: "Suc ?k < 4 * length ws"
    using arg_cong [OF s, of length] by simp
  have z: "k mod 4 = 0" if "k < 4 * length ws" "serialise ws ! k \<noteq> 0" for k
  proof (rule ccontr)
    assume "k mod 4 \<noteq> 0"
    moreover have "ws ! (k div 4) < 256" using assms that(1) by (simp add: less_mult_imp_div_less mult.commute)
    ultimately show False using that small_word_bytes [of "ws ! (k div 4)" "k mod 4"] by (simp add: nth_serialise)
  qed
  have "?k mod 4 = 0" "Suc ?k mod 4 = 0"
    using l by (auto intro!: z simp: s nth_append)
  then show False by presburger
qed

text \<open>A circuit output whose counts and sizes are below 256 is a sequence of such words.\<close>

definition small_output :: "circuit_output \<Rightarrow> bool" where
  "small_output out \<longleftrightarrow> length (ciphertexts out) < 256 \<and> (\<forall>c \<in> set (ciphertexts out). length c < 256) \<and>
     length (new_commitments out) < 256 \<and> length (new_nullifiers out) < 256"

lemma small_words:
  "n < 256 \<Longrightarrow> (of_nat n :: u32) < 256"
  "w \<in> set (byte_words bs) \<Longrightarrow> w < 256"
proof -
  show "n < 256 \<Longrightarrow> (of_nat n :: u32) < 256"
    by (simp add: word_less_nat_alt unat_of_nat)
  assume "w \<in> set (byte_words bs)"
  then obtain b :: u8 where "w = ucast b" by (auto simp: byte_words_def)
  then show "w < 256" using unsigned_less [of b, where 'a = nat]
    by (simp add: word_less_nat_alt unsigned_ucast_eq take_bit_nat_eq_self)
qed

lemma small_output_words:
  assumes "small_output out"
  shows "\<forall>w \<in> set (output_words out). w < 256"
  using assms
  by (auto simp: output_words_def small_output_def counted_def nullifier_entry_def intro: small_words)

lemma secret_lines_differ [simp]: "secret_line b = secret_line b' \<longleftrightarrow> b = b'"
  by (cases b; cases b') (simp_all add: secret_line_def)

text \<open>
  C33: the search for the secret balance is exact on bytes: the last line reports a leak
  exactly when the sixteen bytes of the balance stand next to each other in the journal. But
  the journal spends a word on each byte, so the line says that the secret is absent for
  every circuit output of usual size, whatever bytes the ciphertexts, commitments and
  nullifiers hold, the balance in the clear included.
\<close>

theorem secret_check_misses_published_bytes:
  assumes "contents d ''artifacts/journal.bin'' = Some bs" "length bs mod 4 = 0" "from_slice (words_of bs) = Some out'"
  shows "\<exists>ls. decode_main from_slice v d =
       (ls @ [secret_line (sublist (to_le 16 (5000 :: u128)) bs)], Inr () :: ('e, _) res) \<and>
     (\<forall>out trailing. small_output out \<and> (\<forall>w \<in> set trailing. w < 256) \<and> bs = serialise (output_words out @ trailing) \<longrightarrow>
        decode_main from_slice v d = (ls @ [secret_line False], Inr () :: ('e, _) res))"
proof -
  obtain ls where d: "decode_main from_slice v d = (ls @ [secret_line (leaked bs)], Inr () :: ('e, _) res)"
    using assms by (simp add: decode_main_def unwrap_def)
  have "\<not> leaked (serialise (output_words out @ trailing))"
    if "small_output out" "\<forall>w \<in> set trailing. w < 256" for out trailing
    using small_output_words [OF that(1)] that(2) by (intro small_words_unseen) auto
  then show ?thesis unfolding d by (intro exI [of _ ls]) (auto simp: leaked_iff needle_def)
qed

text \<open>An output with the balance in the clear, and a view of it.\<close>

definition leaking_output :: circuit_output where
  "leaking_output = demo_output\<lparr>ciphertexts := [to_le 16 (5000 :: u128)]\<rparr>"

definition demo_view :: "u32 list output_view" where
  "demo_view = \<lparr>public_pre_states_len = (\<lambda>_. 0), public_post_states_len = (\<lambda>_. 0), ciphertexts_len = (\<lambda>_. 1),
     new_commitments_len = (\<lambda>_. 0), new_nullifiers_len = (\<lambda>_. 1), full_dump = (\<lambda>ws. debug_list (map unat ws))\<rparr>"

theorem secret_check_misses_published_bytes_witness:
  "needle \<in> set (ciphertexts leaking_output) \<and>
   (\<exists>ls. decode_main Some demo_view
       (demo_disk\<lparr>contents := [''artifacts/journal.bin'' \<mapsto> serialise (output_words leaking_output @ [0, 0, 0, 0])]\<rparr>) =
     (ls @ [secret_line False], Inr () :: (unit, _) res))"
proof -
  let ?bs = "serialise (output_words leaking_output @ [0, 0, 0, 0])"
  let ?d = "demo_disk\<lparr>contents := [''artifacts/journal.bin'' \<mapsto> ?bs]\<rparr>"
  have "small_output leaking_output" by (simp add: small_output_def leaking_output_def demo_output_def)
  then have "\<exists>ls. decode_main Some demo_view ?d = (ls @ [secret_line False], Inr () :: (unit, _) res)"
    using secret_check_misses_published_bytes [where 'e = unit and from_slice = Some and bs = ?bs and d = ?d and v = demo_view]
    by force
  then show ?thesis by (simp add: leaking_output_def needle_def)
qed

end
