(* ===== verification/Prover_Main.thy ===== *)
theory Prover_Main
  imports Wrap_Service
begin

text \<open>
  The process of \<open>prover/src/main.rs\<close>: \<open>main\<close> runs the one-shot mode, or, when it was built
  with the service and its first argument is \<open>serve\<close>, the HTTP service, whose router knows
  one route. The JSON decoder of requests is a parameter. The service answers the requests
  one by one; the host's files may change between them, so each request comes with the disk
  it meets. A panic of the handler drops the connection and the service goes on.
\<close>

record http_request =
  http_method :: string
  http_path :: string
  http_body :: str

datatype reply = Not_found | Method_not_allowed | Rejected | Replied http_response | Dropped

definition answer ::
  "('i, 'r) risc0 \<Rightarrow> (str \<Rightarrow> wrap_request option) \<Rightarrow> disk \<Rightarrow> http_request \<Rightarrow> reply"
where
  "answer z read_json d q =
     (if http_path q \<noteq> ''/wrap'' then Not_found
      else if http_method q \<noteq> ''POST'' then Method_not_allowed
      else case read_json (http_body q) of
        None \<Rightarrow> Rejected
      | Some req \<Rightarrow> (case handle_wrap z d req of Inr resp \<Rightarrow> Replied resp | Inl _ \<Rightarrow> Dropped))"

definition serve ::
  "('i, 'r) risc0 \<Rightarrow> (str \<Rightarrow> wrap_request option) \<Rightarrow> (disk \<times> http_request) list \<Rightarrow> reply list"
where
  "serve z read_json reqs = map (\<lambda>(d, q). answer z read_json d q) reqs"

datatype prover_run = Served "reply list" | Ran_once "(oneshot_error, unit) res" disk

definition prover_main ::
  "bool \<Rightarrow> string list \<Rightarrow> ('i, 'r) risc0 \<Rightarrow> (str \<Rightarrow> wrap_request option) \<Rightarrow> disk \<Rightarrow>
   (disk \<times> http_request) list \<Rightarrow> prover_run"
where
  "prover_main with_service args z read_json d reqs =
     (if with_service \<and> 1 < length args \<and> args ! 1 = ''serve'' then Served (serve z read_json reqs)
      else (case run_oneshot z d of (r, d') \<Rightarrow> Ran_once r d'))"

section \<open>What the prover hands out\<close>

text \<open>
  A seal that comes from these proof and journal bytes by way of a receipt verified for the
  id, before and after the compression.
\<close>

definition verified_seal :: "('i, 'r) risc0 \<Rightarrow> u8 list \<Rightarrow> u8 list \<Rightarrow> u32 list \<Rightarrow> u8 list \<Rightarrow> bool" where
  "verified_seal z p j ids sl \<longleftrightarrow> (\<exists>inner groth16.
     inner_from_slice z p = Some inner \<and> receipt_verify z (receipt_new z inner j) ids \<and>
     compress_groth16 z (receipt_new z inner j) = Some groth16 \<and> receipt_verify z groth16 ids \<and>
     groth16_seal z groth16 = Some sl)"

lemma wrap_verified:
  "wrap z \<lparr>proof_in = p, journal_in = j, id_in = ids\<rparr> = Inr out \<longleftrightarrow>
     verified_seal z p j ids (seal_out out) \<and> journal_out out = j \<and> id_hex_out out = image_id_to_hex ids"
  by (auto simp: wrap_Inr_iff verified_seal_def)

lemma answer_Wrapped:
  assumes "answer z read_json d q = Replied (Wrapped r)"
  obtains req p j ids sl where "http_path q = ''/wrap''" "http_method q = ''POST''" "read_json (http_body q) = Some req"
    "b64_decode z (proof_b64 req) = Some p" "parse_image_id (request_id_hex req) = Inr ids"
    "contents d ''artifacts/journal.bin'' = Some j" "verified_seal z p j ids sl"
    "r = \<lparr>seal_b64 = b64_encode z sl, journal_b64 = b64_encode z j, response_id_hex = image_id_to_hex ids\<rparr>"
proof -
  obtain req where req: "http_path q = ''/wrap''" "http_method q = ''POST''" "read_json (http_body q) = Some req"
      "handle_wrap z d req = Inr (Wrapped r)"
    using assms by (auto simp: answer_def split: if_splits option.splits sum.splits)
  from req(4) obtain p ids j out where h: "b64_decode z (proof_b64 req) = Some p" "parse_image_id (request_id_hex req) = Inr ids"
      "contents d ''artifacts/journal.bin'' = Some j" "wrap z \<lparr>proof_in = p, journal_in = j, id_in = ids\<rparr> = Inr out"
      "r = \<lparr>seal_b64 = b64_encode z (seal_out out), journal_b64 = b64_encode z (journal_out out),
         response_id_hex = id_hex_out out\<rparr>"
    unfolding handle_wrap_Wrapped_iff by blast
  show ?thesis
    by (rule that [OF req(1-3) h(1-3), of "seal_out out"]) (use h(4,5) in \<open>simp_all add: wrap_verified\<close>)
qed

lemma written_ids_are_read:
  assumes "parse_image_id s = Inr ids"
  shows "parse_image_id (image_id_to_hex ids) = Inr ids"
    "client_image_id (image_id_to_hex ids) = (Inr (concat (map (to_le 4) ids)) :: ('e, _) res)"
proof -
  show p: "parse_image_id (image_id_to_hex ids) = Inr ids"
    using print_then_parse [of ids "[]" "[]"] parsed_id_length [OF assms] by simp
  show "client_image_id (image_id_to_hex ids) = (Inr (concat (map (to_le 4) ids)) :: ('e, _) res)"
    by (rule client_reads_accepted [OF p])
qed

text \<open>
  C29: whatever the prover hands out is verified. A seal the service answers with, at any
  place in any sequence of requests, comes from the proof of that request and the journal on
  the host's disk, by a receipt verified for the requested id before and after the
  compression, and the id of the answer is read back as the requested one by the prover and
  the client. The seal the one-shot mode writes comes in the same way from its three files,
  and no other file changes.
\<close>

theorem prover_hands_out_verified_seals:
  "(\<forall>rs i r. prover_main with_service args z read_json d reqs = Served rs \<and> i < length rs \<and> rs ! i = Replied (Wrapped r) \<longrightarrow>
      (\<exists>req p j ids sl. read_json (http_body (snd (reqs ! i))) = Some req \<and> b64_decode z (proof_b64 req) = Some p \<and>
        contents (fst (reqs ! i)) ''artifacts/journal.bin'' = Some j \<and> parse_image_id (request_id_hex req) = Inr ids \<and>
        verified_seal z p j ids sl \<and> seal_b64 r = b64_encode z sl \<and> journal_b64 r = b64_encode z j \<and>
        parse_image_id (response_id_hex r) = Inr ids \<and>
        client_image_id (response_id_hex r) = (Inr (concat (map (to_le 4) ids)) :: ('e, _) res))) \<and>
   (\<forall>d'. prover_main with_service args z read_json d reqs = Ran_once (Inr ()) d' \<longrightarrow>
      (\<exists>p j hex ids sl. contents d ''artifacts/proof.bin'' = Some p \<and> contents d ''artifacts/journal.bin'' = Some j \<and>
        read_to_string d ''artifacts/image_id.txt'' = Some hex \<and> parse_image_id hex = Inr ids \<and>
        verified_seal z p j ids sl \<and> contents d' = (contents d)(''artifacts/seal.bin'' \<mapsto> sl)))"
proof (intro conjI allI impI)
  fix rs i r
  assume a: "prover_main with_service args z read_json d reqs = Served rs \<and> i < length rs \<and> rs ! i = Replied (Wrapped r)"
  then have rs: "rs = serve z read_json reqs" by (auto simp: prover_main_def split: if_splits prod.splits)
  then have "answer z read_json (fst (reqs ! i)) (snd (reqs ! i)) = Replied (Wrapped r)"
    using a by (cases "reqs ! i") (auto simp: serve_def)
  then obtain req p j ids sl where h: "read_json (http_body (snd (reqs ! i))) = Some req"
      "b64_decode z (proof_b64 req) = Some p" "parse_image_id (request_id_hex req) = Inr ids"
      "contents (fst (reqs ! i)) ''artifacts/journal.bin'' = Some j" "verified_seal z p j ids sl"
      "r = \<lparr>seal_b64 = b64_encode z sl, journal_b64 = b64_encode z j, response_id_hex = image_id_to_hex ids\<rparr>"
    by (rule answer_Wrapped)
  then show "\<exists>req p j ids sl. read_json (http_body (snd (reqs ! i))) = Some req \<and> b64_decode z (proof_b64 req) = Some p \<and>
        contents (fst (reqs ! i)) ''artifacts/journal.bin'' = Some j \<and> parse_image_id (request_id_hex req) = Inr ids \<and>
        verified_seal z p j ids sl \<and> seal_b64 r = b64_encode z sl \<and> journal_b64 r = b64_encode z j \<and>
        parse_image_id (response_id_hex r) = Inr ids \<and>
        client_image_id (response_id_hex r) = (Inr (concat (map (to_le 4) ids)) :: ('e, _) res)"
    using written_ids_are_read(1) [OF h(3)] written_ids_are_read(2) [OF h(3), where 'e = 'e] by auto
next
  fix d'
  assume "prover_main with_service args z read_json d reqs = Ran_once (Inr ()) d'"
  then have "run_oneshot z d = (Inr (), d')" by (auto simp: prover_main_def split: if_splits prod.splits)
  then obtain out where "oneshot_output z d = Inr out" "contents d' = (contents d)(''artifacts/seal.bin'' \<mapsto> seal_out out)"
    by (auto simp: run_oneshot_def fs_write_def split: sum.splits option.splits)
  then show "\<exists>p j hex ids sl. contents d ''artifacts/proof.bin'' = Some p \<and> contents d ''artifacts/journal.bin'' = Some j \<and>
        read_to_string d ''artifacts/image_id.txt'' = Some hex \<and> parse_image_id hex = Inr ids \<and>
        verified_seal z p j ids sl \<and> contents d' = (contents d)(''artifacts/seal.bin'' \<mapsto> sl)"
    unfolding oneshot_output_Inr_iff wrap_verified by blast
qed

theorem prover_hands_out_verified_seals_witness:
  "\<exists>r sl. prover_main True [''prover'', ''serve''] demo_risc0 (\<lambda>_. Some demo_request) demo_disk
       [(demo_disk, \<lparr>http_method = ''POST'', http_path = ''/wrap'', http_body = []\<rparr>)] = Served [Replied (Wrapped r)] \<and>
     verified_seal demo_risc0 [1, 2] [3] (replicate 8 7) sl \<and> seal_b64 r = b64_encode demo_risc0 sl"
proof -
  let ?q = "\<lparr>http_method = ''POST'', http_path = ''/wrap'', http_body = []\<rparr>"
  obtain r where run: "prover_main True [''prover'', ''serve''] demo_risc0 (\<lambda>_. Some demo_request) demo_disk
       [(demo_disk, ?q)] = Served [Replied (Wrapped r)]"
    by (simp add: prover_main_def serve_def answer_def demo_answer)
  obtain req p j ids sl where "Some demo_request = Some req" "b64_decode demo_risc0 (proof_b64 req) = Some p"
      "contents demo_disk ''artifacts/journal.bin'' = Some j" "parse_image_id (request_id_hex req) = Inr ids"
      "verified_seal demo_risc0 p j ids sl" "seal_b64 r = b64_encode demo_risc0 sl"
    using prover_hands_out_verified_seals [of True "[''prover'', ''serve'']" demo_risc0 "\<lambda>_. Some demo_request" demo_disk
        "[(demo_disk, ?q)]", where 'e = unit] run by fastforce
  then have "verified_seal demo_risc0 [1, 2] [3] (replicate 8 7) sl" "seal_b64 r = b64_encode demo_risc0 sl"
    by (auto simp: demo_request_def demo_id) (simp add: demo_risc0_def demo_disk_def)
  with run show ?thesis by blast
qed

end
