(* ===== verification/Program_Entry.thy ===== *)
theory Program_Entry
  imports Coordinator_Safety
begin

text \<open>
  The entry points of the two programs, as Anchor generates them from the \<open>#[program]\<close>
  modules and the \<open>#[derive(Accounts)]\<close> structs: an instruction carries a list of accounts
  and data; the first eight bytes of the data select the handler, the rest is decoded by
  Borsh into its arguments (bytes left over are ignored), and the accounts are bound in the
  order of the struct's fields (accounts left over are ignored). An account a struct marks
  \<open>mut\<close> has to be writable. Anchor raises missing accounts and a missing \<open>mut\<close> in the order of
  the accounts, between its other constraints, and has an error for each constraint; the
  model raises these two first and has one error for the other constraints. Which instructions
  succeed is the same, and no property distinguishes the errors.
\<close>

section \<open>Instructions\<close>

record account_meta =
  meta_key :: pubkey
  meta_signer :: bool
  meta_writable :: bool

record instruction =
  target_program :: pubkey
  metas :: "account_meta list"
  payload :: "u8 list"

datatype entry_error =
    InstructionMissing
  | InstructionFallbackNotFound
  | InstructionDidNotDeserialize
  | AccountNotEnoughKeys
  | AccountNotMutable
  | Handler chain_error

definition discriminator :: "'f platform \<Rightarrow> string \<Rightarrow> u8 list" where
  "discriminator pl name = take 8 (sha256 pl (bytes (''global:'' @ name)))"

section \<open>Arguments\<close>

text \<open>Borsh: a fixed-size array, a byte, a vector of bytes with its length.\<close>

definition borsh_array :: "nat \<Rightarrow> u8 list \<Rightarrow> (entry_error, u8 list \<times> u8 list) res" where
  "borsh_array n bs =
     bind_res (require (n \<le> length bs) InstructionDidNotDeserialize) (\<lambda>_. Inr (take n bs, drop n bs))"

definition borsh_u8 :: "u8 list \<Rightarrow> (entry_error, u8 \<times> u8 list) res" where
  "borsh_u8 bs = (case bs of [] \<Rightarrow> Inl (Fault InstructionDidNotDeserialize) | b # bs' \<Rightarrow> Inr (b, bs'))"

definition borsh_bytes :: "u8 list \<Rightarrow> (entry_error, u8 list \<times> u8 list) res" where
  "borsh_bytes bs =
     bind_res (borsh_array 4 bs) (\<lambda>(len, bs).
       borsh_array (unat (from_le len :: u32)) bs)"

text \<open>
  The encoders: the array and the byte are their own encoding; a vector of at most
  \<open>u32::MAX\<close> bytes has its length in front.
\<close>

definition borsh_encode_bytes :: "u8 list \<Rightarrow> u8 list" where
  "borsh_encode_bytes d = to_le 4 (of_nat (length d) :: u32) @ d"

lemma borsh_array_append [simp]: "length a = n \<Longrightarrow> borsh_array n (a @ bs) = Inr (a, bs)"
  by (simp add: borsh_array_def)

lemma borsh_bytes_encode: "length d < 2 ^ 32 \<Longrightarrow> borsh_bytes (borsh_encode_bytes d @ bs) = Inr (d, bs)"
  by (simp add: borsh_bytes_def borsh_encode_bytes_def from_le_to_le_full unat_of_nat)

section \<open>Accounts\<close>

definition writable :: "account_meta \<Rightarrow> (entry_error, unit) res" where
  "writable m = require (meta_writable m) AccountNotMutable"

definition bind_init_accounts :: "account_meta list \<Rightarrow> (entry_error, init_accounts) res" where
  "bind_init_accounts ms = (case ms of
     c # a # s # _ \<Rightarrow>
       bind_res (writable c) (\<lambda>_. bind_res (writable a) (\<lambda>_.
         Inr \<lparr>ia_config = meta_key c, ia_authority = meta_key a, ia_signed = meta_signer a, ia_system = meta_key s\<rparr>))
   | _ \<Rightarrow> Inl (Fault AccountNotEnoughKeys))"

definition bind_store_accounts :: "account_meta list \<Rightarrow> (entry_error, store_accounts) res" where
  "bind_store_accounts ms = (case ms of
     j # p # s # _ \<Rightarrow>
       bind_res (writable j) (\<lambda>_. bind_res (writable p) (\<lambda>_.
         Inr \<lparr>sa_journal = meta_key j, sa_payer = meta_key p, sa_signed = meta_signer p, sa_system = meta_key s\<rparr>))
   | _ \<Rightarrow> Inl (Fault AccountNotEnoughKeys))"

definition bind_verify_accounts :: "account_meta list \<Rightarrow> (entry_error, verify_accounts) res" where
  "bind_verify_accounts ms = (case ms of
     c # j # n # r # ra # ve # vp # cp # cr # p # s # _ \<Rightarrow>
       bind_res (writable c) (\<lambda>_. bind_res (writable n) (\<lambda>_.
       bind_res (writable cr) (\<lambda>_. bind_res (writable p) (\<lambda>_.
         Inr \<lparr>va_config = meta_key c, va_journal = meta_key j, va_spent = meta_key n, va_router = meta_key r,
           va_router_account = meta_key ra, va_verifier_entry = meta_key ve, va_verifier_program = meta_key vp,
           va_consumer_program = meta_key cp, va_consumer_registry = meta_key cr, va_caller = meta_key p,
           va_signed = meta_signer p, va_system = meta_key s\<rparr>))))
   | _ \<Rightarrow> Inl (Fault AccountNotEnoughKeys))"

definition bind_registry_accounts :: "account_meta list \<Rightarrow> (entry_error, init_registry_accounts) res" where
  "bind_registry_accounts ms = (case ms of
     r # a # s # _ \<Rightarrow>
       bind_res (writable r) (\<lambda>_. bind_res (writable a) (\<lambda>_.
         Inr \<lparr>ir_registry = meta_key r, ir_authority = meta_key a, ir_signed = meta_signer a, ir_system = meta_key s\<rparr>))
   | _ \<Rightarrow> Inl (Fault AccountNotEnoughKeys))"

definition bind_record_accounts :: "account_meta list \<Rightarrow> (entry_error, pubkey \<times> pubkey \<times> bool) res" where
  "bind_record_accounts ms = (case ms of
     r # c # _ \<Rightarrow> bind_res (writable r) (\<lambda>_. Inr (meta_key r, meta_key c, meta_signer c))
   | _ \<Rightarrow> Inl (Fault AccountNotEnoughKeys))"

section \<open>The entry points\<close>

text \<open>
  The decoder of a seal is the verifier router's, a parameter. The arguments are decoded
  before the accounts are bound.
\<close>

definition coordinator_entry ::
  "'f platform \<Rightarrow> (u8 list \<Rightarrow> (seal \<times> u8 list) option) \<Rightarrow> account_meta list \<Rightarrow> u8 list \<Rightarrow> 'f ledger \<Rightarrow>
   (entry_error, 'f ledger) res"
where
  "coordinator_entry pl decode_seal ms d w =
     bind_res (require (8 \<le> length d) InstructionMissing) (\<lambda>_.
     let disc = take 8 d; args = drop 8 d in
     if disc = discriminator pl ''initialize'' then
       bind_res (borsh_array 32 args) (\<lambda>(img, _).
       bind_res (bind_init_accounts ms) (\<lambda>a.
         map_error Handler (initialize pl a img w)))
     else if disc = discriminator pl ''store_journal'' then
       bind_res (borsh_bytes args) (\<lambda>(journal, _).
       bind_res (bind_store_accounts ms) (\<lambda>a.
         map_error Handler (store_journal pl a journal w)))
     else if disc = discriminator pl ''verify_predicate'' then
       bind_res (ok_or InstructionDidNotDeserialize (decode_seal args)) (\<lambda>(sl, args).
       bind_res (borsh_array 32 args) (\<lambda>(dg, args).
       bind_res (borsh_u8 args) (\<lambda>(idx, args).
       bind_res (borsh_array 32 args) (\<lambda>(claimed, _).
       bind_res (bind_verify_accounts ms) (\<lambda>a.
         map_error Handler (verify_predicate pl a sl dg idx claimed w))))))
     else Inl (Fault InstructionFallbackNotFound))"

definition consumer_entry ::
  "'f platform \<Rightarrow> account_meta list \<Rightarrow> u8 list \<Rightarrow> 'f ledger \<Rightarrow> (entry_error, 'f ledger) res"
where
  "consumer_entry pl ms d w =
     bind_res (require (8 \<le> length d) InstructionMissing) (\<lambda>_.
     let disc = take 8 d; args = drop 8 d in
     if disc = discriminator pl ''initialize'' then
       bind_res (bind_registry_accounts ms) (\<lambda>a. map_error Handler (consumer_initialize pl a w))
     else if disc = discriminator pl ''record_verification'' then
       bind_res (borsh_array 32 args) (\<lambda>(n, _).
       bind_res (bind_record_accounts ms) (\<lambda>(rk, caller, is_signer).
         map_error Handler (record_verification pl rk caller is_signer n w)))
     else Inl (Fault InstructionFallbackNotFound))"

text \<open>
  A transaction of one instruction: the two programs, and any other one, whose effect on the
  rest of the ledger is a parameter.
\<close>

definition execute ::
  "'f platform \<Rightarrow> (u8 list \<Rightarrow> (seal \<times> u8 list) option) \<Rightarrow> ('f \<Rightarrow> instruction \<Rightarrow> 'f option) \<Rightarrow> instruction \<Rightarrow>
   'f ledger \<Rightarrow> (entry_error, 'f ledger) res"
where
  "execute pl decode_seal other ix w =
     (if target_program ix = coordinator_id pl then coordinator_entry pl decode_seal (metas ix) (payload ix) w
      else if target_program ix = consumer_id pl then consumer_entry pl (metas ix) (payload ix) w
      else bind_res (ok_or InstructionFallbackNotFound (other (foreign w) ix)) (\<lambda>f. Inr (w\<lparr>foreign := f\<rparr>)))"

section \<open>Every transaction is a transition\<close>

lemma coordinator_entry_step:
  assumes "coordinator_entry pl ds ms d w = Inr w'"
  shows "chain_step pl w w'"
  using assms
  by (auto simp: coordinator_entry_def bind_res_Inr_iff Let_def
      intro: step_init step_journal step_verify split: if_splits)

lemma consumer_entry_step:
  assumes "consumer_entry pl ms d w = Inr w'"
  shows "chain_step pl w w'"
  using assms
  by (auto simp: consumer_entry_def bind_res_Inr_iff Let_def
      intro: step_consumer_init step_record split: if_splits)

lemma execute_is_step:
  assumes "execute pl ds other ix w = Inr w'"
  shows "chain_step pl w w'"
  using assms coordinator_entry_step consumer_entry_step
  by (auto simp: execute_def bind_res_Inr_iff intro: step_other split: if_splits)

section \<open>Sequences of transactions\<close>

text \<open>A transaction that fails leaves the ledger as it was.\<close>

primrec run_transactions ::
  "'f platform \<Rightarrow> (u8 list \<Rightarrow> (seal \<times> u8 list) option) \<Rightarrow> ('f \<Rightarrow> instruction \<Rightarrow> 'f option) \<Rightarrow> instruction list \<Rightarrow>
   'f ledger \<Rightarrow> 'f ledger"
where
  "run_transactions pl ds other [] w = w"
| "run_transactions pl ds other (ix # ixs) w =
     run_transactions pl ds other ixs (case execute pl ds other ix w of Inr w' \<Rightarrow> w' | Inl _ \<Rightarrow> w)"

lemma run_transactions_steps: "(chain_step pl)\<^sup>*\<^sup>* w (run_transactions pl ds other ixs w)"
proof (induction ixs arbitrary: w)
  case (Cons ix ixs)
  show ?case
  proof (cases "execute pl ds other ix w")
    case (Inl e)
    then show ?thesis using Cons by simp
  next
    case (Inr w')
    from execute_is_step [OF Inr] Cons [of w'] show ?thesis
      by (simp add: Inr converse_rtranclp_into_rtranclp)
  qed
qed simp

section \<open>The wire format of the coordinator\<close>

definition discriminators_ok :: "'f platform \<Rightarrow> bool" where
  "discriminators_ok pl \<longleftrightarrow> (\<forall>name. 8 \<le> length (sha256 pl name)) \<and>
     distinct (map (discriminator pl) [''initialize'', ''store_journal'', ''verify_predicate''])"

text \<open>The data of the three instructions and the accounts of the two that matter to a submitter.\<close>

definition initialize_payload :: "'f platform \<Rightarrow> u8 list \<Rightarrow> u8 list" where
  "initialize_payload pl img = discriminator pl ''initialize'' @ img"

definition store_payload :: "'f platform \<Rightarrow> u8 list \<Rightarrow> u8 list" where
  "store_payload pl journal = discriminator pl ''store_journal'' @ borsh_encode_bytes journal"

definition verify_payload :: "'f platform \<Rightarrow> (seal \<Rightarrow> u8 list) \<Rightarrow> seal \<Rightarrow> u8 list \<Rightarrow> u8 \<Rightarrow> u8 list \<Rightarrow> u8 list" where
  "verify_payload pl encode_seal sl dg idx claimed =
     discriminator pl ''verify_predicate'' @ encode_seal sl @ dg @ [idx] @ claimed"

definition init_metas :: "init_accounts \<Rightarrow> account_meta list" where
  "init_metas a =
     [\<lparr>meta_key = ia_config a, meta_signer = False, meta_writable = True\<rparr>,
      \<lparr>meta_key = ia_authority a, meta_signer = ia_signed a, meta_writable = True\<rparr>,
      \<lparr>meta_key = ia_system a, meta_signer = False, meta_writable = False\<rparr>]"

definition store_metas :: "store_accounts \<Rightarrow> account_meta list" where
  "store_metas a =
     [\<lparr>meta_key = sa_journal a, meta_signer = False, meta_writable = True\<rparr>,
      \<lparr>meta_key = sa_payer a, meta_signer = sa_signed a, meta_writable = True\<rparr>,
      \<lparr>meta_key = sa_system a, meta_signer = False, meta_writable = False\<rparr>]"

definition verify_metas :: "verify_accounts \<Rightarrow> account_meta list" where
  "verify_metas a =
     [\<lparr>meta_key = va_config a, meta_signer = False, meta_writable = True\<rparr>,
      \<lparr>meta_key = va_journal a, meta_signer = False, meta_writable = False\<rparr>,
      \<lparr>meta_key = va_spent a, meta_signer = False, meta_writable = True\<rparr>,
      \<lparr>meta_key = va_router a, meta_signer = False, meta_writable = False\<rparr>,
      \<lparr>meta_key = va_router_account a, meta_signer = False, meta_writable = False\<rparr>,
      \<lparr>meta_key = va_verifier_entry a, meta_signer = False, meta_writable = False\<rparr>,
      \<lparr>meta_key = va_verifier_program a, meta_signer = False, meta_writable = False\<rparr>,
      \<lparr>meta_key = va_consumer_program a, meta_signer = False, meta_writable = False\<rparr>,
      \<lparr>meta_key = va_consumer_registry a, meta_signer = False, meta_writable = True\<rparr>,
      \<lparr>meta_key = va_caller a, meta_signer = va_signed a, meta_writable = True\<rparr>,
      \<lparr>meta_key = va_system a, meta_signer = False, meta_writable = False\<rparr>]"

lemma discriminator_length: "discriminators_ok pl \<Longrightarrow> length (discriminator pl name) = 8"
  unfolding discriminators_ok_def discriminator_def by (simp add: min_absorb2)

lemma discriminators_distinct:
  assumes "discriminators_ok pl"
  shows "discriminator pl ''store_journal'' \<noteq> discriminator pl ''initialize''"
    "discriminator pl ''verify_predicate'' \<noteq> discriminator pl ''initialize''"
    "discriminator pl ''verify_predicate'' \<noteq> discriminator pl ''store_journal''"
  using assms by (auto simp: discriminators_ok_def)

lemma bind_metas [simp]:
  "bind_init_accounts (init_metas ia) = Inr ia" "bind_store_accounts (store_metas sa) = Inr sa"
  "bind_verify_accounts (verify_metas va) = Inr va"
  by (simp_all add: bind_init_accounts_def init_metas_def bind_store_accounts_def store_metas_def
      bind_verify_accounts_def verify_metas_def writable_def)

definition demo_encode_seal :: "seal \<Rightarrow> u8 list" where
  "demo_encode_seal sl = borsh_encode_bytes (selector sl) @ borsh_encode_bytes (proof_bytes sl)"

definition demo_decode_seal :: "u8 list \<Rightarrow> (seal \<times> u8 list) option" where
  "demo_decode_seal bs = (case borsh_bytes bs of
     Inr (s, bs) \<Rightarrow> (case borsh_bytes bs of Inr (p, bs) \<Rightarrow> Some (\<lparr>selector = s, proof_bytes = p\<rparr>, bs) | Inl _ \<Rightarrow> None)
   | Inl _ \<Rightarrow> None)"

lemma demo_seal_codec: "demo_decode_seal (demo_encode_seal demo_seal @ bs) = Some (demo_seal, bs)"
  by (simp add: demo_decode_seal_def demo_encode_seal_def demo_seal_def borsh_bytes_encode)

lemma demo_discriminators: "discriminators_ok demo_platform"
  by (simp add: discriminators_ok_def discriminator_def demo_platform_def bytes_def min_def)

text \<open>
  C23: on the encoding of its arguments and accounts each entry point of the coordinator runs
  the handler on exactly these, whatever data follows.
\<close>

theorem entry_roundtrip:
  assumes "discriminators_ok pl" "\<And>bs. decode_seal (encode_seal sl @ bs) = Some (sl, bs)"
    and "length img = 32" "length journal < 2 ^ 32" "length dg = 32" "length claimed = 32"
  shows "coordinator_entry pl decode_seal (init_metas ia) (initialize_payload pl img @ rest) w =
       map_error Handler (initialize pl ia img w) \<and>
     coordinator_entry pl decode_seal (store_metas sa) (store_payload pl journal @ rest) w =
       map_error Handler (store_journal pl sa journal w) \<and>
     coordinator_entry pl decode_seal (verify_metas va) (verify_payload pl encode_seal sl dg idx claimed @ rest) w =
       map_error Handler (verify_predicate pl va sl dg idx claimed w)"
  using discriminator_length [OF assms(1)] discriminators_distinct [OF assms(1)] assms(2-6)
  by (simp add: coordinator_entry_def initialize_payload_def store_payload_def verify_payload_def
      borsh_bytes_encode borsh_u8_def)

theorem entry_roundtrip_witness:
  "coordinator_entry demo_platform demo_decode_seal (verify_metas demo_accounts)
     (verify_payload demo_platform demo_encode_seal demo_seal demo_digest 0 demo_nullifier @ [1, 2]) demo_ledger =
   Inr demo_verified"
proof -
  have "length demo_nullifier = 32" by (simp add: demo_nullifier_def)
  with entry_roundtrip [where decode_seal = demo_decode_seal and encode_seal = demo_encode_seal and
      sl = demo_seal and img = demo_digest and journal = "[]" and dg = demo_digest and claimed = demo_nullifier
      and rest = "[1, 2]" and va = demo_accounts and idx = 0 and w = demo_ledger, OF demo_discriminators demo_seal_codec]
  show ?thesis by (simp add: demo_digest_length demo_verification map_error_def)
qed

text \<open>
  C16: whatever transactions are sent to the two programs and to others, in any order and by
  anyone, no nullifier is verified twice: the ledger they lead to from an empty one is
  reachable, so its verified nullifiers are distinct and certified.
\<close>

theorem transactions_never_replay:
  assumes "platform_ok pl" "w = run_transactions pl decode_seal other ixs (genesis f)"
  shows "reachable pl w \<and> distinct (verified w) \<and> (\<forall>n \<in> set (verified w). certified pl w n)"
proof -
  have "reachable pl w" unfolding reachable_def assms(2) using run_transactions_steps by blast
  then show ?thesis using ledger_okD(4,5) [OF reachable_ok [OF assms(1)]] by blast
qed

theorem transactions_never_replay_witness:
  "distinct (verified (run_transactions demo_platform demo_decode_seal (\<lambda>f ix. None)
     [\<lparr>target_program = [1], metas = [], payload = [1, 2]\<rparr>] (genesis ())))"
  using transactions_never_replay [OF demo_platform_ok refl] by blast

end
