(* ===== verification/G1_Negation.thy ===== *)
theory G1_Negation
  imports Prelude
begin

text \<open>
  The negation of a curve point in the submit client (\<open>negate_g1\<close> of
  \<open>devnet-client/src/main.rs\<close>): a subtraction of 32-byte big-endian numbers with borrow.
\<close>

section \<open>The code\<close>

definition Q_BYTES :: "u8 list" where
  "Q_BYTES = [
     0x30, 0x64, 0x4e, 0x72, 0xe1, 0x31, 0xa0, 0x29, 0xb8, 0x50, 0x45, 0xb6, 0x81, 0x81, 0x58,
     0x5d, 0x97, 0x81, 0x6a, 0x91, 0x68, 0x71, 0xca, 0x8d, 0x3c, 0x20, 0x8c, 0x16, 0xd8, 0x7c,
     0xfd, 0x47]"

text \<open>
  The loop \<open>for i in (0..32).rev()\<close>, with \<open>i\<close> indices left. The difference is an \<open>i16\<close>;
  by \<open>diff_range\<close> below it stays between -256 and 255, so it is an \<open>int\<close> here.
\<close>

definition byte_diff :: "u8 \<Rightarrow> u8 \<Rightarrow> int \<Rightarrow> int" where
  "byte_diff q y borrow = uint q - uint y - borrow"

primrec negate_loop :: "u8 list \<Rightarrow> nat \<Rightarrow> int \<Rightarrow> u8 list \<Rightarrow> u8 list" where
  "negate_loop y 0 borrow neg_y = neg_y"
| "negate_loop y (Suc i) borrow neg_y =
     (let diff = byte_diff (Q_BYTES ! i) (y ! i) borrow
      in if diff < 0 then negate_loop y i 1 (neg_y[i := word_of_int (diff + 256)])
         else negate_loop y i 0 (neg_y[i := word_of_int diff]))"

text \<open>The argument and the result are arrays of 64 bytes.\<close>

definition negate_g1 :: "u8 list \<Rightarrow> u8 list" where
  "negate_g1 pi_a = take 32 pi_a @ negate_loop (take 32 (drop 32 pi_a)) 32 0 (replicate 32 0)"

section \<open>Big-endian numbers\<close>

definition be_value :: "u8 list \<Rightarrow> int" where
  "be_value bs = foldl (\<lambda>a b. a * 256 + uint b) 0 bs"

lemma be_value_simps [simp]: "be_value [] = 0" "be_value (bs @ [b]) = be_value bs * 256 + uint b"
  by (simp_all add: be_value_def)

lemma be_value_take: "i < length bs \<Longrightarrow> be_value (take (Suc i) bs) = be_value (take i bs) * 256 + uint (bs ! i)"
  by (simp add: take_Suc_conv_app_nth)

lemma uint_u8: "0 \<le> uint (b :: u8)" "uint (b :: u8) < 256"
  using uint_lt2p [of b] by simp_all

lemma be_value_bounds: "0 \<le> be_value bs \<and> be_value bs < 256 ^ length bs"
proof (induction bs rule: rev_induct)
  case (snoc b bs)
  have "be_value bs * 256 + uint b < (be_value bs + 1) * 256"
    using uint_u8(2) [of b] by (simp add: algebra_simps)
  also have "\<dots> \<le> 256 ^ length bs * 256" using snoc by (intro mult_right_mono) simp_all
  finally show ?case using snoc uint_u8 [of b] by simp
qed simp

lemma digit_eq:
  fixes a b x y :: int
  assumes "0 \<le> x" "x < 256" "0 \<le> y" "y < 256"
  shows "a * 256 + x = b * 256 + y \<longleftrightarrow> a = b \<and> x = y"
proof
  assume e: "a * 256 + x = b * 256 + y"
  have "(a * 256 + x) mod 256 = x" "(b * 256 + y) mod 256 = y" using assms by simp_all
  then have "x = y" using e by simp
  then show "a = b \<and> x = y" using e by simp
qed simp

lemma be_value_inj: "length a = length b \<Longrightarrow> be_value a = be_value b \<longleftrightarrow> a = b"
proof (induction a arbitrary: b rule: rev_induct)
  case (snoc x a)
  then obtain y b' where b: "b = b' @ [y]" by (cases b rule: rev_cases) auto
  have "be_value a * 256 + uint x = be_value b' * 256 + uint y \<longleftrightarrow> be_value a = be_value b' \<and> uint x = uint y"
    by (rule digit_eq) (rule uint_u8)+
  then show ?case using snoc b by (simp add: word_uint_eq_iff)
qed simp

section \<open>Correctness\<close>

lemma diff_range:
  "borrow \<in> {0, 1} \<Longrightarrow> - 256 \<le> byte_diff q y borrow \<and> byte_diff q y borrow \<le> 255"
proof -
  assume "borrow \<in> {0, 1}"
  then have "0 \<le> borrow" "borrow \<le> 1" by auto
  then show ?thesis
    using uint_u8 [of q] uint_u8 [of y] unfolding byte_diff_def by linarith
qed

lemma length_negate_loop [simp]: "length (negate_loop y i b r) = length r"
  by (induction i arbitrary: b r) (simp_all add: Let_def)

lemma negate_loop_keeps: "i \<le> j \<Longrightarrow> negate_loop y i b r ! j = r ! j"
  by (induction i arbitrary: b r) (simp_all add: Let_def)

text \<open>
  The invariant of the loop, read from the indices that are left: the result, the
  subtrahend and the borrow add up to the minuend, modulo a power of 256.
\<close>

lemma negate_loop_value:
  assumes "i \<le> length r" "i \<le> length y" "i \<le> 32" "b \<in> {0, 1}"
  shows "\<exists>c \<in> {0, 1}. be_value (take i (negate_loop y i b r)) + be_value (take i y) + b =
     be_value (take i Q_BYTES) + c * 256 ^ i"
  using assms
proof (induction i arbitrary: b r)
  case (Suc i)
  define d where "d = byte_diff (Q_BYTES ! i) (y ! i) b"
  define b' :: int where "b' = (if d < 0 then 1 else 0)"
  define v :: u8 where "v = word_of_int (d + b' * 256)"
  define n where "n = negate_loop y i b' (r[i := v])"
  have loop: "negate_loop y (Suc i) b r = n" by (simp add: Let_def n_def v_def b'_def d_def)
  have l: "length Q_BYTES = 32" by (simp add: Q_BYTES_def)
  have "b' \<in> {0, 1}" by (simp add: b'_def)
  from Suc.IH [OF _ _ _ this, of "r[i := v]"] Suc.prems
  obtain c where c: "c \<in> {0, 1}" "be_value (take i n) + be_value (take i y) + b' = be_value (take i Q_BYTES) + c * 256 ^ i"
    unfolding n_def by auto
  have "0 \<le> d + b' * 256" "d + b' * 256 < 256"
    using diff_range [OF Suc.prems(4), of "Q_BYTES ! i" "y ! i"] by (auto simp: b'_def d_def)
  then have "(d + b' * 256) mod 2 ^ LENGTH(8) = d + b' * 256" by (intro mod_pos_pos_trivial) simp_all
  then have "uint v = d + b' * 256" by (simp only: v_def uint_word_of_int)
  moreover have "n ! i = v" using Suc.prems(1) by (simp add: n_def negate_loop_keeps)
  ultimately have v: "uint (n ! i) + uint (y ! i) + b = uint (Q_BYTES ! i) + b' * 256"
    by (simp add: d_def byte_diff_def)
  have "be_value (take (Suc i) n) + be_value (take (Suc i) y) + b = be_value (take (Suc i) Q_BYTES) + c * 256 ^ Suc i"
  proof -
    have "length n = length r" by (simp add: n_def)
    then have "be_value (take (Suc i) n) + be_value (take (Suc i) y) + b =
        256 * (be_value (take i n) + be_value (take i y)) + (uint (n ! i) + uint (y ! i) + b)"
      using Suc.prems by (simp add: be_value_take algebra_simps)
    also have "\<dots> = 256 * (be_value (take i n) + be_value (take i y) + b') + uint (Q_BYTES ! i)"
      unfolding v by simp
    also have "\<dots> = be_value (take (Suc i) Q_BYTES) + c * 256 ^ Suc i"
      unfolding c(2) using Suc.prems l by (simp add: be_value_take)
    finally show ?thesis .
  qed
  with c(1) show ?case unfolding loop by blast
qed simp

definition field_modulus :: int where
  "field_modulus = 21888242871839275222246405745257275088696311157297823662689037894645226208583"

lemma be_value_Q: "be_value Q_BYTES = field_modulus"
  by (simp add: be_value_def Q_BYTES_def field_modulus_def)

lemma negated_value:
  assumes "length p = 64"
  shows "be_value (drop 32 (negate_g1 p)) = (field_modulus - be_value (drop 32 p)) mod 2 ^ 256"
proof -
  let ?y = "drop 32 p"
  let ?n = "negate_loop ?y 32 0 (replicate 32 0)"
  have y: "take 32 ?y = ?y" "length ?n = 32" "length Q_BYTES = 32"
    using assms by (simp_all add: Q_BYTES_def)
  then have n: "drop 32 (negate_g1 p) = ?n" using assms by (simp add: negate_g1_def)
  obtain c where "be_value ?n + be_value ?y = field_modulus + c * 256 ^ 32"
    using negate_loop_value [of 32 "replicate 32 0" ?y 0] assms y by (auto simp: be_value_Q)
  then have "be_value ?n = field_modulus - be_value ?y + c * 2 ^ 256" by simp
  moreover have "0 \<le> be_value ?n" "be_value ?n < 2 ^ 256" using be_value_bounds [of ?n] y by simp_all
  ultimately show ?thesis unfolding n by (metis mod_mult_self1 mod_pos_pos_trivial mult.commute)
qed

text \<open>
  C36: the client negates a point of the curve: the first coordinate stays, a second
  coordinate \<open>y\<close> up to the field's modulus \<open>q\<close> becomes \<open>q - y\<close>, and negating twice gives the
  point back.
\<close>

theorem negate_g1_negates:
  assumes "length p = 64"
  shows "take 32 (negate_g1 p) = take 32 p \<and> length (negate_g1 p) = 64 \<and>
     (be_value (drop 32 p) \<le> field_modulus \<longrightarrow>
        be_value (drop 32 (negate_g1 p)) = field_modulus - be_value (drop 32 p)) \<and>
     negate_g1 (negate_g1 p) = p"
proof -
  have len: "take 32 (negate_g1 q) = take 32 q" "length (negate_g1 q) = 64" if "length q = 64" for q
    using that by (simp_all add: negate_g1_def)
  have y: "0 \<le> be_value (drop 32 p)" "be_value (drop 32 p) < 2 ^ 256"
    using be_value_bounds [of "drop 32 p"] assms by simp_all
  have "be_value (drop 32 (negate_g1 p)) = field_modulus - be_value (drop 32 p)"
    if "be_value (drop 32 p) \<le> field_modulus"
    using that y(1) by (simp add: negated_value [OF assms] field_modulus_def)
  moreover have "be_value (drop 32 (negate_g1 (negate_g1 p))) = be_value (drop 32 p)"
    using y by (simp add: negated_value [OF len(2) [OF assms]] negated_value [OF assms] mod_diff_right_eq)
  then have "drop 32 (negate_g1 (negate_g1 p)) = drop 32 p"
    using be_value_inj len(2) assms by simp
  then have "negate_g1 (negate_g1 p) = p"
    using len assms by (metis append_take_drop_id)
  ultimately show ?thesis using len assms by blast
qed

theorem negate_g1_negates_witness:
  "be_value (drop 32 (negate_g1 (replicate 63 0 @ [2]))) = field_modulus - 2 \<and>
   negate_g1 (negate_g1 (replicate 63 0 @ [2])) = replicate 63 0 @ [2]"
  using negate_g1_negates [of "replicate 63 0 @ [2]"] by (simp add: be_value_def field_modulus_def replicate_numeral)

end
