(* ===== verification/Devnet_Client.thy ===== *)
theory Devnet_Client
  imports Program_Entry Wrap_Service G1_Negation Rust_Format
begin

text \<open>
  The submit client (\<open>main\<close> of \<open>devnet-client/src/main.rs\<close>): it reads the answer of the
  prover's service, asks a node for its balance and for block hashes and sends five
  transactions, and prints what it does. The client ignores the errors of the first four (the
  accounts may exist already); every other error ends it. The files and the node are
  parameters.
\<close>

section \<open>Instructions of the client\<close>

text \<open>The addresses of the programs, in base58 as the sources have them.\<close>

definition VERIFIER_ROUTER_ID :: string where
  "VERIFIER_ROUTER_ID = ''CfAo7ygm9xwDro418VBhaPyk2KMFoLhTmpumDA1BRD4z''"

definition GROTH16_VERIFIER_ID :: string where
  "GROTH16_VERIFIER_ID = ''8RPusmPr7tdS5jo1piCTEFXBYVxfQqDiLZMYurDYzuqM''"

definition COORDINATOR_ID :: string where
  "COORDINATOR_ID = ''39jHP7Hs6zvCWsG3gJHVPfZfdFwAjhGfnFiyGDcPN7bY''"

definition CONSUMER_ID :: string where
  "CONSUMER_ID = ''Gv1x7gNnbL94uuQf5s92j6DZ93u4e5aaWWt1nYfDPHWQ''"

definition GROTH16_PROGRAM_DATA :: string where
  "GROTH16_PROGRAM_DATA = ''6mYE6iDv6c7PPQBPMq8NqbHdZHdikDWtD17Zk3Hvv4zj''"

text \<open>The signer and the address of the Groth16 verifier, for the instructions below.\<close>

record client_env =
  payer_pk :: pubkey
  groth16_id :: pubkey

definition NULLIFIER :: "u8 list" where
  "NULLIFIER = [
     0x39, 0xe1, 0x5e, 0xad, 0xcb, 0xc6, 0x84, 0xbf, 0xca, 0x46, 0xf7, 0x6b,
     0xec, 0x41, 0x82, 0xd7, 0x1c, 0xf5, 0xb2, 0x68, 0x33, 0xd6, 0xe2, 0x0a,
     0xf0, 0xb2, 0x83, 0x51, 0x5d, 0x9f, 0x92, 0xb2]"

definition JOURNAL_DIGEST :: "u8 list" where
  "JOURNAL_DIGEST = [
     0x69, 0xcc, 0xda, 0xed, 0x14, 0xe3, 0x5c, 0x57, 0xe7, 0x20, 0x3f, 0x5d,
     0x75, 0x4e, 0x7e, 0x3e, 0x62, 0xed, 0xf3, 0x51, 0x33, 0xb3, 0xe3, 0x9c,
     0x1e, 0x63, 0x2d, 0x2d, 0x62, 0x17, 0x5e, 0x84]"

definition meta_new :: "pubkey \<Rightarrow> bool \<Rightarrow> account_meta" where
  "meta_new k s = \<lparr>meta_key = k, meta_signer = s, meta_writable = True\<rparr>"

definition meta_readonly :: "pubkey \<Rightarrow> bool \<Rightarrow> account_meta" where
  "meta_readonly k s = \<lparr>meta_key = k, meta_signer = s, meta_writable = False\<rparr>"

definition router_state :: "'f platform \<Rightarrow> pubkey" where
  "router_state pl = pda pl [bytes ''router''] (router_id pl)"

definition router_initialize_ix :: "'f platform \<Rightarrow> client_env \<Rightarrow> instruction" where
  "router_initialize_ix pl env =
     \<lparr>target_program = router_id pl,
      metas = [meta_new (router_state pl) False, meta_new (payer_pk env) True, meta_readonly (system_id pl) False],
      payload = discriminator pl ''initialize''\<rparr>"

definition add_verifier_ix :: "'f platform \<Rightarrow> client_env \<Rightarrow> pubkey \<Rightarrow> u8 list \<Rightarrow> instruction" where
  "add_verifier_ix pl env program_data sel =
     \<lparr>target_program = router_id pl,
      metas = [meta_readonly (router_state pl) False, meta_new (verifier_key pl sel) False,
        meta_readonly program_data False, meta_readonly (groth16_id env) False,
        meta_new (payer_pk env) True, meta_readonly (system_id pl) False],
      payload = discriminator pl ''add_verifier'' @ sel\<rparr>"

definition consumer_initialize_ix :: "'f platform \<Rightarrow> client_env \<Rightarrow> instruction" where
  "consumer_initialize_ix pl env =
     \<lparr>target_program = consumer_id pl,
      metas = [meta_new (registry_key pl) False, meta_new (payer_pk env) True, meta_readonly (system_id pl) False],
      payload = discriminator pl ''initialize''\<rparr>"

definition coordinator_initialize_ix :: "'f platform \<Rightarrow> client_env \<Rightarrow> u8 list \<Rightarrow> instruction" where
  "coordinator_initialize_ix pl env img =
     \<lparr>target_program = coordinator_id pl,
      metas = [meta_new (config_key pl) False, meta_new (payer_pk env) True, meta_readonly (system_id pl) False],
      payload = discriminator pl ''initialize'' @ img @ payer_pk env\<rparr>"

definition verify_metas_sent :: "'f platform \<Rightarrow> client_env \<Rightarrow> u8 list \<Rightarrow> account_meta list" where
  "verify_metas_sent pl env sel =
     [meta_new (config_key pl) False, meta_new (nullifier_key pl NULLIFIER) False,
      meta_readonly (router_id pl) False, meta_readonly (router_state pl) False,
      meta_readonly (verifier_key pl sel) False, meta_readonly (groth16_id env) False,
      meta_readonly (consumer_id pl) False, meta_new (registry_key pl) False,
      meta_new (payer_pk env) True, meta_readonly (system_id pl) False]"

definition verify_predicate_ix ::
  "'f platform \<Rightarrow> client_env \<Rightarrow> u8 list \<Rightarrow> u8 list \<Rightarrow> ('e, instruction) res"
where
  "verify_predicate_ix pl env sl sel =
     bind_res (slice sl 0 64) (\<lambda>pi_a.
     bind_res (slice sl 64 192) (\<lambda>pi_b.
     bind_res (slice sl 192 256) (\<lambda>pi_c.
       Inr \<lparr>target_program = coordinator_id pl, metas = verify_metas_sent pl env sel,
         payload = discriminator pl ''verify_predicate'' @ sel @ negate_g1 pi_a @ pi_b @ pi_c @
           JOURNAL_DIGEST @ NULLIFIER\<rparr>)))"

section \<open>The run\<close>

datatype client_error =
  Read_failed | Json_failed | Base64_error | Keypair_failed | Pubkey_failed | Rpc_failed | Transaction_failed

text \<open>
  The files the client reads, with the decoders of JSON and base64 and the base58 parser and
  printer of addresses.
\<close>

record client_host =
  response_file :: "str option"
  read_response :: "str \<Rightarrow> wrap_response option"
  base64 :: "str \<Rightarrow> u8 list option"
  keypair :: "pubkey option"
  pubkey_of_text :: "string \<Rightarrow> pubkey option"
  show_pubkey :: "pubkey \<Rightarrow> str"

text \<open>
  The node: whether it answers the n-th question (the balance, then block hashes), and what
  becomes of the n-th transaction: it is executed and its outcome reported, it is lost (an
  expired block hash, no connection), or it is executed but the client only sees an error.
  Then its answer to the first question, and the texts of signatures and errors.
\<close>

datatype delivery = Delivered | Lost | Unconfirmed

record node =
  answers :: "nat \<Rightarrow> bool"
  delivery_of :: "nat \<Rightarrow> delivery"
  balance_lamports :: u64
  signature_text :: "nat \<Rightarrow> str"
  failure_text :: "nat \<Rightarrow> str"

definition query :: "node \<Rightarrow> nat \<Rightarrow> 's \<Rightarrow> (client_error, unit) res \<times> 's" where
  "query node i w = (require (answers node i) Rpc_failed, w)"

definition send_transaction ::
  "'f platform \<Rightarrow> (u8 list \<Rightarrow> (seal \<times> u8 list) option) \<Rightarrow> ('f \<Rightarrow> instruction \<Rightarrow> 'f option) \<Rightarrow> node \<Rightarrow> nat \<Rightarrow>
   instruction \<Rightarrow> 'f ledger \<Rightarrow> (client_error, unit) res \<times> 'f ledger"
where
  "send_transaction pl ds other node i ix w =
     (case (delivery_of node i, execute pl ds other ix w) of
        (Delivered, Inr w') \<Rightarrow> (Inr (), w')
      | (Unconfirmed, Inr w') \<Rightarrow> (Inl (Fault Transaction_failed), w')
      | _ \<Rightarrow> (Inl (Fault Transaction_failed), w))"

text \<open>What the client sees: the chain, and the lines it has printed.\<close>

type_synonym 'f desk = "'f ledger \<times> str list"

definition say :: "str list \<Rightarrow> 'f desk \<Rightarrow> 'f desk" where
  "say ls s = (fst s, snd s @ ls)"

definition ok_line :: "node \<Rightarrow> string \<Rightarrow> nat \<Rightarrow> str" where
  "ok_line node name i = chars name @ chars '' ok '' @ [em_dash] @ chars '' '' @ signature_text node i"

definition failed_line :: "node \<Rightarrow> string \<Rightarrow> nat \<Rightarrow> str" where
  "failed_line node name i = chars name @ chars '': '' @ failure_text node i @
     chars '' (may already exist, continuing)''"

text \<open>\<open>match rpc.send_and_confirm_transaction(&tx) { Ok(..) => .., Err(..) => .. }\<close>\<close>

definition send_and_continue ::
  "'f platform \<Rightarrow> (u8 list \<Rightarrow> (seal \<times> u8 list) option) \<Rightarrow> ('f \<Rightarrow> instruction \<Rightarrow> 'f option) \<Rightarrow> node \<Rightarrow> string \<Rightarrow> nat \<Rightarrow>
   instruction \<Rightarrow> 'f desk \<Rightarrow> 'f desk"
where
  "send_and_continue pl ds other node name i ix s =
     (case send_transaction pl ds other node i ix (fst s) of
        (Inr _, w) \<Rightarrow> (w, snd s @ [ok_line node name i])
      | (Inl _, w) \<Rightarrow> (w, snd s @ [failed_line node name i]))"

text \<open>\<open>hex::encode\<close>\<close>

definition hex_encode :: "u8 list \<Rightarrow> str" where
  "hex_encode bs = concat (map (\<lambda>b. [hex_char (unat b div 16), hex_char (unat b mod 16)]) bs)"

definition client_inputs :: "client_host \<Rightarrow> (client_error, u8 list \<times> u8 list \<times> u8 list \<times> u8 list) res" where
  "client_inputs host =
     bind_res (ok_or Read_failed (response_file host)) (\<lambda>json.
     bind_res (ok_or Json_failed (read_response host json)) (\<lambda>resp.
     bind_res (ok_or Base64_error (base64 host (seal_b64 resp))) (\<lambda>sl.
     bind_res (ok_or Base64_error (base64 host (journal_b64 resp))) (\<lambda>journal.
     bind_res (client_image_id (response_id_hex resp)) (\<lambda>img.
     bind_res (slice sl 0 4) (\<lambda>sel. Inr (sl, journal, img, sel)))))))"

text \<open>
  The addresses the client works with are those it names, whatever the platform's are: it
  builds its instructions over a platform of its own.
\<close>

definition client_programs :: "'f platform \<Rightarrow> client_host \<Rightarrow> (client_error, 'f platform \<times> pubkey) res" where
  "client_programs pl host =
     bind_res (ok_or Pubkey_failed (pubkey_of_text host VERIFIER_ROUTER_ID)) (\<lambda>router.
     bind_res (ok_or Pubkey_failed (pubkey_of_text host GROTH16_VERIFIER_ID)) (\<lambda>groth16.
     bind_res (ok_or Pubkey_failed (pubkey_of_text host COORDINATOR_ID)) (\<lambda>coordinator.
     bind_res (ok_or Pubkey_failed (pubkey_of_text host CONSUMER_ID)) (\<lambda>consumer.
       Inr (pl\<lparr>coordinator_id := coordinator, consumer_id := consumer, router_id := router\<rparr>, groth16)))))"

text \<open>The lines before the first transaction.\<close>

definition input_lines :: "u8 list \<Rightarrow> u8 list \<Rightarrow> u8 list \<Rightarrow> str list" where
  "input_lines sl journal sel =
     [chars ''seal: '' @ show_nat (length sl) @ chars '' bytes, journal: '' @ show_nat (length journal) @ chars '' bytes'',
      chars ''selector: '' @ hex_encode sel]"

definition balance_line :: "node \<Rightarrow> str" where
  "balance_line node = chars ''balance: '' @ show_nat (unat (balance_lamports node)) @ chars '' lamports''"

definition address_lines :: "'f platform \<Rightarrow> client_host \<Rightarrow> u8 list \<Rightarrow> str list" where
  "address_lines own host sel =
     [chars ''config_pda:     '' @ show_pubkey host (config_key own),
      chars ''registry_pda:   '' @ show_pubkey host (registry_key own),
      chars ''spent_nul_pda:  '' @ show_pubkey host (nullifier_key own NULLIFIER),
      chars ''router_state:   '' @ show_pubkey host (router_state own),
      chars ''verifier_entry: '' @ show_pubkey host (verifier_key own sel)]"

definition client_setup ::
  "'f platform \<Rightarrow> (u8 list \<Rightarrow> (seal \<times> u8 list) option) \<Rightarrow> ('f \<Rightarrow> instruction \<Rightarrow> 'f option) \<Rightarrow> node \<Rightarrow> client_host \<Rightarrow>
   'f platform \<Rightarrow> client_env \<Rightarrow> u8 list \<Rightarrow> u8 list \<Rightarrow> 'f desk \<Rightarrow> (client_error, unit) res \<times> 'f desk"
where
  "client_setup pl ds other node host own env img sel s =
     then_do (query node 2 (say [newline # chars ''[0a] verifier_router::initialize...''] s)) (\<lambda>_ s.
     let s = send_and_continue pl ds other node ''router initialize'' 0 (router_initialize_ix own env) s in
     then_do (ok_or Pubkey_failed (pubkey_of_text host GROTH16_PROGRAM_DATA),
         say [newline # chars ''[0b] verifier_router::add_verifier...''] s) (\<lambda>program_data s.
     then_do (query node 3 s) (\<lambda>_ s.
     let s = send_and_continue pl ds other node ''add_verifier'' 1 (add_verifier_ix own env program_data sel) s;
         s = say [newline # chars ''[1/3] consumer::initialize...''] s;
         s = send_and_continue pl ds other node ''consumer::initialize'' 2 (consumer_initialize_ix own env) s in
     then_do (query node 4 (say [newline # chars ''[2/3] coordinator::initialize...''] s)) (\<lambda>_ s.
       (Inr (), send_and_continue pl ds other node ''coordinator::initialize'' 3
          (coordinator_initialize_ix own env img) s)))))"

definition success_lines :: "node \<Rightarrow> str list" where
  "success_lines node =
     [newline # [check_mark] @ chars '' verify_predicate on devnet!'',
      chars ''Signature: '' @ signature_text node 4,
      chars ''Explorer: https://explorer.solana.com/tx/'' @ signature_text node 4 @ chars ''?cluster=devnet'']"

definition client_main ::
  "'f platform \<Rightarrow> (u8 list \<Rightarrow> (seal \<times> u8 list) option) \<Rightarrow> ('f \<Rightarrow> instruction \<Rightarrow> 'f option) \<Rightarrow> node \<Rightarrow> client_host \<Rightarrow>
   'f ledger \<Rightarrow> (client_error, unit) res \<times> 'f desk"
where
  "client_main pl ds other node host w =
     then_do (client_inputs host, (w, [])) (\<lambda>(sl, journal, img, sel) s.
     then_do (ok_or Keypair_failed (keypair host), say (input_lines sl journal sel) s) (\<lambda>payer s.
     then_do (query node 0 (say [chars ''payer: '' @ show_pubkey host payer] s)) (\<lambda>_ s.
     then_do (client_programs pl host, say [balance_line node] s) (\<lambda>(own, groth16) s.
     then_do (query node 1 (say (address_lines own host sel) s)) (\<lambda>_ s.
     let env = \<lparr>payer_pk = payer, groth16_id = groth16\<rparr> in
     then_do (client_setup pl ds other node host own env img sel s) (\<lambda>_ s.
     then_do (verify_predicate_ix own env sl sel,
         say [newline # chars ''[3/3] coordinator::verify_predicate...''] s) (\<lambda>ix s.
     then_do (query node 5 s) (\<lambda>_ s.
     then_do (case send_transaction pl ds other node 4 ix (fst s) of (r, w) \<Rightarrow> (r, (w, snd s))) (\<lambda>_ s.
       (Inr (), say (success_lines node) s))))))))))"

text \<open>The programs the client names are the deployed ones.\<close>

definition names_programs :: "'f platform \<Rightarrow> client_host \<Rightarrow> bool" where
  "names_programs pl host \<longleftrightarrow> pubkey_of_text host VERIFIER_ROUTER_ID = Some (router_id pl) \<and>
     pubkey_of_text host COORDINATOR_ID = Some (coordinator_id pl) \<and>
     pubkey_of_text host CONSUMER_ID = Some (consumer_id pl)"

lemma client_programs_own:
  assumes "names_programs pl host" "client_programs pl host = Inr (own, groth16)"
  shows "own = pl"
  using assms by (auto simp: client_programs_def names_programs_def bind_res_Inr_iff)

section \<open>What the setup does\<close>

text \<open>The three programs the client calls are different programs.\<close>

definition programs_distinct :: "'f platform \<Rightarrow> bool" where
  "programs_distinct pl \<longleftrightarrow> distinct [coordinator_id pl, consumer_id pl, router_id pl]"

text \<open>
  A change of the ledger that verifies nothing and touches, of the coordinator's accounts, only
  the configuration and, of the consumer's, only the registry.
\<close>

definition quiet :: "'f platform \<Rightarrow> 'f ledger \<Rightarrow> 'f ledger \<Rightarrow> bool" where
  "quiet pl w w' \<longleftrightarrow> events w' = events w \<and> (\<forall>k. k \<noteq> config_key pl \<longrightarrow> coord w' k = coord w k) \<and>
     (\<forall>k. k \<noteq> registry_key pl \<longrightarrow> cons w' k = cons w k)"

lemma quiet_refl: "quiet pl w w" by (simp add: quiet_def)

lemma quiet_trans [trans]: "quiet pl w w' \<Longrightarrow> quiet pl w' w'' \<Longrightarrow> quiet pl w w''"
  by (simp add: quiet_def)

lemma say_simps [simp]: "fst (say ls s) = fst s" "snd (say ls s) = snd s @ ls"
  by (simp_all add: say_def)

lemma query_simps [simp]: "snd (query node i s) = s"
  by (simp add: query_def)

lemma send_fst:
  "fst (send_and_continue pl ds other node name i ix s) = snd (send_transaction pl ds other node i ix (fst s))"
  by (simp add: send_and_continue_def split: prod.split sum.split)

lemma send_quiet:
  assumes "\<And>w'. execute pl ds other ix (fst s) = Inr w' \<Longrightarrow> quiet pl (fst s) w'"
  shows "quiet pl (fst s) (fst (send_and_continue pl ds other node name i ix s))"
  using assms
  by (cases "execute pl ds other ix (fst s)"; cases "delivery_of node i")
    (simp_all add: send_fst send_transaction_def quiet_refl)

lemma router_target:
  "target_program (router_initialize_ix pl env) = router_id pl"
  "target_program (add_verifier_ix pl env program_data sel) = router_id pl"
  by (simp_all add: router_initialize_ix_def add_verifier_ix_def)

lemma send_to_router:
  assumes "programs_distinct pl" "target_program ix = router_id pl"
  shows "\<exists>f l. send_and_continue pl ds other node name i ix s = ((fst s)\<lparr>foreign := f\<rparr>, l)"
proof -
  have s: "\<exists>f. w = w\<lparr>foreign := f\<rparr>" for w :: "'a ledger" by (intro exI [of _ "foreign w"]) simp
  have e: "execute pl ds other ix w = bind_res (ok_or InstructionFallbackNotFound (other (foreign w) ix))
      (\<lambda>f. Inr (w\<lparr>foreign := f\<rparr>))" for w
    using assms by (auto simp: execute_def programs_distinct_def)
  show ?thesis
    by (cases "other (foreign (fst s)) ix"; cases "delivery_of node i")
      (use s in \<open>auto simp: e send_and_continue_def send_transaction_def\<close>)
qed

lemma router_quiet:
  assumes "programs_distinct pl" "target_program ix = router_id pl"
  shows "quiet pl (fst s) (fst (send_and_continue pl ds other node name i ix s))"
  using send_to_router [OF assms, of ds other node name i s] by (auto simp: quiet_def)

lemma execute_consumer_initialize:
  assumes "programs_distinct pl" "discriminators_ok pl"
  shows "execute pl ds other (consumer_initialize_ix pl env) w = map_error Handler
     (consumer_initialize pl \<lparr>ir_registry = registry_key pl, ir_authority = payer_pk env, ir_signed = True,
        ir_system = system_id pl\<rparr> w)"
  using assms discriminator_length [OF assms(2)]
  by (auto simp: execute_def consumer_initialize_ix_def programs_distinct_def consumer_entry_def
      bind_registry_accounts_def meta_new_def meta_readonly_def writable_def Let_def)

lemma execute_coordinator_initialize:
  assumes "discriminators_ok pl" "length img = 32"
  shows "execute pl ds other (coordinator_initialize_ix pl env img) w = map_error Handler
     (initialize pl \<lparr>ia_config = config_key pl, ia_authority = payer_pk env, ia_signed = True,
        ia_system = system_id pl\<rparr> img w)"
  using assms discriminator_length [OF assms(1)]
  by (auto simp: execute_def coordinator_initialize_ix_def coordinator_entry_def
      bind_init_accounts_def meta_new_def meta_readonly_def writable_def Let_def)

lemma consumer_quiet:
  assumes "programs_distinct pl" "discriminators_ok pl"
  shows "quiet pl (fst s) (fst (send_and_continue pl ds other node name i (consumer_initialize_ix pl env) s))"
  by (rule send_quiet)
    (auto simp: execute_consumer_initialize [OF assms] consumer_initialize_def
      bind_res_Inr_iff init_account_Inr_iff quiet_def)

lemma coordinator_quiet:
  assumes "discriminators_ok pl" "length img = 32"
  shows "quiet pl (fst s) (fst (send_and_continue pl ds other node name i (coordinator_initialize_ix pl env img) s))"
  by (rule send_quiet)
    (auto simp: execute_coordinator_initialize [OF assms] initialize_Inr_iff quiet_def)

lemma client_setup_quiet:
  assumes "programs_distinct pl" "discriminators_ok pl" "length img = 32"
  shows "quiet pl (fst s) (fst (snd (client_setup pl ds other node host pl env img sel s)))"
proof -
  note r = router_quiet [OF assms(1)] and c = consumer_quiet [OF assms(1,2)] and k = coordinator_quiet [OF assms(2,3)]
  have q: "quiet pl w (fst s') \<Longrightarrow> target_program ix = router_id pl \<Longrightarrow>
      quiet pl w (fst (send_and_continue pl ds other node name i ix s'))"
    "quiet pl w (fst s') \<Longrightarrow> quiet pl w (fst (send_and_continue pl ds other node name i (consumer_initialize_ix pl env) s'))"
    "quiet pl w (fst s') \<Longrightarrow> quiet pl w (fst (send_and_continue pl ds other node name i (coordinator_initialize_ix pl env img) s'))"
    for w s' ix name i
    by (blast intro: quiet_trans r c k)+
  show ?thesis
    unfolding client_setup_def Let_def
    by (intro then_do_keeps [where R = "\<lambda>s'. quiet pl (fst s) (fst s')"])
      (auto simp: query_def quiet_refl router_target intro!: q)
qed

lemma send_executed:
  assumes "delivery_of node i \<noteq> Lost" "execute pl ds other ix (fst s) = Inr w'"
  shows "send_and_continue pl ds other node name i ix s =
     (w', snd s @ [if delivery_of node i = Delivered then ok_line node name i else failed_line node name i])"
  using assms by (cases "delivery_of node i") (simp_all add: send_and_continue_def send_transaction_def)

text \<open>The chain after the two transactions to the router, delivered or not.\<close>

definition after_router ::
  "'f platform \<Rightarrow> (u8 list \<Rightarrow> (seal \<times> u8 list) option) \<Rightarrow> ('f \<Rightarrow> instruction \<Rightarrow> 'f option) \<Rightarrow> node \<Rightarrow> client_env \<Rightarrow>
   pubkey \<Rightarrow> u8 list \<Rightarrow> 'f ledger \<Rightarrow> 'f ledger"
where
  "after_router pl ds other node env program_data sel w =
     snd (send_transaction pl ds other node 1 (add_verifier_ix pl env program_data sel)
       (snd (send_transaction pl ds other node 0 (router_initialize_ix pl env) w)))"

lemma client_setup_initialises:
  assumes "platform_ok pl" "programs_distinct pl" "discriminators_ok pl" "length img = 32"
    and create: "create_account pl (foreign (after_router pl ds other node env program_data sel (fst s)))
        (payer_pk env) (registry_key pl) 48 = Some h"
      "create_account pl h (payer_pk env) (config_key pl) 80 = Some j"
    and "coord (fst s) (config_key pl) = None" "cons (fst s) (config_key pl) = None"
    and "coord (fst s) (registry_key pl) = None" "cons (fst s) (registry_key pl) = None"
    and "\<And>i. answers node i" "delivery_of node 2 \<noteq> Lost" "delivery_of node 3 \<noteq> Lost"
    and "pubkey_of_text host GROTH16_PROGRAM_DATA = Some program_data"
  obtains s' ls where "client_setup pl ds other node host pl env img sel s = (Inr (), s')"
    "coord (fst s') (config_key pl) =
      Some (Config_account \<lparr>image_id = img, authority = payer_pk env, verified_count = 0\<rparr>)"
    "cons (fst s') (registry_key pl) = Some \<lparr>reg_count = 0, reg_authority = payer_pk env\<rparr>"
    "snd s' = ls @ [if delivery_of node 3 = Delivered then ok_line node ''coordinator::initialize'' 3
       else failed_line node ''coordinator::initialize'' 3]"
proof -
  have ne: "config_key pl \<noteq> registry_key pl"
    using assms(1,2) unfolding config_key_def registry_key_def platform_ok_def programs_distinct_def by auto
  have q: "query node i v = (Inr (), v)" for i and v :: "'a desk"
    using assms(11) by (simp add: query_def require_def)
  let ?send = "send_and_continue pl ds other node" and ?w = "fst s"
  let ?s0 = "say [newline # chars ''[0a] verifier_router::initialize...''] s"
  obtain f l where f: "?send ''router initialize'' 0 (router_initialize_ix pl env) ?s0 = (?w\<lparr>foreign := f\<rparr>, l)"
    using send_to_router [OF assms(2) router_target(1), of ds other node _ _ env ?s0] by fastforce
  let ?s1 = "say [newline # chars ''[0b] verifier_router::add_verifier...''] (?w\<lparr>foreign := f\<rparr>, l)"
  obtain g l' where g: "?send ''add_verifier'' 1 (add_verifier_ix pl env program_data sel) ?s1 =
      (?w\<lparr>foreign := f\<rparr>\<lparr>foreign := g\<rparr>, l')"
    using send_to_router [OF assms(2) router_target(2), of ds other node _ _ env program_data sel ?s1] by fastforce
  let ?w1 = "?w\<lparr>foreign := f\<rparr>\<lparr>foreign := g\<rparr>"
  let ?s2 = "say [newline # chars ''[1/3] consumer::initialize...''] (?w1, l')"
  have "snd (send_transaction pl ds other node 0 (router_initialize_ix pl env) ?w) = ?w\<lparr>foreign := f\<rparr>"
    using send_fst [of pl ds other node "''router initialize''" 0 "router_initialize_ix pl env" ?s0] by (simp add: f del: chars_simps)
  moreover have "snd (send_transaction pl ds other node 1 (add_verifier_ix pl env program_data sel) (?w\<lparr>foreign := f\<rparr>)) = ?w1"
    using send_fst [of pl ds other node "''add_verifier''" 1 "add_verifier_ix pl env program_data sel" ?s1] by (simp add: g del: chars_simps One_nat_def)
  ultimately have h: "create_account pl g (payer_pk env) (registry_key pl) 48 = Some h"
    using create(1) by (simp add: after_router_def)
  let ?w2 = "?w1\<lparr>foreign := h, cons := (cons ?w)(registry_key pl \<mapsto> \<lparr>reg_count = 0, reg_authority = payer_pk env\<rparr>)\<rparr>"
  have "execute pl ds other (consumer_initialize_ix pl env) (fst ?s2) = Inr ?w2"
    using h assms(9,10)
    by (simp add: execute_consumer_initialize [OF assms(2,3)] consumer_initialize_def init_account_def)
  from send_executed [OF assms(12) this] obtain l2 where
    c: "?send ''consumer::initialize'' 2 (consumer_initialize_ix pl env) ?s2 = (?w2, l2)" by blast
  let ?w3 = "?w2\<lparr>foreign := j, coord := (coord ?w)(config_key pl \<mapsto> Config_account
     \<lparr>image_id = img, authority = payer_pk env, verified_count = 0\<rparr>)\<rparr>"
  let ?s3 = "say [newline # chars ''[2/3] coordinator::initialize...''] (?w2, l2)"
  let ?name = "''coordinator::initialize''"
  have k: "?send ?name 3 (coordinator_initialize_ix pl env img) ?s3 =
      (?w3, snd ?s3 @ [if delivery_of node 3 = Delivered then ok_line node ?name 3 else failed_line node ?name 3])"
    by (rule send_executed [OF assms(13)])
      (use create(2) assms(7,8) ne in \<open>simp add: execute_coordinator_initialize [OF assms(3,4)] initialize_def init_account_def\<close>)
  show ?thesis
  proof (rule that)
    show "client_setup pl ds other node host pl env img sel s = (Inr (), (?w3, snd ?s3 @
        [if delivery_of node 3 = Delivered then ok_line node ?name 3 else failed_line node ?name 3]))"
      unfolding client_setup_def Let_def q then_do_simps f assms(14) ok_or_simps g c k by (rule refl)
  qed (use ne in simp_all)
qed

section \<open>The verification the client sends\<close>

text \<open>The client sends ten accounts; the coordinator's struct has eleven (the journal account is new).\<close>

lemma client_verification_fails:
  assumes "discriminators_ok pl" "verify_predicate_ix pl env sl sel = (Inr ix :: ('e, _) res)"
  shows "execute pl ds other ix w \<noteq> Inr w'"
proof -
  obtain d where ix: "target_program ix = coordinator_id pl" "metas ix = verify_metas_sent pl env sel"
      "payload ix = discriminator pl ''verify_predicate'' @ d"
    using assms(2) by (auto simp: verify_predicate_ix_def bind_res_Inr_iff)
  have "bind_verify_accounts (verify_metas_sent pl env sel) = Inl (Fault AccountNotEnoughKeys)"
    by (simp add: bind_verify_accounts_def verify_metas_sent_def)
  then show ?thesis
    using discriminator_length [OF assms(1)] discriminators_distinct [OF assms(1)]
    by (auto simp: execute_def coordinator_entry_def ix bind_res_Inr_iff)
qed

lemma client_verification_lost:
  assumes "discriminators_ok pl" "verify_predicate_ix pl env sl sel = (Inr ix :: ('e, _) res)"
  shows "send_transaction pl ds other node i ix w = (Inl (Fault Transaction_failed), w)"
  using client_verification_fails [OF assms]
  by (cases "execute pl ds other ix w"; cases "delivery_of node i") (auto simp: send_transaction_def)

lemma client_inputs_id_length:
  assumes "client_inputs host = Inr (sl, journal, img, sel)"
  shows "length img = 32"
proof -
  obtain s where "client_image_id s = (Inr img :: (client_error, _) res)"
    using assms by (auto simp: client_inputs_def bind_res_Inr_iff)
  then obtain cs ids where "length cs = 8" "list_all2 word_text cs ids" "img = concat (map (to_le 4) ids)"
    unfolding client_image_id_iff by blast
  then have "length ids = 8" "img = concat (map (to_le 4) ids)" by (auto dest: list_all2_lengthD)
  then show ?thesis by (simp add: length_concat comp_def sum_list_triv)
qed

lemma client_main_quiet:
  assumes "programs_distinct pl" "discriminators_ok pl" "names_programs pl host"
  shows "quiet pl w (fst (snd (client_main pl ds other node host w)))"
    "fst (client_main pl ds other node host w) \<noteq> Inr ()"
proof -
  note s = client_setup_quiet [OF assms(1,2) client_inputs_id_length] and v = client_verification_lost [OF assms(2)]
    and own = client_programs_own [OF assms(3)]
  have q: "quiet pl w (fst s') \<Longrightarrow> client_inputs host = Inr (sl, journal, img, sel) \<Longrightarrow>
      quiet pl w (fst (snd (client_setup pl ds other node host pl env img sel s')))" for s' sl journal img sel env
    using s quiet_trans by blast
  note keeps = then_do_keeps [where R = "\<lambda>s'. quiet pl w (fst s')"]
  show "quiet pl w (fst (snd (client_main pl ds other node host w)))"
    unfolding client_main_def Let_def
    by (rule keeps, simp add: quiet_refl, clarsimp)
      (intro keeps; clarsimp simp: query_def quiet_refl dest!: own; intro keeps;
        auto simp: query_def v quiet_refl intro: q)
  show "fst (client_main pl ds other node host w) \<noteq> Inr ()"
  proof
    assume "fst (client_main pl ds other node host w) = Inr ()"
    then obtain s' where "client_main pl ds other node host w = (Inr (), s')" by (metis prod.collapse)
    then show False unfolding client_main_def Let_def by (auto simp: then_do_Inr_iff v dest!: own)
  qed
qed

text \<open>None of the lines it prints before its last transaction is the line of success.\<close>

definition no_success :: "str list \<Rightarrow> bool" where
  "no_success ls \<longleftrightarrow> list_all (\<lambda>l. \<exists>a b rest. l = a # b # rest \<and> b \<noteq> check_mark) ls"

lemma no_success_simps [simp]:
  "no_success []" "no_success (ls @ ls') \<longleftrightarrow> no_success ls \<and> no_success ls'"
  "no_success ((a # b # rest) # ls) \<longleftrightarrow> b \<noteq> check_mark \<and> no_success ls"
  by (auto simp: no_success_def)

lemma no_success_lines:
  "no_success (input_lines sl journal sel)" "no_success (balance_line node # ls) \<longleftrightarrow> no_success ls"
  "no_success (address_lines own host sel)"
  by (simp_all add: input_lines_def balance_line_def address_lines_def check_mark_def)

lemma send_no_success:
  assumes "no_success (snd s)" "name = a # b # rest" "of_char b \<noteq> check_mark"
  shows "no_success (snd (send_and_continue pl ds other node name i ix s))"
  using assms by (auto simp: send_and_continue_def ok_line_def failed_line_def split: prod.split sum.split)

lemma setup_no_success:
  assumes "no_success (snd s)"
  shows "no_success (snd (snd (client_setup pl ds other node host own env img sel s)))"
  unfolding client_setup_def Let_def
  by (intro then_do_keeps [where R = "\<lambda>s'. no_success (snd s')"])
    (auto simp: query_def assms check_mark_def intro!: send_no_success)

lemma client_prints_no_success:
  assumes "programs_distinct pl" "discriminators_ok pl" "names_programs pl host"
  shows "hd (success_lines node) \<notin> set (snd (snd (client_main pl ds other node host w)))"
proof -
  note v = client_verification_lost [OF assms(2)] and own = client_programs_own [OF assms(3)]
  note keeps = then_do_keeps [where R = "\<lambda>s'. no_success (snd s')"]
  have "no_success (snd (snd (client_main pl ds other node host w)))"
    unfolding client_main_def Let_def
    by (rule keeps, simp, clarsimp)
      (intro keeps; clarsimp simp: query_def no_success_lines check_mark_def dest!: own; intro keeps;
        auto simp: query_def v check_mark_def no_success_lines intro: setup_no_success)
  then show ?thesis by (fastforce simp: no_success_def success_lines_def list_all_iff)
qed

definition demo_response :: wrap_response where
  "demo_response = \<lparr>seal_b64 = replicate 256 7, journal_b64 = [3], response_id_hex = demo_id_text\<rparr>"

definition demo_host :: client_host where
  "demo_host = \<lparr>response_file = Some [], read_response = (\<lambda>_. Some demo_response), base64 = (\<lambda>s. Some (map of_nat s)),
     keypair = Some [6], pubkey_of_text = map_of [(VERIFIER_ROUTER_ID, [3]), (GROTH16_VERIFIER_ID, [8]),
       (COORDINATOR_ID, [1]), (CONSUMER_ID, [2]), (GROTH16_PROGRAM_DATA, [9])], show_pubkey = map unat\<rparr>"

definition demo_node :: node where
  "demo_node = \<lparr>answers = (\<lambda>_. True), delivery_of = (\<lambda>i. if i = 3 then Unconfirmed else Delivered),
     balance_lamports = 5000, signature_text = show_nat, failure_text = show_nat\<rparr>"

lemma demo_programs: "programs_distinct demo_platform"
  by (simp add: programs_distinct_def demo_platform_def)

lemma demo_host_programs:
  "names_programs demo_platform demo_host" "pubkey_of_text demo_host GROTH16_VERIFIER_ID = Some [8]"
  "pubkey_of_text demo_host GROTH16_PROGRAM_DATA = Some [9]"
  by (simp_all add: names_programs_def demo_platform_def demo_host_def VERIFIER_ROUTER_ID_def
      GROTH16_VERIFIER_ID_def COORDINATOR_ID_def CONSUMER_ID_def GROTH16_PROGRAM_DATA_def)

text \<open>
  C37: a run of the client configures the coordinator with the image id of the service's answer
  and its own key as authority, and creates the consumer's registry, under these conditions:
  neither account exists before, the answer is well formed, the client names the deployed
  programs, the node answers, the transactions of the two initialisations are not lost, and
  the system program creates the registry in the state the two transactions to the router
  leave, and the configuration in the state after that. The transactions to the router may
  fail or be lost. When the confirmation does not come back, the client prints that the
  initialisation failed all the same.
\<close>

theorem client_configures_coordinator:
  assumes "platform_ok pl" "programs_distinct pl" "discriminators_ok pl"
    and create: "create_account pl (foreign (after_router pl ds other node
          \<lparr>payer_pk = payer, groth16_id = groth16\<rparr> program_data (take 4 sl) w)) payer (registry_key pl) 48 = Some h"
      "create_account pl h payer (config_key pl) 80 = Some k"
    and "coord w (config_key pl) = None" "cons w (config_key pl) = None"
    and "coord w (registry_key pl) = None" "cons w (registry_key pl) = None"
    and "response_file host = Some json" "read_response host json = Some resp" "keypair host = Some payer"
    and "base64 host (seal_b64 resp) = Some sl" "256 \<le> length sl" "base64 host (journal_b64 resp) = Some j"
    and "parse_image_id (response_id_hex resp) = Inr ids"
    and "\<And>i. answers node i" "delivery_of node 2 \<noteq> Lost" "delivery_of node 3 \<noteq> Lost"
    and "names_programs pl host" "pubkey_of_text host GROTH16_VERIFIER_ID = Some groth16"
    and "pubkey_of_text host GROTH16_PROGRAM_DATA = Some program_data"
    and "client_main pl ds other node host w = (r, (w', printed_lines))"
  shows "coord w' (config_key pl) = Some (Config_account
       \<lparr>image_id = concat (map (to_le 4) ids), authority = payer, verified_count = 0\<rparr>) \<and>
     cons w' (registry_key pl) = Some \<lparr>reg_count = 0, reg_authority = payer\<rparr> \<and>
     (if delivery_of node 3 = Delivered then ok_line node ''coordinator::initialize'' 3
      else failed_line node ''coordinator::initialize'' 3) \<in> set printed_lines"
proof -
  have inp: "client_inputs host = Inr (sl, j, concat (map (to_le 4) ids), take 4 sl)"
    using assms(10,11,13-15) client_reads_accepted [OF assms(16), where 'e = client_error]
    by (simp add: client_inputs_def slice_def)
  define env where "env = \<lparr>payer_pk = payer, groth16_id = groth16\<rparr>"
  have own: "client_programs pl host = Inr (pl, groth16)"
    using assms(20,21) by (simp add: client_programs_def names_programs_def)
  have p: "payer_pk env = payer" by (simp add: env_def)
  define s0 where "s0 = say (address_lines pl host (take 4 sl)) (say [balance_line node]
    (say [chars ''payer: '' @ show_pubkey host payer] (say (input_lines sl j (take 4 sl)) (w, []))))"
  have w0: "fst s0 = w" by (simp add: s0_def)
  let ?img = "concat (map (to_le 4) ids)"
  have c: "create_account pl (foreign (after_router pl ds other node env program_data (take 4 sl) (fst s0)))
      (payer_pk env) (registry_key pl) 48 = Some h" "create_account pl h (payer_pk env) (config_key pl) 80 = Some k"
    using create by (simp_all add: p w0 env_def)
  obtain s1 ls where s1: "client_setup pl ds other node host pl env ?img (take 4 sl) s0 = (Inr (), s1)"
      "coord (fst s1) (config_key pl) = Some (Config_account
         \<lparr>image_id = ?img, authority = payer_pk env, verified_count = 0\<rparr>)"
      "cons (fst s1) (registry_key pl) = Some \<lparr>reg_count = 0, reg_authority = payer_pk env\<rparr>"
      "snd s1 = ls @ [if delivery_of node 3 = Delivered then ok_line node ''coordinator::initialize'' 3
         else failed_line node ''coordinator::initialize'' 3]"
    using client_setup_initialises [OF assms(1-3) client_inputs_id_length [OF inp] c
        assms(6-9) [folded w0] assms(17-19,22)] by metis
  obtain ix where ix: "verify_predicate_ix pl env sl (take 4 sl) = (Inr ix :: (client_error, _) res)"
    using assms(14) by (simp add: verify_predicate_ix_def slice_def)
  have q: "query node i v = (Inr (), v)" for i and v :: "'a desk"
    using assms(17) by (simp add: query_def require_def)
  have "client_main pl ds other node host w = (Inl (Fault Transaction_failed),
      (fst s1, snd s1 @ [newline # chars ''[3/3] coordinator::verify_predicate...'']))"
    unfolding client_main_def Let_def
    by (simp add: inp assms(12) q own env_def [symmetric] s0_def [symmetric] s1(1) ix
        client_verification_lost [OF assms(3) ix] del: chars_simps) (simp add: say_def del: chars_simps)
  then have "w' = fst s1" "printed_lines = snd s1 @ [newline # chars ''[3/3] coordinator::verify_predicate...'']"
    using assms(23) by (simp_all del: chars_simps)
  with s1(2-4) p show ?thesis by (auto simp del: chars_simps)
qed

theorem client_configures_coordinator_witness:
  "coord (fst (snd (client_main demo_platform demo_decode_seal (\<lambda>f ix. None) demo_node demo_host (genesis ()))))
     (config_key demo_platform) = Some (Config_account
       \<lparr>image_id = concat (replicate 8 [7, 0, 0, 0]), authority = [6], verified_count = 0\<rparr>) \<and>
   failed_line demo_node ''coordinator::initialize'' 3 \<in>
     set (snd (snd (client_main demo_platform demo_decode_seal (\<lambda>f ix. None) demo_node demo_host (genesis ()))))"
proof -
  have c: "create_account demo_platform f [6] key n = Some ()" for f key n
    by (simp add: demo_platform_def)
  have h: "response_file demo_host = Some []" "read_response demo_host [] = Some demo_response"
      "keypair demo_host = Some [6]" "base64 demo_host (seal_b64 demo_response) = Some (replicate 256 7)"
      "256 \<le> length (replicate 256 (7 :: u8))" "base64 demo_host (journal_b64 demo_response) = Some [3]"
      "parse_image_id (response_id_hex demo_response) = Inr (replicate 8 7)"
    by (simp_all add: demo_host_def demo_response_def demo_id)
  have d: "delivery_of demo_node 3 = Unconfirmed" by (simp add: demo_node_def)
  have n: "answers demo_node i" "delivery_of demo_node 2 \<noteq> Lost" "delivery_of demo_node 3 \<noteq> Lost" for i
    by (simp_all add: demo_node_def)
  have g: "coord (genesis ()) k = None" "cons (genesis ()) k = None" for k by (simp_all add: genesis_def)
  have "map (to_le 4) (replicate 8 (7 :: u32)) = replicate 8 [7, 0, 0, 0]"
    by (simp add: to_le_numeral)
  then show ?thesis
    using client_configures_coordinator [OF demo_platform_ok demo_programs demo_discriminators c c
        g(1) g(2) g(1) g(2) h n demo_host_programs, where ds = demo_decode_seal and other = "\<lambda>f ix. None" and
        r = "fst (client_main demo_platform demo_decode_seal (\<lambda>f ix. None) demo_node demo_host (genesis ()))"]
    by (simp add: d prod_eq_iff)
qed

text \<open>
  C38: the client never gets its proof verified: whatever the ledger, the files, the node and
  the router do, as long as the programs it names are the deployed ones, it ends with an
  error, without its lines of success, no nullifier is verified, of the coordinator's accounts
  only the configuration can change and of the consumer's only the registry. (The router's
  state may change.) It was written for an earlier interface: it stores no journal, names no
  journal account and sends no entry index.
\<close>

theorem client_never_verifies:
  assumes "programs_distinct pl" "discriminators_ok pl" "names_programs pl host"
    and "client_main pl ds other node host w = (r, (w', printed_lines))"
  shows "r \<noteq> Inr () \<and> hd (success_lines node) \<notin> set printed_lines \<and>
     verified w' = verified w \<and> (\<forall>k. k \<noteq> config_key pl \<longrightarrow> coord w' k = coord w k) \<and>
     (\<forall>k. k \<noteq> registry_key pl \<longrightarrow> cons w' k = cons w k)"
  using client_main_quiet [OF assms(1-3), where w = w and ds = ds and other = other and node = node] assms(4)
    client_prints_no_success [OF assms(1-3), where w = w and ds = ds and other = other and node = node]
  by (simp add: quiet_def verified_def)

theorem client_never_verifies_witness:
  "verified (fst (snd (client_main demo_platform demo_decode_seal (\<lambda>f ix. None) demo_node demo_host demo_ledger))) = []"
  using client_never_verifies [OF demo_programs demo_discriminators demo_host_programs(1),
      where ds = demo_decode_seal and other = "\<lambda>f ix. None" and node = demo_node and w = demo_ledger and
      r = "fst (client_main demo_platform demo_decode_seal (\<lambda>f ix. None) demo_node demo_host demo_ledger)"]
  by (simp add: verified_def demo_ledger_def prod_eq_iff)

end
