(* ===== verification/Submission.thy ===== *)
theory Submission
  imports Devnet_Client
begin

text \<open>
  A submission against the present interface of the coordinator, as the integration test
  (\<open>coordinator/programs/coordinator/tests/verify_predicate.rs\<close>) makes it: it configures both
  programs, stores the journal, submits the proof with the nullifier it claims, and checks
  the consumer's count. The state of the verifier router, which the test sets up, is part
  of the foreign state of the ledger.
\<close>

section \<open>The instructions of the test\<close>

definition submit_init_ix :: "'f platform \<Rightarrow> client_env \<Rightarrow> u8 list \<Rightarrow> instruction" where
  "submit_init_ix pl env img =
     \<lparr>target_program = coordinator_id pl,
      metas = [meta_new (config_key pl) False, meta_new (payer_pk env) True, meta_readonly (system_id pl) False],
      payload = discriminator pl ''initialize'' @ img\<rparr>"

definition submit_store_ix :: "'f platform \<Rightarrow> client_env \<Rightarrow> u8 list \<Rightarrow> instruction" where
  "submit_store_ix pl env journal =
     \<lparr>target_program = coordinator_id pl,
      metas = [meta_new (journal_key pl (sha256 pl journal)) False, meta_new (payer_pk env) True,
        meta_readonly (system_id pl) False],
      payload = discriminator pl ''store_journal'' @ to_le 4 (of_nat (length journal) :: u32) @ journal\<rparr>"

definition submit_verify_ix ::
  "'f platform \<Rightarrow> client_env \<Rightarrow> u8 list \<Rightarrow> u8 list \<Rightarrow> u8 list \<Rightarrow> ('e, instruction) res"
where
  "submit_verify_ix pl env sl journal claimed =
     bind_res (slice sl 0 4) (\<lambda>sel.
     bind_res (slice sl 0 64) (\<lambda>pi_a.
     bind_res (slice sl 64 192) (\<lambda>pi_b.
     bind_res (slice sl 192 256) (\<lambda>pi_c.
       Inr \<lparr>target_program = coordinator_id pl,
         metas = [meta_new (config_key pl) False, meta_readonly (journal_key pl (sha256 pl journal)) False,
           meta_new (nullifier_key pl claimed) False, meta_readonly (router_id pl) False,
           meta_readonly (router_state pl) False, meta_readonly (verifier_key pl sel) False,
           meta_readonly (groth16_id env) False, meta_readonly (consumer_id pl) False,
           meta_new (registry_key pl) False, meta_new (payer_pk env) True, meta_readonly (system_id pl) False],
         payload = discriminator pl ''verify_predicate'' @ sel @ negate_g1 pi_a @ pi_b @ pi_c @
           sha256 pl journal @ [0] @ claimed\<rparr>))))"

text \<open>
  The second half of the test: every transaction and the final assertion are expected to
  succeed.
\<close>

definition verify_and_forward_to_consumer ::
  "'f platform \<Rightarrow> (u8 list \<Rightarrow> (seal \<times> u8 list) option) \<Rightarrow> ('f \<Rightarrow> instruction \<Rightarrow> 'f option) \<Rightarrow> client_env \<Rightarrow>
   u8 list \<Rightarrow> u8 list \<Rightarrow> u8 list \<Rightarrow> u8 list \<Rightarrow> 'f ledger \<Rightarrow> ('e, 'f ledger) res"
where
  "verify_and_forward_to_consumer pl ds other env img sl journal claimed w =
     bind_res (unwrap_result (execute pl ds other (consumer_initialize_ix pl env) w)) (\<lambda>w.
     bind_res (unwrap_result (execute pl ds other (submit_init_ix pl env img) w)) (\<lambda>w.
     bind_res (unwrap_result (execute pl ds other (submit_store_ix pl env journal) w)) (\<lambda>w.
     bind_res (submit_verify_ix pl env sl journal claimed) (\<lambda>ix.
     bind_res (unwrap_result (execute pl ds other ix w)) (\<lambda>w.
     bind_res (unwrap (cons w (registry_key pl))) (\<lambda>reg.
       if reg_count reg = 1 then Inr w else Inl Panic))))))"

section \<open>What the instructions do\<close>

lemma execute_submit_init:
  assumes "discriminators_ok pl" "length img = 32"
  shows "execute pl ds other (submit_init_ix pl env img) w = map_error Handler
     (initialize pl \<lparr>ia_config = config_key pl, ia_authority = payer_pk env, ia_signed = True,
        ia_system = system_id pl\<rparr> img w)"
  using assms discriminator_length [OF assms(1)]
  by (simp add: execute_def submit_init_ix_def coordinator_entry_def borsh_array_def
      bind_init_accounts_def meta_new_def meta_readonly_def writable_def Let_def)

lemma execute_submit_store:
  assumes "discriminators_ok pl" "length journal < 2 ^ 32"
  shows "execute pl ds other (submit_store_ix pl env journal) w = map_error Handler
     (store_journal pl \<lparr>sa_journal = journal_key pl (sha256 pl journal), sa_payer = payer_pk env, sa_signed = True,
        sa_system = system_id pl\<rparr> journal w)"
  using assms discriminator_length [OF assms(1)] discriminators_distinct [OF assms(1)]
    borsh_bytes_encode [OF assms(2), of "[]"]
  by (simp add: execute_def submit_store_ix_def coordinator_entry_def borsh_encode_bytes_def
      bind_store_accounts_def meta_new_def meta_readonly_def writable_def Let_def)

lemma execute_submit_verify:
  assumes "discriminators_ok pl" "length seal_bytes = 256" "length claimed = 32" "length (sha256 pl journal) = 32"
    and "submit_verify_ix pl env seal_bytes journal claimed = (Inr ix :: ('e, _) res)"
    and "\<And>rest. ds (take 4 seal_bytes @ negate_g1 (take 64 seal_bytes) @ drop 64 seal_bytes @ rest) = Some (sl, rest)"
    and "selector sl = take 4 seal_bytes"
  shows "execute pl ds other ix w = map_error Handler
     (verify_predicate pl (honest_accounts pl sl (sha256 pl journal) claimed (router_state pl) (groth16_id env) (payer_pk env))
        sl (sha256 pl journal) 0 claimed w)"
proof -
  have s: "take 128 (drop 64 seal_bytes) @ drop 192 seal_bytes = drop 64 seal_bytes"
    using append_take_drop_id [of 128 "drop 64 seal_bytes"] by simp
  have ix: "target_program ix = coordinator_id pl"
    "metas ix = verify_metas (honest_accounts pl sl (sha256 pl journal) claimed (router_state pl) (groth16_id env) (payer_pk env))"
    "payload ix = discriminator pl ''verify_predicate'' @ take 4 seal_bytes @ negate_g1 (take 64 seal_bytes) @
       drop 64 seal_bytes @ sha256 pl journal @ [0] @ claimed"
    using assms(2,5,7)
    by (auto simp: submit_verify_ix_def slice_def verify_metas_def honest_accounts_def meta_new_def meta_readonly_def s)
  show ?thesis
    using discriminator_length [OF assms(1)] discriminators_distinct [OF assms(1)] assms(3,4)
    by (simp add: execute_def coordinator_entry_def ix assms(6) borsh_u8_def borsh_array_def)
qed

lemma program_keys_differ:
  assumes "platform_ok pl" "programs_distinct pl"
  shows "config_key pl \<noteq> registry_key pl" "journal_key pl d \<noteq> registry_key pl" "nullifier_key pl n \<noteq> registry_key pl"
  using assms
  unfolding config_key_def registry_key_def journal_key_def nullifier_key_def platform_ok_def programs_distinct_def
  by auto

section \<open>What becomes of a submission\<close>

text \<open>The ledger after the two programs are configured and the journal is stored.\<close>

definition prepared :: "'f platform \<Rightarrow> pubkey \<Rightarrow> u8 list \<Rightarrow> u8 list \<Rightarrow> 'f \<Rightarrow> 'f ledger" where
  "prepared pl payer img journal f =
     \<lparr>coord = [config_key pl \<mapsto> Config_account \<lparr>image_id = img, authority = payer, verified_count = 0\<rparr>,
        journal_key pl (sha256 pl journal) \<mapsto> Journal_account journal],
      cons = [registry_key pl \<mapsto> \<lparr>reg_count = 0, reg_authority = payer\<rparr>], foreign = f, events = []\<rparr>"

text \<open>
  The accounts a submission creates, in order, with their sizes, and the foreign state after
  the creations if the system program makes all of them.
\<close>

definition submission_accounts :: "'f platform \<Rightarrow> u8 list \<Rightarrow> u8 list \<Rightarrow> (pubkey \<times> nat) list" where
  "submission_accounts pl journal claimed =
     [(registry_key pl, 48), (config_key pl, 80), (journal_key pl (sha256 pl journal), 12 + length journal),
      (nullifier_key pl claimed, 8)]"

primrec create_accounts :: "'f platform \<Rightarrow> pubkey \<Rightarrow> (pubkey \<times> nat) list \<Rightarrow> 'f \<Rightarrow> 'f option" where
  "create_accounts pl payer [] f = Some f"
| "create_accounts pl payer (a # as) f =
     (case create_account pl f payer (fst a) (snd a) of None \<Rightarrow> None | Some f' \<Rightarrow> create_accounts pl payer as f')"

lemma create_accounts_Cons:
  "create_accounts pl payer (a # as) f = Some g \<longleftrightarrow>
     (\<exists>f'. create_account pl f payer (fst a) (snd a) = Some f' \<and> create_accounts pl payer as f' = Some g)"
  by (simp split: option.split)

text \<open>The router's accounts pass and it accepts the seal for the image and the digest.\<close>

definition router_accepts :: "'f platform \<Rightarrow> 'f \<Rightarrow> pubkey \<Rightarrow> seal \<Rightarrow> u8 list \<Rightarrow> u8 list \<Rightarrow> bool" where
  "router_accepts pl f groth16 sl img dg \<longleftrightarrow>
     is_router pl f (router_state pl) \<and> is_verifier_entry pl f (verifier_key pl (selector sl)) \<and>
     router_verify pl f (router_state pl) (verifier_key pl (selector sl)) groth16 sl img dg"

lemma submission_prepares:
  assumes "platform_ok pl" "programs_distinct pl" "discriminators_ok pl"
    and create: "create_accounts pl (payer_pk env) (submission_accounts pl journal claimed) f = Some f4"
    and img: "length img = 32" and len: "length journal \<le> 2048"
  obtains w1 w2 f3 where "execute pl ds other (consumer_initialize_ix pl env) (genesis f) = Inr w1"
    "execute pl ds other (submit_init_ix pl env img) w1 = Inr w2"
    "execute pl ds other (submit_store_ix pl env journal) w2 = Inr (prepared pl (payer_pk env) img journal f3)"
    "create_account pl f3 (payer_pk env) (nullifier_key pl claimed) 8 = Some f4"
proof -
  have d32: "length (sha256 pl journal) = 32" using assms(1) by (simp add: platform_ok_def)
  note keys = keys_distinct(1) [OF assms(1) d32 d32 d32 d32] program_keys_differ [OF assms(1,2)]
  obtain f1 f2 f3 where f1: "create_account pl f (payer_pk env) (registry_key pl) 48 = Some f1"
    and f2: "create_account pl f1 (payer_pk env) (config_key pl) 80 = Some f2"
    and f3: "create_account pl f2 (payer_pk env) (journal_key pl (sha256 pl journal)) (12 + length journal) = Some f3"
      "create_account pl f3 (payer_pk env) (nullifier_key pl claimed) 8 = Some f4"
    using create by (auto simp: submission_accounts_def create_accounts_Cons simp del: create_accounts.simps(2))
  let ?reg = "[registry_key pl \<mapsto> \<lparr>reg_count = 0, reg_authority = payer_pk env\<rparr>]"
  let ?cfg = "[config_key pl \<mapsto> Config_account \<lparr>image_id = img, authority = payer_pk env, verified_count = 0\<rparr>]"
  let ?w1 = "\<lparr>coord = (\<lambda>_. None), cons = ?reg, foreign = f1, events = []\<rparr> :: 'a ledger"
  let ?w2 = "\<lparr>coord = ?cfg, cons = ?reg, foreign = f2, events = []\<rparr> :: 'a ledger"
  show ?thesis
  proof (rule that [of ?w1 ?w2 f3])
    show "execute pl ds other (consumer_initialize_ix pl env) (genesis f) = Inr ?w1"
      using f1 by (simp add: execute_consumer_initialize [OF assms(2,3)] consumer_initialize_def init_account_def genesis_def)
    show "execute pl ds other (submit_init_ix pl env img) ?w1 = Inr ?w2"
      using f2 keys by (simp add: execute_submit_init [OF assms(3) img] initialize_def init_account_def)
    have "length journal < 2 ^ 32" using len by simp
    then show "execute pl ds other (submit_store_ix pl env journal) ?w2 = Inr (prepared pl (payer_pk env) img journal f3)"
      using f3 keys len by (simp add: execute_submit_store [OF assms(3)] store_journal_Inr_iff prepared_def)
  qed (rule f3(2))
qed

text \<open>A verification the router does not accept fails with an error.\<close>

lemma honest_rejected:
  assumes "coord w (config_key pl) = Some (Config_account cfg)"
    and "coord w (journal_key pl (sha256 pl data)) = Some (Journal_account data)"
    and "coord w (nullifier_key pl n) = None" "cons w (nullifier_key pl n) = None"
    and "decode_nullifier_from_journal data idx = Inr n"
    and "create_account pl (foreign w) caller (nullifier_key pl n) 8 = Some f"
    and "\<not> router_accepts pl f vp sl (image_id cfg) (sha256 pl data)"
  shows "\<exists>e. verify_predicate pl (honest_accounts pl sl (sha256 pl data) n (router_state pl) vp caller) sl
     (sha256 pl data) idx n w = Inl (Fault e)"
  using assms
  by (auto simp: verify_predicate_def verify_accounts_ok_def honest_accounts_def load_config_def load_journal_def
      init_account_def map_error_def router_accepts_def require_def Let_def)

text \<open>
  When the four accounts can be created, a submission goes through exactly when the router,
  in the state after the creations, accepts the proof; otherwise the test panics.
\<close>

lemma submission_outcome:
  assumes "platform_ok pl" "programs_distinct pl" "discriminators_ok pl"
    and create: "create_accounts pl (payer_pk env) (submission_accounts pl journal claimed) f = Some f4"
    and out: "output_ok out" "new_nullifiers out \<noteq> []" "length (output_words out @ trailing) \<le> 512"
    and journal: "journal = serialise (output_words out @ trailing)" "claimed = fst (hd (new_nullifiers out))"
    and img: "length img = 32" and seal: "length seal_bytes = 256"
    and decode: "\<And>rest. ds (take 4 seal_bytes @ negate_g1 (take 64 seal_bytes) @ drop 64 seal_bytes @ rest) = Some (sl, rest)"
      "selector sl = take 4 seal_bytes"
  shows "router_accepts pl f4 (groth16_id env) sl img (sha256 pl journal) \<Longrightarrow>
     \<exists>w. verify_and_forward_to_consumer pl ds other env img seal_bytes journal claimed (genesis f) = (Inr w :: ('e, _) res) \<and>
     verified w = [claimed] \<and>
     coord w (config_key pl) = Some (Config_account \<lparr>image_id = img, authority = payer_pk env, verified_count = 1\<rparr>) \<and>
     cons w (registry_key pl) = Some \<lparr>reg_count = 1, reg_authority = payer_pk env\<rparr>"
    and "\<not> router_accepts pl f4 (groth16_id env) sl img (sha256 pl journal) \<Longrightarrow>
     verify_and_forward_to_consumer pl ds other env img seal_bytes journal claimed (genesis f) = (Inl Panic :: ('e, _) res)"
proof -
  let ?test = "verify_and_forward_to_consumer pl ds other env img seal_bytes journal claimed (genesis f) :: ('e, _) res"
  let ?accepted = "router_accepts pl f4 (groth16_id env) sl img (sha256 pl journal)"
  let ?cfg = "\<lparr>image_id = img, authority = payer_pk env, verified_count = 0\<rparr>"
  have inc: "saturating_inc 0 = 1" by (simp add: saturating_inc_def)
  have c0: "claimed = fst (new_nullifiers out ! unat (0 :: u8))" "unat (0 :: u8) < length (new_nullifiers out)"
    using out(2) journal(2) by (simp_all add: hd_conv_nth)
  then have c32: "length claimed = 32" using out(1) by (simp add: output_ok_def)
  have d32: "length (sha256 pl journal) = 32" using assms(1) by (simp add: platform_ok_def)
  have len: "length journal \<le> 2048" using out(3) journal(1) by simp
  note keys = keys_distinct [OF assms(1) d32 c32 c32 d32] program_keys_differ [OF assms(1,2)]
  obtain w1 w2 f3 where w: "execute pl ds other (consumer_initialize_ix pl env) (genesis f) = Inr w1"
      "execute pl ds other (submit_init_ix pl env img) w1 = Inr w2"
      "execute pl ds other (submit_store_ix pl env journal) w2 = Inr (prepared pl (payer_pk env) img journal f3)"
      and f4: "create_account pl f3 (payer_pk env) (nullifier_key pl claimed) 8 = Some f4"
    by (rule submission_prepares [OF assms(1-3) create img len])
  obtain ix where ix: "submit_verify_ix pl env seal_bytes journal claimed = (Inr ix :: ('e, _) res)"
    using seal by (simp add: submit_verify_ix_def slice_def)
  have dec: "decode_nullifier_from_journal journal 0 = Inr claimed"
    using decode_refines_parser [of journal 0] output_holds [OF out(1) c0(2), of trailing] out(3) journal(1) c0(1)
    by (simp add: parse_journal_iff)
  let ?w3 = "prepared pl (payer_pk env) img journal f3"
  have w3: "coord ?w3 (config_key pl) = Some (Config_account ?cfg)"
      "coord ?w3 (journal_key pl (sha256 pl journal)) = Some (Journal_account journal)"
      "coord ?w3 (nullifier_key pl claimed) = None" "cons ?w3 (nullifier_key pl claimed) = None"
      "create_account pl (foreign ?w3) (payer_pk env) (nullifier_key pl claimed) 8 = Some f4"
      "cons ?w3 (registry_key pl) = Some \<lparr>reg_count = 0, reg_authority = payer_pk env\<rparr>"
    using keys f4(1) by (simp_all add: prepared_def)
  note x = execute_submit_verify [OF assms(3) seal c32 d32 ix decode]
  show "\<exists>w. ?test = Inr w \<and> verified w = [claimed] \<and>
      coord w (config_key pl) = Some (Config_account \<lparr>image_id = img, authority = payer_pk env, verified_count = 1\<rparr>) \<and>
      cons w (registry_key pl) = Some \<lparr>reg_count = 1, reg_authority = payer_pk env\<rparr>" if ?accepted
  proof -
    have r: "is_router pl f4 (router_state pl)" "is_verifier_entry pl f4 (verifier_key pl (selector sl))"
        "router_verify pl f4 (router_state pl) (verifier_key pl (selector sl)) (groth16_id env) sl (image_id ?cfg) (sha256 pl journal)"
      using that by (simp_all add: router_accepts_def)
    note v = honest_verification [OF w3(1-4) dec w3(5) r w3(6)]
    show ?thesis
      using keys
      by (simp add: verify_and_forward_to_consumer_def w ix x v inc unwrap_def)
        (simp add: prepared_def verified_def is_predicate_event_def)
  qed
  show "?test = Inl Panic" if rejected: "\<not> ?accepted"
  proof -
    obtain e where "verify_predicate pl (honest_accounts pl sl (sha256 pl journal) claimed (router_state pl)
        (groth16_id env) (payer_pk env)) sl (sha256 pl journal) 0 claimed ?w3 = Inl (Fault e)"
      using honest_rejected [OF w3(1-4) dec w3(5), of "groth16_id env" sl] rejected by auto
    then show ?thesis by (simp add: verify_and_forward_to_consumer_def w ix x)
  qed
qed

text \<open>The seal on the wire: the selector and the three points, 260 bytes.\<close>

definition demo_wire_seal :: "u8 list \<Rightarrow> (seal \<times> u8 list) option" where
  "demo_wire_seal bs =
     (if 260 \<le> length bs then Some (\<lparr>selector = take 4 bs, proof_bytes = take 256 (drop 4 bs)\<rparr>, drop 260 bs) else None)"

end
