(* ===== verification/Proof_Artifacts.thy ===== *)
theory Proof_Artifacts
  imports Wrap_Service Rust_Format
begin

text \<open>
  The example programs of the predicate engine that make and check the files the wrap prover
  reads: \<open>integration_tests/examples/prove.rs\<close> proves the confidential predicate and writes
  proof, journal and image id; \<open>verify.rs\<close>, the pre-flight check, verifies proof and journal
  against the id of the privacy circuit. The library of the privacy circuit is a record of
  parameters; its opaque values have the type \<open>'v\<close>.
\<close>

section \<open>What the programs are given\<close>

text \<open>\<open>enum Instruction\<close> of \<open>predicate-engine/core/src/lib.rs\<close>.\<close>

datatype predicate_instruction = CheckBalanceOverThreshold u128

record 'v account =
  acc_owner :: 'v
  acc_balance :: u128
  acc_data :: 'v
  acc_nonce :: 'v

record 'v nssa =
  predicate_elf :: "u8 list"
  circuit_id :: "u32 list"
  program_new :: "u8 list \<Rightarrow> 'v option"
  program_id_of :: "'v \<Rightarrow> 'v"
  npk_from :: "u8 list \<Rightarrow> 'v"
  vpk_from_scalar :: "u8 list \<Rightarrow> 'v"
  data_default :: 'v
  private_account_nonce_init :: "'v \<Rightarrow> 'v"
  commitment_new :: "'v \<Rightarrow> 'v account \<Rightarrow> 'v"
  nullifier_for_initialization :: "'v \<Rightarrow> 'v"
  new_with_genesis_accounts :: "('v \<times> 'v) list \<Rightarrow> 'v"
  transition_from_deployment :: "'v \<Rightarrow> u8 list \<Rightarrow> 'v option"
  shared_secret_new :: "u8 list \<Rightarrow> 'v \<Rightarrow> 'v"
  serialize_instruction :: "predicate_instruction \<Rightarrow> u32 list option"
  get_proof_for_commitment :: "'v \<Rightarrow> 'v \<Rightarrow> 'v"
  execute_and_prove :: "('v account \<times> bool \<times> 'v) list \<Rightarrow> u32 list \<Rightarrow> u8 list \<Rightarrow> ('v \<times> 'v) list \<Rightarrow>
     u8 list list \<Rightarrow> 'v list \<Rightarrow> 'v \<Rightarrow> (u8 list \<times> u8 list) option"

section \<open>prove.rs\<close>

definition subject_nsk :: "u8 list" where "subject_nsk = replicate 32 55"

definition subject_npk :: "'v nssa \<Rightarrow> 'v" where "subject_npk l = npk_from l subject_nsk"

definition subject_vpk :: "'v nssa \<Rightarrow> 'v" where "subject_vpk l = vpk_from_scalar l (replicate 32 66)"

definition confidential_predicate_program :: "'v nssa \<Rightarrow> ('e, 'v) res" where
  "confidential_predicate_program l = unwrap (program_new l (predicate_elf l))"

definition deploy_program :: "'v nssa \<Rightarrow> 'v \<Rightarrow> ('e, 'v) res" where
  "deploy_program l state = unwrap (transition_from_deployment l state (predicate_elf l))"

text \<open>The journal and the proof of the first part of \<open>main\<close>.\<close>

definition prove_output :: "'v nssa \<Rightarrow> ('e, u8 list \<times> u8 list) res" where
  "prove_output l =
     (let secret_balance = 5000; threshold = 1000; npk = subject_npk l; vpk = subject_vpk l in
     bind_res (confidential_predicate_program l) (\<lambda>program.
     let subject_account = \<lparr>acc_owner = program_id_of l program, acc_balance = secret_balance,
           acc_data = data_default l, acc_nonce = private_account_nonce_init l npk\<rparr>;
         commitment = commitment_new l npk subject_account;
         nullifier = nullifier_for_initialization l npk in
     bind_res (deploy_program l (new_with_genesis_accounts l [(commitment, nullifier)])) (\<lambda>state.
     let shared_secret = shared_secret_new l (replicate 32 7) vpk in
     bind_res (unwrap (serialize_instruction l (CheckBalanceOverThreshold threshold))) (\<lambda>instruction.
       unwrap (execute_and_prove l [(subject_account, True, npk)] instruction [1] [(npk, shared_secret)]
         [subject_nsk] [get_proof_for_commitment l state commitment] program)))))"

text \<open>\<open>fs::write(..).expect(..)\<close>, the n-th write of the program, which may fail.\<close>

definition write_expect ::
  "(nat \<Rightarrow> u8 list option option) \<Rightarrow> nat \<Rightarrow> string \<Rightarrow> u8 list \<Rightarrow> disk \<Rightarrow> ('e, unit) res \<times> disk"
where
  "write_expect faults n path bs d =
     (case fs_write (d\<lparr>fault := faults n\<rparr>) path bs of (d', ok) \<Rightarrow> (if ok then Inr () else Inl Panic, d'))"

definition prove_main ::
  "'v nssa \<Rightarrow> bool \<Rightarrow> (nat \<Rightarrow> u8 list option option) \<Rightarrow> disk \<Rightarrow> ('e, unit) res \<times> disk"
where
  "prove_main l dir_created faults d =
     then_do (prove_output l, d) (\<lambda>(output_bytes, proof_bytes) d.
     then_do (if dir_created then Inr () else Inl Panic, d) (\<lambda>_ d.
     then_do (write_expect faults 0 ''artifacts/proof.bin'' proof_bytes d) (\<lambda>_ d.
     then_do (write_expect faults 1 ''artifacts/journal.bin'' output_bytes d) (\<lambda>_ d.
       write_expect faults 2 ''artifacts/image_id.txt'' (utf8_encode (concat (map format_08x (circuit_id l)))) d))))"

section \<open>verify.rs\<close>

text \<open>
  The lines and the exit code of the pre-flight check; a missing or malformed file panics, and
  the failure is reported on the error stream.
\<close>

definition preflight_pass :: str where
  "preflight_pass = chars ''PRE-FLIGHT PASS '' @ [em_dash] @
     chars '' receipt verifies against PRIVACY_PRESERVING_CIRCUIT_ID.'' @ [newline] @
     chars ''Artifact is intact and ready for the x86 succinct->Groth16 wrap.''"

definition verify_main :: "('i, 'r) risc0 \<Rightarrow> u32 list \<Rightarrow> disk \<Rightarrow> ('e, nat) res printed" where
  "verify_main z circuit d =
     then_print (unwrap (contents d ''artifacts/proof.bin'')) (\<lambda>proof_bytes.
     then_print (unwrap (contents d ''artifacts/journal.bin'')) (\<lambda>journal_bytes.
     print [chars ''Read artifacts: proof.bin '' @ show_nat (length proof_bytes) @ chars '' bytes, journal.bin '' @
        show_nat (length journal_bytes) @ chars '' bytes'']
     (then_print (unwrap (inner_from_slice z proof_bytes)) (\<lambda>inner.
      let receipt = receipt_new z inner journal_bytes in
        if receipt_verify z receipt circuit then ([preflight_pass], Inr 0) else ([], Inr 1)))))"

section \<open>The files\<close>

lemma write_expect_Inr_iff:
  "write_expect faults n path bs d = (Inr (), d') \<longleftrightarrow>
     faults n = None \<and> d' = d\<lparr>fault := None, contents := (contents d)(path \<mapsto> bs)\<rparr>"
  by (auto simp: write_expect_def fs_write_def split: option.splits)

lemma prove_main_files:
  assumes "prove_main l dir_created faults d = ((Inr (), d') :: ('e, _) res \<times> _)"
  obtains output_bytes proof_bytes where
    "prove_output l = (Inr (output_bytes, proof_bytes) :: ('e, _) res)" "fault d' = None"
    "contents d' = (contents d)(''artifacts/proof.bin'' \<mapsto> proof_bytes,
       ''artifacts/journal.bin'' \<mapsto> output_bytes,
       ''artifacts/image_id.txt'' \<mapsto> utf8_encode (image_id_to_hex (circuit_id l)))"
  using assms
  by (auto simp: prove_main_def then_do_Inr_iff write_expect_Inr_iff image_id_to_hex_def split: if_splits)

text \<open>What the one-shot mode reads from them.\<close>

lemma oneshot_reads_artifacts:
  assumes "prove_main l dir_created faults d = ((Inr (), d') :: ('e, _) res \<times> _)" "length (circuit_id l) = 8"
  obtains output_bytes proof_bytes where
    "contents d' ''artifacts/proof.bin'' = Some proof_bytes" "contents d' ''artifacts/journal.bin'' = Some output_bytes"
    "oneshot_output z d' = map_error WrapFailed
       (wrap z \<lparr>proof_in = proof_bytes, journal_in = output_bytes, id_in = circuit_id l\<rparr>)"
    "fault d' = None"
proof -
  obtain output_bytes proof_bytes where d': "fault d' = None"
    "contents d' = (contents d)(''artifacts/proof.bin'' \<mapsto> proof_bytes,
       ''artifacts/journal.bin'' \<mapsto> output_bytes,
       ''artifacts/image_id.txt'' \<mapsto> utf8_encode (image_id_to_hex (circuit_id l)))"
    using prove_main_files [OF assms(1)] by blast
  have "read_to_string d' ''artifacts/image_id.txt'' = Some (image_id_to_hex (circuit_id l))"
    using utf8_roundtrip [OF image_id_chars] by (simp add: read_to_string_def d'(2))
  moreover have "parse_image_id (image_id_to_hex (circuit_id l)) = Inr (circuit_id l)"
    using print_then_parse [OF assms(2), of "[]" "[]"] by simp
  ultimately show ?thesis
    by (intro that [of proof_bytes output_bytes]) (simp_all add: oneshot_output_def d')
qed

section \<open>The pre-flight check and the wrap\<close>

lemma wrap_cases:
  obtains (inner) "inner_from_slice z p = None"
      "wrap z \<lparr>proof_in = p, journal_in = j, id_in = ids\<rparr> = Inl (Fault DeserializeInner)"
  | (invalid) i where "inner_from_slice z p = Some i" "\<not> receipt_verify z (receipt_new z i j) ids"
      "wrap z \<lparr>proof_in = p, journal_in = j, id_in = ids\<rparr> = Inl (Fault SuccinctInvalid)"
  | (failed) i e where "inner_from_slice z p = Some i" "receipt_verify z (receipt_new z i j) ids"
      "e \<in> {CompressionFailed, Groth16Invalid, ExpectedGroth16}"
      "wrap z \<lparr>proof_in = p, journal_in = j, id_in = ids\<rparr> = Inl (Fault e)"
  | (wrapped) i out where "inner_from_slice z p = Some i" "receipt_verify z (receipt_new z i j) ids"
      "wrap z \<lparr>proof_in = p, journal_in = j, id_in = ids\<rparr> = Inr out"
proof (cases "inner_from_slice z p")
  case None
  then show ?thesis by (intro inner) (simp_all add: wrap_def)
next
  case (Some i)
  show ?thesis
  proof (cases "receipt_verify z (receipt_new z i j) ids")
    case False
    then show ?thesis using Some by (intro invalid) (simp_all add: wrap_def)
  next
    case True
    let ?w = "wrap z \<lparr>proof_in = p, journal_in = j, id_in = ids\<rparr>"
    show ?thesis
    proof (cases ?w)
      case (Inl e)
      have "e = Fault CompressionFailed \<or> e = Fault Groth16Invalid \<or> e = Fault ExpectedGroth16"
        using Inl Some True by (auto simp: wrap_def bind_res_Inl_iff Let_def)
      then show ?thesis using failed [OF Some True] Inl by blast
    qed (rule wrapped [OF Some True])
  qed
qed

text \<open>
  C30: the pre-flight check predicts the wrap. On the files the prove program writes, whatever
  the disk held before, the one-shot mode ends with a receipt that failed to verify exactly
  when the check exits with 1, with a proof that cannot be read exactly when the check panics,
  and after the check has passed it writes the seal of a receipt verified for the id of the
  privacy circuit or stops in the Groth16 compression.
\<close>

theorem preflight_predicts_wrap:
  assumes "prove_main l dir_created faults d = ((Inr (), d') :: ('e, _) res \<times> _)" "length (circuit_id l) = 8"
  shows "(snd (verify_main z (circuit_id l) d') = (Inr 1 :: ('e, _) res) \<longleftrightarrow>
       fst (run_oneshot z d') = Inl (Fault (WrapFailed SuccinctInvalid))) \<and>
     (snd (verify_main z (circuit_id l) d') = (Inl Panic :: ('e, _) res) \<longleftrightarrow>
       fst (run_oneshot z d') = Inl (Fault (WrapFailed DeserializeInner))) \<and>
     (snd (verify_main z (circuit_id l) d') = (Inr 0 :: ('e, _) res) \<longleftrightarrow>
       (\<exists>sl groth16. run_oneshot z d' =
          (Inr (), d'\<lparr>contents := (contents d')(''artifacts/seal.bin'' \<mapsto> sl)\<rparr>) \<and>
          receipt_verify z groth16 (circuit_id l) \<and> groth16_seal z groth16 = Some sl) \<or>
       fst (run_oneshot z d') \<in> {Inl (Fault (WrapFailed CompressionFailed)), Inl (Fault (WrapFailed Groth16Invalid)),
         Inl (Fault (WrapFailed ExpectedGroth16))})"
proof -
  obtain j p where f: "contents d' ''artifacts/proof.bin'' = Some p" "contents d' ''artifacts/journal.bin'' = Some j"
      "oneshot_output z d' = map_error WrapFailed (wrap z \<lparr>proof_in = p, journal_in = j, id_in = circuit_id l\<rparr>)"
      "fault d' = None"
    using oneshot_reads_artifacts [OF assms] by metis
  show ?thesis
  proof (cases rule: wrap_cases [of z p j "circuit_id l"])
    case (wrapped i out)
    obtain groth16 where "receipt_verify z groth16 (circuit_id l)" "groth16_seal z groth16 = Some (seal_out out)"
      using wrapped(3) by (auto simp: wrap_Inr_iff)
    then have "\<exists>sl groth16. seal_out out = sl \<and> receipt_verify z groth16 (circuit_id l) \<and> groth16_seal z groth16 = Some sl"
      by blast
    moreover have "run_oneshot z d' =
        (Inr (), d'\<lparr>contents := (contents d')(''artifacts/seal.bin'' \<mapsto> seal_out out)\<rparr>)"
      using wrapped f by (simp add: run_oneshot_def fs_write_def)
    moreover have "snd (verify_main z (circuit_id l) d') = (Inr 0 :: ('e, _) res)"
      using wrapped f by (simp add: verify_main_def unwrap_def)
    ultimately show ?thesis by auto
  qed (use f in \<open>auto simp: verify_main_def run_oneshot_def unwrap_def\<close>)
qed

definition demo_nssa :: "u8 list nssa" where
  "demo_nssa = \<lparr>predicate_elf = [1], circuit_id = replicate 8 7, program_new = Some, program_id_of = (\<lambda>p. p),
     npk_from = (\<lambda>k. k), vpk_from_scalar = (\<lambda>k. k), data_default = [], private_account_nonce_init = (\<lambda>k. k),
     commitment_new = (\<lambda>k a. k), nullifier_for_initialization = (\<lambda>k. k), new_with_genesis_accounts = (\<lambda>_. []),
     transition_from_deployment = (\<lambda>s p. Some s), shared_secret_new = (\<lambda>e v. e),
     serialize_instruction = (\<lambda>i. case i of CheckBalanceOverThreshold t \<Rightarrow> Some [ucast t]),
     get_proof_for_commitment = (\<lambda>s c. s),
     execute_and_prove = (\<lambda>pres ins vis keys nsks paths program. Some ([3], [1, 2]))\<rparr>"

lemma demo_prove_output: "prove_output demo_nssa = Inr ([3], [1, 2])"
  by (simp add: prove_output_def confidential_predicate_program_def deploy_program_def unwrap_def demo_nssa_def)

lemma demo_prove:
  "\<exists>d'. prove_main demo_nssa True (\<lambda>_. None) d = (Inr (), d')"
  by (simp add: prove_main_def demo_prove_output then_do_Inr_iff write_expect_Inr_iff)

theorem preflight_predicts_wrap_witness:
  "\<exists>d'. prove_main demo_nssa True (\<lambda>_. None) demo_disk = (Inr () :: (unit, _) res, d') \<and>
     snd (verify_main demo_risc0 (replicate 8 7) d') = (Inr 0 :: (unit, _) res) \<and>
     fst (run_oneshot demo_risc0 d') \<noteq> Inl (Fault (WrapFailed SuccinctInvalid))"
proof -
  obtain d' where d': "prove_main demo_nssa True (\<lambda>_. None) demo_disk = (Inr () :: (unit, _) res, d')"
    using demo_prove by blast
  have c: "circuit_id demo_nssa = replicate 8 7" "length (circuit_id demo_nssa) = 8" by (simp_all add: demo_nssa_def)
  obtain j p where "prove_output demo_nssa = (Inr (j, p) :: (unit, _) res)"
      "contents d' = (contents demo_disk)(''artifacts/proof.bin'' \<mapsto> p, ''artifacts/journal.bin'' \<mapsto> j,
         ''artifacts/image_id.txt'' \<mapsto> utf8_encode (image_id_to_hex (circuit_id demo_nssa)))"
    by (rule prove_main_files [OF d'])
  then have "snd (verify_main demo_risc0 (replicate 8 7) d') = (Inr 0 :: (unit, _) res)"
    by (simp add: demo_prove_output verify_main_def) (auto simp: demo_risc0_def unwrap_def)
  moreover from this have "fst (run_oneshot demo_risc0 d') \<noteq> Inl (Fault (WrapFailed SuccinctInvalid))"
    using preflight_predicts_wrap [OF d' c(2), of demo_risc0] by (simp add: c(1))
  ultimately show ?thesis using d' by blast
qed

end
