(* ===== verification/Submission_Test.thy ===== *)
theory Submission_Test
  imports Submission Proof_Artifacts
begin

text \<open>
  The whole integration test \<open>coordinator/programs/coordinator/tests/verify_predicate.rs\<close>:
  it reads the artifacts, sets up a simulated validator with the router's accounts, and makes
  the submission of \<open>Submission\<close>. The simulated validator is a record of parameters. With
  \<open>Proof_Artifacts\<close> and \<open>Wrap_Service\<close> this composes the path of a proof from the prove
  program over the wrap to the ledger.
\<close>

section \<open>What the test reads\<close>

definition ARTIFACTS :: string where "ARTIFACTS = ''../../../predicate-engine/artifacts''"

definition test_image_id :: "str \<Rightarrow> ('e, u8 list) res" where
  "test_image_id img_hex = client_words (trim img_hex) 0 8"

definition nul_hex :: str where
  "nul_hex = map of_char ''39e15eadcbc684bfca46f76bec4182d71cf5b26833d6e20af0b283515d9f92b2''"

text \<open>\<open>u8::from_str_radix(_, 16)\<close>\<close>

primrec parse_byte_digits :: "u8 \<Rightarrow> str \<Rightarrow> (int_error, u8) res" where
  "parse_byte_digits acc [] = Inr acc"
| "parse_byte_digits acc (c # cs) =
     (case to_digit c of
        None \<Rightarrow> Inl (Fault InvalidDigit)
      | Some d \<Rightarrow> if 2 ^ 8 \<le> unat acc * 16 + d then Inl (Fault PosOverflow)
                  else parse_byte_digits (acc * 16 + of_nat d) cs)"

definition byte_from_hex :: "str \<Rightarrow> (int_error, u8) res" where
  "byte_from_hex s =
     (if s = [] then Inl (Fault Empty)
      else if s = [0x2B] \<or> s = [0x2D] then Inl (Fault InvalidDigit)
      else parse_byte_digits 0 (if hd s = 0x2B then tl s else s))"

text \<open>The loop over the bytes of the expected nullifier.\<close>

primrec nullifier_bytes :: "str \<Rightarrow> nat \<Rightarrow> nat \<Rightarrow> ('e, u8 list) res" where
  "nullifier_bytes hex i 0 = Inr []"
| "nullifier_bytes hex i (Suc n) =
     bind_res (str_slice hex (i * 2) (i * 2 + 2)) (\<lambda>chunk.
     bind_res (unwrap_result (byte_from_hex chunk)) (\<lambda>b.
     bind_res (nullifier_bytes hex (Suc i) n) (\<lambda>bs. Inr (b # bs))))"

section \<open>The simulated validator\<close>

text \<open>\<open>SolanaAccount\<close>: an account as it is written into the validator.\<close>

record stored_account =
  lamports :: u64
  account_data :: "u8 list"
  account_owner :: pubkey
  executable :: bool
  rent_epoch :: u64

text \<open>
  LiteSVM: a fresh validator, loading a program from a file, giving lamports
  to an account, writing an account, a fresh key pair, and the base58 parser of addresses.
\<close>

record 'f svm =
  new_svm :: 'f
  add_program_from_file :: "'f \<Rightarrow> pubkey \<Rightarrow> string \<Rightarrow> 'f option"
  airdrop :: "'f \<Rightarrow> pubkey \<Rightarrow> u64 \<Rightarrow> 'f option"
  set_account :: "'f \<Rightarrow> pubkey \<Rightarrow> stored_account \<Rightarrow> 'f option"
  new_keypair :: pubkey
  pubkey_from_str :: "string \<Rightarrow> pubkey option"

definition ROUTER_SO :: string where
  "ROUTER_SO = ''/Users/bristinborah/.cargo/git/checkouts/risc0-solana-1c84ab93fd21abb4/ee41593/solana-verifier/target/deploy/verifier_router.so''"

definition GROTH16_SO :: string where
  "GROTH16_SO = ''/Users/bristinborah/.cargo/git/checkouts/risc0-solana-1c84ab93fd21abb4/ee41593/solana-verifier/target/deploy/groth_16_verifier.so''"

definition COORDINATOR_SO :: string where "COORDINATOR_SO = ''../../target/deploy/coordinator.so''"

definition CONSUMER_SO :: string where "CONSUMER_SO = ''../../target/deploy/consumer.so''"

definition parse_pubkey :: "'f svm \<Rightarrow> string \<Rightarrow> ('e, pubkey) res" where
  "parse_pubkey v s = unwrap (pubkey_from_str v s)"

definition acct_disc :: "'f platform \<Rightarrow> string \<Rightarrow> u8 list" where
  "acct_disc pl name = take 8 (sha256 pl (bytes (''account:'' @ name)))"

definition router_account :: "'f platform \<Rightarrow> pubkey \<Rightarrow> stored_account" where
  "router_account pl payer =
     \<lparr>lamports = 1000000, account_data = acct_disc pl ''VerifierRouter'' @ [1] @ payer @ [0],
      account_owner = router_id pl, executable = False, rent_epoch = 0\<rparr>"

definition entry_account :: "'f platform \<Rightarrow> u8 list \<Rightarrow> pubkey \<Rightarrow> stored_account" where
  "entry_account pl sel groth16 =
     \<lparr>lamports = 1000000, account_data = acct_disc pl ''VerifierEntry'' @ sel @ groth16 @ [0],
      account_owner = router_id pl, executable = False, rent_epoch = 0\<rparr>"

text \<open>The programs are loaded at the addresses the test names.\<close>

definition load_programs :: "'f svm \<Rightarrow> 'f platform \<Rightarrow> pubkey \<Rightarrow> ('e, 'f) res" where
  "load_programs v pl groth16 =
     bind_res (unwrap (add_program_from_file v (new_svm v) (router_id pl) ROUTER_SO)) (\<lambda>f.
     bind_res (unwrap (add_program_from_file v f groth16 GROTH16_SO)) (\<lambda>f.
     bind_res (unwrap (add_program_from_file v f (coordinator_id pl) COORDINATOR_SO)) (\<lambda>f.
       unwrap (add_program_from_file v f (consumer_id pl) CONSUMER_SO))))"

definition seed_router :: "'f svm \<Rightarrow> 'f platform \<Rightarrow> pubkey \<Rightarrow> u8 list \<Rightarrow> pubkey \<Rightarrow> 'f \<Rightarrow> ('e, 'f) res" where
  "seed_router v pl groth16 sel payer f =
     bind_res (unwrap (set_account v f (router_state pl) (router_account pl payer))) (\<lambda>f.
       unwrap (set_account v f (verifier_key pl sel) (entry_account pl sel groth16)))"

section \<open>The test\<close>

text \<open>The addresses of the programs are those the test names, whatever the platform's are.\<close>

definition test_programs :: "'f svm \<Rightarrow> 'f platform \<Rightarrow> ('e, 'f platform \<times> pubkey) res" where
  "test_programs v pl =
     bind_res (parse_pubkey v VERIFIER_ROUTER_ID) (\<lambda>router.
     bind_res (parse_pubkey v GROTH16_VERIFIER_ID) (\<lambda>groth16.
     bind_res (parse_pubkey v COORDINATOR_ID) (\<lambda>coordinator.
     bind_res (parse_pubkey v CONSUMER_ID) (\<lambda>consumer.
     bind_res (parse_pubkey v ''11111111111111111111111111111111'') (\<lambda>sys.
       Inr (pl\<lparr>coordinator_id := coordinator, consumer_id := consumer, router_id := router, system_id := sys\<rparr>,
         groth16))))))"

definition submission_test ::
  "'f svm \<Rightarrow> 'f platform \<Rightarrow> (u8 list \<Rightarrow> (seal \<times> u8 list) option) \<Rightarrow> ('f \<Rightarrow> instruction \<Rightarrow> 'f option) \<Rightarrow> disk \<Rightarrow>
   ('e, 'f ledger) res"
where
  "submission_test v pl ds other d =
     bind_res (unwrap (contents d (ARTIFACTS @ ''/seal.bin''))) (\<lambda>sl.
     bind_res (unwrap (contents d (ARTIFACTS @ ''/journal.bin''))) (\<lambda>journal.
     bind_res (unwrap (read_to_string d (ARTIFACTS @ ''/image_id.txt''))) (\<lambda>img_hex.
     bind_res (if length sl = 256 then Inr () else Inl Panic) (\<lambda>_.
     bind_res (test_image_id img_hex) (\<lambda>image_id.
     bind_res (nullifier_bytes nul_hex 0 32) (\<lambda>claimed_nullifier.
     bind_res (slice sl 0 4) (\<lambda>sel.
     bind_res (test_programs v pl) (\<lambda>(pl, groth16).
     bind_res (load_programs v pl groth16) (\<lambda>f.
     let payer = new_keypair v in
     bind_res (unwrap (airdrop v f payer 10000000000)) (\<lambda>f.
     bind_res (seed_router v pl groth16 sel payer f) (\<lambda>f.
       verify_and_forward_to_consumer pl ds other
         \<lparr>payer_pk = payer, groth16_id = groth16\<rparr>
         image_id sl journal claimed_nullifier (genesis f))))))))))))"

section \<open>The expected nullifier\<close>

text \<open>The text of a byte, and that the loop reads the bytes back from their texts.\<close>

definition byte_text :: "u8 \<Rightarrow> str" where
  "byte_text b = [hex_char (unat b div 16), hex_char (unat b mod 16)]"

lemma byte_text_ascii: "ascii (byte_text b)" "length (byte_text b) = 2"
  using unsigned_less [of b, where 'a = nat] by (auto simp: byte_text_def hex_char_def)

lemma byte_from_text: "byte_from_hex (byte_text b) = Inr b"
proof -
  have "unat b < 256" using unsigned_less [of b] by simp
  then have d: "unat b div 16 < 16" "unat b mod 16 < 16" by auto
  have p: "hex_char n \<noteq> 0x2B" "hex_char n \<noteq> 0x2D" for n by (auto simp: hex_char_def)
  have u: "unat (of_nat (unat b div 16) :: u8) = unat b div 16" using d by (simp add: unat_of_nat)
  have "of_nat (unat b div 16) * 16 + of_nat (unat b mod 16) = (of_nat (unat b) :: u8)"
    unfolding of_nat_mult [symmetric] of_nat_add [symmetric] of_nat_numeral [symmetric, where 'a = u8]
    by (simp only: div_mult_mod_eq)
  then show ?thesis
    using d by (simp add: byte_from_hex_def byte_text_def p u)
qed

lemma nullifier_bytes_text:
  assumes "ascii p" "length p = i * 2"
  shows "nullifier_bytes (p @ concat (map byte_text bs)) i (length bs) = (Inr bs :: ('e, _) res)"
  using assms
proof (induction bs arbitrary: p i)
  case (Cons b bs)
  have "ascii (concat (map byte_text (b # bs)))"
    by (induction bs) (simp_all add: byte_text_ascii)
  then have "str_slice (p @ concat (map byte_text (b # bs))) (i * 2) (i * 2 + 2) = (Inr (byte_text b) :: ('e, _) res)"
    using Cons.prems byte_text_ascii(2) [of b] by (subst str_slice_ascii) simp_all
  moreover have "nullifier_bytes ((p @ byte_text b) @ concat (map byte_text bs)) (Suc i) (length bs) = (Inr bs :: ('e, _) res)"
    using Cons.prems Cons.IH [of "p @ byte_text b" "Suc i"] by (simp add: byte_text_ascii)
  ultimately show ?case by (simp add: byte_from_text)
qed simp

lemma nul_hex_eq: "nul_hex = concat (map byte_text NULLIFIER)"
  by (simp add: nul_hex_def NULLIFIER_def hex_char_def byte_text_def)

lemma nullifier_of_the_test: "nullifier_bytes nul_hex 0 32 = Inr NULLIFIER"
proof -
  have "length NULLIFIER = 32" by (simp add: NULLIFIER_def)
  then show ?thesis using nullifier_bytes_text [of "[]" 0 NULLIFIER] by (simp only: nul_hex_eq) simp
qed

section \<open>From the prove program to the consumer\<close>

text \<open>The files of the prove program as the one-shot mode reads them.\<close>

lemma artifacts_to_wrap:
  assumes "prove_main l dir_created faults d = ((Inr (), d1) :: ('e, _) res \<times> _)" "length (circuit_id l) = 8"
    and "prove_output l = (Inr (j, p) :: ('e, _) res)"
  shows "fault d1 = None" "contents d1 = (contents d)(''artifacts/proof.bin'' \<mapsto> p, ''artifacts/journal.bin'' \<mapsto> j,
       ''artifacts/image_id.txt'' \<mapsto> utf8_encode (image_id_to_hex (circuit_id l)))"
    "oneshot_output z d1 = map_error WrapFailed (wrap z \<lparr>proof_in = p, journal_in = j, id_in = circuit_id l\<rparr>)"
proof -
  show d1: "fault d1 = None" "contents d1 = (contents d)(''artifacts/proof.bin'' \<mapsto> p, ''artifacts/journal.bin'' \<mapsto> j,
       ''artifacts/image_id.txt'' \<mapsto> utf8_encode (image_id_to_hex (circuit_id l)))"
    by (rule prove_main_files [OF assms(1)]; use assms(3) in simp)+
  show "oneshot_output z d1 = map_error WrapFailed (wrap z \<lparr>proof_in = p, journal_in = j, id_in = circuit_id l\<rparr>)"
    by (rule oneshot_reads_artifacts [OF assms(1,2)]) (simp add: d1(2))
qed

text \<open>The files the test finds after the prove program and the wrap.\<close>

lemma files_of_the_test:
  assumes "prove_main l dir_created faults d = ((Inr (), d1) :: ('e, _) res \<times> _)" "length (circuit_id l) = 8"
    and "run_oneshot z d1 = (Inr (), d2)"
    and "\<And>name. contents t (ARTIFACTS @ ''/'' @ name) = contents d2 (''artifacts/'' @ name)"
    and "prove_output l = (Inr (j, p) :: ('e, _) res)"
  obtains i r sb where "compress_groth16 z (receipt_new z i j) = Some r" "receipt_verify z r (circuit_id l)"
    "groth16_seal z r = Some sb"
    "contents t (ARTIFACTS @ ''/seal.bin'') = Some sb" "contents t (ARTIFACTS @ ''/journal.bin'') = Some j"
    "read_to_string t (ARTIFACTS @ ''/image_id.txt'') = Some (image_id_to_hex (circuit_id l))"
proof -
  note j = artifacts_to_wrap [OF assms(1,2,5)]
  obtain out where out: "wrap z \<lparr>proof_in = p, journal_in = j, id_in = circuit_id l\<rparr> = Inr out"
      "contents d2 = (contents d1)(''artifacts/seal.bin'' \<mapsto> seal_out out)"
    using assms(3) j(1) j(3) [of z] by (auto simp: run_oneshot_def fs_write_def split: sum.splits)
  obtain i r where r: "compress_groth16 z (receipt_new z i j) = Some r" "receipt_verify z r (circuit_id l)"
      "groth16_seal z r = Some (seal_out out)"
    using out(1) by (auto simp: wrap_Inr_iff)
  have t: "contents t (ARTIFACTS @ CHR ''/'' # name) = contents d2 (''artifacts/'' @ name)" for name
    using assms(4) [of name] by simp
  have "read_to_string t (ARTIFACTS @ ''/image_id.txt'') = Some (image_id_to_hex (circuit_id l))"
    using utf8_roundtrip [OF image_id_chars] by (simp add: read_to_string_def t out(2) j(2))
  then show ?thesis
    using that [OF r] by (simp add: t out(2) j(2))
qed

lemma test_reads_image_id:
  assumes "length ids = 8"
  shows "test_image_id (image_id_to_hex ids) = (Inr (concat (map (to_le 4) ids)) :: ('e, _) res)"
    "length (concat (map (to_le 4) ids)) = 32"
proof -
  have "parse_image_id (image_id_to_hex ids) = Inr ids"
    using print_then_parse [OF assms, of "[]" "[]"] by simp
  from client_reads_accepted [OF this, where 'e = 'e]
  show "test_image_id (image_id_to_hex ids) = (Inr (concat (map (to_le 4) ids)) :: ('e, _) res)"
    by (simp add: test_image_id_def client_image_id_def)
  show "length (concat (map (to_le 4) ids)) = 32" using assms by (simp add: length_concat comp_def sum_list_triv)
qed

text \<open>
  C11: from the prove program to the consumer's count. Take a run in which the prove program
  has written its files, the one-shot mode has wrapped them, the circuit's output spends the
  nullifier the test expects, the set-up calls of the validator succeed and the system program
  creates the four accounts. The seal then belongs to a receipt that the RISC Zero library
  verifies for the id of the privacy circuit, and the integration test passes exactly when the
  router on the validator accepts that seal for the id and the digest of the journal: then
  the nullifier is verified, the registry counts one and the configuration names the id. A
  seal that the router rejects, verified off chain or not, makes the test panic.
\<close>

theorem proof_reaches_consumer:
  assumes "platform_ok pl" "programs_distinct pl" "discriminators_ok pl"
    and prove: "prove_main l dir_created faults d = ((Inr (), d1) :: ('e, _) res \<times> _)" "length (circuit_id l) = 8"
    and wrap: "run_oneshot z d1 = (Inr (), d2)"
    and files: "\<And>name. contents t (ARTIFACTS @ ''/'' @ name) = contents d2 (''artifacts/'' @ name)"
    and circuit: "prove_output l = (Inr (serialise (output_words out @ trailing), p) :: ('e, _) res)"
      "output_ok out" "new_nullifiers out \<noteq> []" "fst (hd (new_nullifiers out)) = NULLIFIER"
      "length (output_words out @ trailing) \<le> 512"
    and seal: "contents d2 ''artifacts/seal.bin'' = Some sb" "length sb = 256" "selector sl = take 4 sb"
      "\<And>rest. ds (take 4 sb @ negate_g1 (take 64 sb) @ drop 64 sb @ rest) = Some (sl, rest)"
    and set_up: "test_programs v pl = (Inr (pl, groth16) :: ('e, _) res)"
      "load_programs v pl groth16 = (Inr f1 :: ('e, _) res)" "airdrop v f1 (new_keypair v) 10000000000 = Some f2"
      "seed_router v pl groth16 (take 4 sb) (new_keypair v) f2 = (Inr f :: ('e, _) res)"
    and create: "create_accounts pl (new_keypair v)
       (submission_accounts pl (serialise (output_words out @ trailing)) NULLIFIER) f = Some f4"
  shows "(\<exists>r. receipt_verify z r (circuit_id l) \<and> groth16_seal z r = Some sb) \<and>
     (if router_accepts pl f4 groth16 sl (concat (map (to_le 4) (circuit_id l)))
           (sha256 pl (serialise (output_words out @ trailing)))
      then \<exists>w. submission_test v pl ds other t = (Inr w :: ('e, _) res) \<and> verified w = [NULLIFIER] \<and>
        coord w (config_key pl) = Some (Config_account \<lparr>image_id = concat (map (to_le 4) (circuit_id l)),
          authority = new_keypair v, verified_count = 1\<rparr>) \<and>
        cons w (registry_key pl) = Some \<lparr>reg_count = 1, reg_authority = new_keypair v\<rparr>
      else submission_test v pl ds other t = (Inl Panic :: ('e, _) res))"
proof -
  let ?j = "serialise (output_words out @ trailing)" and ?img = "concat (map (to_le 4) (circuit_id l))"
  let ?env = "\<lparr>payer_pk = new_keypair v, groth16_id = groth16\<rparr>"
  obtain i r sb' where r: "receipt_verify z r (circuit_id l)" "groth16_seal z r = Some sb'"
    and t: "contents t (ARTIFACTS @ ''/seal.bin'') = Some sb'" "contents t (ARTIFACTS @ ''/journal.bin'') = Some ?j"
      "read_to_string t (ARTIFACTS @ ''/image_id.txt'') = Some (image_id_to_hex (circuit_id l))"
    by (rule files_of_the_test [OF prove wrap files circuit(1)])
  have sb: "sb' = sb" using t(1) files [of "''seal.bin''"] seal(1) by simp
  let ?sub = "verify_and_forward_to_consumer pl ds other ?env ?img sb ?j NULLIFIER (genesis f) :: ('e, _) res"
  have test: "submission_test v pl ds other t = ?sub"
    using t seal(2) set_up
    by (simp add: sb submission_test_def test_reads_image_id(1) [OF prove(2)] nullifier_of_the_test slice_def unwrap_def)
  have c: "create_accounts pl (payer_pk ?env) (submission_accounts pl ?j NULLIFIER) f = Some f4"
    using create by simp
  note o = submission_outcome [OF assms(1-3) c circuit(2,3,5) refl circuit(4) [symmetric]
      test_reads_image_id(2) [OF prove(2)] seal(2,4,3), where 'e = 'e and other = other]
  show ?thesis using r o unfolding test sb by auto
qed

section \<open>A concrete run\<close>

definition test_svm :: "(pubkey \<Rightarrow> stored_account option) svm" where
  "test_svm = \<lparr>new_svm = (\<lambda>_. None),
     add_program_from_file = (\<lambda>f i path. Some (f(i \<mapsto> \<lparr>lamports = 1, account_data = [], account_owner = [9], executable = True, rent_epoch = 0\<rparr>))),
     airdrop = (\<lambda>f k n. Some (f(k \<mapsto> \<lparr>lamports = n, account_data = [], account_owner = [0], executable = False, rent_epoch = 0\<rparr>))),
     set_account = (\<lambda>f k a. Some (f(k \<mapsto> a))), new_keypair = [6],
     pubkey_from_str = map_of [(VERIFIER_ROUTER_ID, [3]), (GROTH16_VERIFIER_ID, [8]), (COORDINATOR_ID, [1]),
       (CONSUMER_ID, [2]), (''11111111111111111111111111111111'', [0])]\<rparr>"

definition test_platform :: "(pubkey \<Rightarrow> stored_account option) platform" where
  "test_platform = \<lparr>coordinator_id = [1], consumer_id = [2], router_id = [3], system_id = [0],
     pda = demo_pda, sha256 = (\<lambda>d. take 32 (d @ replicate 32 0)),
     create_account = (\<lambda>f payer k n. case f payer of None \<Rightarrow> None
       | Some a \<Rightarrow> if f k = None \<and> 1000000000 \<le> lamports a
           then Some (f(payer \<mapsto> a\<lparr>lamports := lamports a - 1000000000\<rparr>)) else None),
     is_router = (\<lambda>f k. map_option account_owner (f k) = Some [3]),
     is_verifier_entry = (\<lambda>f k. map_option account_owner (f k) = Some [3]),
     router_verify = (\<lambda>_ _ _ _ sl img dg. img = concat (map (to_le 4) (replicate 8 (7 :: u32))) \<and> length dg = 32),
     foreign_cpi = (\<lambda>_ _ _ _ _. None)\<rparr>"

definition spending_output :: circuit_output where
  "spending_output = demo_output\<lparr>new_nullifiers := [(NULLIFIER, replicate 32 0xAB)]\<rparr>"

definition test_nssa :: "u8 list nssa" where
  "test_nssa = demo_nssa\<lparr>execute_and_prove :=
     (\<lambda>pres ins vis keys nsks paths program. Some (serialise (output_words spending_output), [1, 2]))\<rparr>"

definition test_risc0 :: "(u8 list, u8 list \<times> u8 list) risc0" where
  "test_risc0 = demo_risc0\<lparr>groth16_seal := (\<lambda>_. Some (replicate 256 7))\<rparr>"

text \<open>The prover's directory as the test sees it.\<close>

definition seen_by_test :: "disk \<Rightarrow> disk" where
  "seen_by_test d = \<lparr>contents = (\<lambda>path. contents d (''artifacts'' @ drop (length ARTIFACTS) path)), fault = None\<rparr>"

lemma test_platform_fields:
  "coordinator_id test_platform = [1]" "consumer_id test_platform = [2]" "router_id test_platform = [3]"
  "system_id test_platform = [0]" "pda test_platform = demo_pda" "sha256 test_platform = sha256 demo_platform"
  by (simp_all add: test_platform_def demo_platform_def)

lemma test_svm_fields:
  "new_keypair test_svm = [6]" "new_svm test_svm = (\<lambda>_. None)"
  by (simp_all add: test_svm_def)

lemma test_platform_ok:
  "platform_ok test_platform" "programs_distinct test_platform" "discriminators_ok test_platform"
proof -
  have p: "pda demo_platform = demo_pda" by (simp add: demo_platform_def)
  show "platform_ok test_platform"
    unfolding platform_ok_def test_platform_fields by (rule demo_platform_ok [unfolded platform_ok_def p])
  show "programs_distinct test_platform" by (simp add: programs_distinct_def test_platform_fields)
  have "discriminator test_platform = discriminator demo_platform"
    by (simp add: discriminator_def fun_eq_iff test_platform_fields)
  then show "discriminators_ok test_platform"
    using demo_discriminators by (simp add: discriminators_ok_def test_platform_fields)
qed

lemma demo_pda_length: "demo_pda s p = [k] \<Longrightarrow> k = 0"
  by (cases p) (auto simp: demo_pda_def)

lemma spending_output_ok:
  "output_ok spending_output" "new_nullifiers spending_output \<noteq> []" "fst (hd (new_nullifiers spending_output)) = NULLIFIER"
  "length (output_words spending_output @ []) \<le> 512"
proof -
  have "length NULLIFIER = 32" by (simp add: NULLIFIER_def)
  then show "output_ok spending_output" "length (output_words spending_output @ []) \<le> 512"
    by (simp_all add: spending_output_def output_ok_def demo_output_def output_words_def nullifier_entry_def counted_def
        byte_words_def)
qed (simp_all add: spending_output_def)

lemma test_proof: "prove_output test_nssa = Inr (serialise (output_words spending_output @ []), [1, 2])"
  by (simp add: prove_output_def confidential_predicate_program_def deploy_program_def unwrap_def test_nssa_def
      demo_nssa_def)

lemma test_wrap:
  assumes "prove_main test_nssa True (\<lambda>_. None) d = (Inr () :: (unit, _) res, d1)"
  shows "\<exists>d2. run_oneshot test_risc0 d1 = (Inr (), d2)"
proof -
  let ?out = "serialise (output_words spending_output @ [])"
  have c: "circuit_id test_nssa = replicate 8 7" "length (circuit_id test_nssa) = 8"
    by (simp_all add: test_nssa_def demo_nssa_def)
  have "length ?out \<noteq> 0" unfolding length_serialise by (simp add: output_words_def)
  then have "?out \<noteq> []" by force
  then have "\<exists>out. wrap test_risc0 \<lparr>proof_in = [1, 2], journal_in = ?out, id_in = replicate 8 7\<rparr> = Inr out"
    by (simp add: wrap_def test_risc0_def demo_risc0_def)
  then show ?thesis
    using artifacts_to_wrap(1) [OF assms c(2) test_proof] artifacts_to_wrap(3) [OF assms c(2) test_proof, of test_risc0] c(1)
    by (auto simp: run_oneshot_def fs_write_def)
qed

text \<open>The validator of the test after its set-up calls and after the creations.\<close>

definition demo_program :: stored_account where
  "demo_program = \<lparr>lamports = 1, account_data = [], account_owner = [9], executable = True, rent_epoch = 0\<rparr>"

definition demo_payer :: "u64 \<Rightarrow> stored_account" where
  "demo_payer n = \<lparr>lamports = n, account_data = [], account_owner = [0], executable = False, rent_epoch = 0\<rparr>"

definition demo_set_up :: "pubkey \<Rightarrow> stored_account option" where
  "demo_set_up =
     [[3] \<mapsto> demo_program, [8] \<mapsto> demo_program, [1] \<mapsto> demo_program, [2] \<mapsto> demo_program,
      [6] \<mapsto> demo_payer 10000000000, router_state test_platform \<mapsto> router_account test_platform [6],
      verifier_key test_platform (replicate 4 7) \<mapsto> entry_account test_platform (replicate 4 7) [8]]"

lemma test_set_up:
  shows "test_programs test_svm test_platform = (Inr (test_platform, [8]) :: ('e, _) res)"
    and "load_programs test_svm test_platform [8] =
      (Inr [[3] \<mapsto> demo_program, [8] \<mapsto> demo_program, [1] \<mapsto> demo_program, [2] \<mapsto> demo_program] :: ('e, _) res)"
    and "airdrop test_svm [[3] \<mapsto> demo_program, [8] \<mapsto> demo_program, [1] \<mapsto> demo_program, [2] \<mapsto> demo_program]
      (new_keypair test_svm) 10000000000 = Some [[3] \<mapsto> demo_program, [8] \<mapsto> demo_program, [1] \<mapsto> demo_program,
      [2] \<mapsto> demo_program, [6] \<mapsto> demo_payer 10000000000]"
    and "seed_router test_svm test_platform [8] (replicate 4 7) (new_keypair test_svm) [[3] \<mapsto> demo_program,
      [8] \<mapsto> demo_program, [1] \<mapsto> demo_program, [2] \<mapsto> demo_program, [6] \<mapsto> demo_payer 10000000000] =
      (Inr demo_set_up :: ('e, _) res)"
  by (simp_all add: test_programs_def parse_pubkey_def load_programs_def seed_router_def unwrap_def test_svm_def
      test_platform_def VERIFIER_ROUTER_ID_def GROTH16_VERIFIER_ID_def COORDINATOR_ID_def CONSUMER_ID_def
      demo_program_def demo_payer_def demo_set_up_def)

lemma test_create:
  "f [6] = Some (demo_payer n) \<Longrightarrow> 1000000000 \<le> n \<Longrightarrow> f k = None \<Longrightarrow>
   create_account test_platform f [6] k m = Some (f([6] \<mapsto> demo_payer (n - 1000000000)))"
  by (simp add: test_platform_def demo_payer_def)

lemma test_creations:
  "create_accounts test_platform (new_keypair test_svm) (submission_accounts test_platform j NULLIFIER) demo_set_up =
     Some (demo_set_up([6] \<mapsto> demo_payer 6000000000))"
proof -
  have l: "demo_pda s p \<noteq> [k]" if "k \<noteq> 0" for s p k using demo_pda_length [of s p k] that by auto
  have p: "demo_pda s p \<noteq> demo_pda s' p'" if "p \<noteq> p'" "length p = length p'" for s s' p p'
    using that by (simp add: demo_pda_def)
  have n: "demo_set_up (pda test_platform s p) = None" if "p = [1] \<or> p = [2]" for s p
    using that by (auto simp: demo_set_up_def test_platform_fields router_state_def verifier_key_def l p)
  note keys = registry_key_def config_key_def journal_key_def nullifier_key_def
  have k: "demo_set_up (registry_key test_platform) = None" "demo_set_up (config_key test_platform) = None"
    "demo_set_up (journal_key test_platform x) = None" "demo_set_up (nullifier_key test_platform y) = None" for x y
    unfolding keys by (rule n, simp add: test_platform_fields)+
  have six: "registry_key test_platform \<noteq> [6]" "config_key test_platform \<noteq> [6]" "journal_key test_platform x \<noteq> [6]"
    "nullifier_key test_platform y \<noteq> [6]" for x y
    unfolding keys by (simp_all add: test_platform_fields l)
  have step: "create_account test_platform (demo_set_up([6] \<mapsto> demo_payer a)) [6] k m =
      Some (demo_set_up([6] \<mapsto> demo_payer (a - 1000000000)))"
    if "1000000000 \<le> a" "k \<noteq> [6]" "demo_set_up k = None" for a k m
    using that test_create [of "demo_set_up([6] \<mapsto> demo_payer a)" a k m] by simp
  have start: "demo_set_up = demo_set_up([6] \<mapsto> demo_payer 10000000000)"
    using l [of 6] by (auto simp: demo_set_up_def router_state_def verifier_key_def test_platform_fields)
  show ?thesis
    by (subst start) (simp add: submission_accounts_def test_svm_fields step k six)
qed

lemma test_router_accepts:
  assumes "selector sl = replicate 4 7"
  shows "router_accepts test_platform (demo_set_up([6] \<mapsto> demo_payer 6000000000)) [8] sl
     (concat (map (to_le 4) (replicate 8 (7 :: u32)))) (sha256 test_platform j)"
proof -
  have l: "demo_pda s p \<noteq> [k]" if "k \<noteq> 0" for s p k using demo_pda_length [of s p k] that by auto
  have "is_router test_platform f k" "is_verifier_entry test_platform f k" if "map_option account_owner (f k) = Some [3]" for f k
    using that by (simp_all add: test_platform_def)
  moreover have "map_option account_owner ((demo_set_up([6] \<mapsto> demo_payer 6000000000)) (router_state test_platform)) = Some [3]"
    "map_option account_owner ((demo_set_up([6] \<mapsto> demo_payer 6000000000)) (verifier_key test_platform (replicate 4 7))) = Some [3]"
    using l [of 6]
    by (auto simp: demo_set_up_def router_state_def verifier_key_def router_account_def entry_account_def test_platform_fields)
  ultimately have "is_router test_platform (demo_set_up([6] \<mapsto> demo_payer 6000000000)) (router_state test_platform)"
    "is_verifier_entry test_platform (demo_set_up([6] \<mapsto> demo_payer 6000000000)) (verifier_key test_platform (replicate 4 7))"
    by blast+
  moreover have "router_verify test_platform f a b c sl (concat (map (to_le 4) (replicate 8 (7 :: u32)))) (sha256 test_platform j)" for f a b c
    by (simp add: test_platform_def min_def)
  ultimately show ?thesis
    unfolding router_accepts_def assms by blast
qed

theorem proof_reaches_consumer_witness:
  "\<exists>t w. submission_test test_svm test_platform demo_wire_seal (\<lambda>f ix. None) t = (Inr w :: (unit, _) res) \<and>
     verified w = [NULLIFIER]"
proof -
  let ?sb = "replicate 256 7 :: u8 list"
  let ?sl = "\<lparr>selector = take 4 ?sb, proof_bytes = negate_g1 (take 64 ?sb) @ drop 64 ?sb\<rparr>"
  obtain d1 where d1: "prove_main test_nssa True (\<lambda>_. None) demo_disk = (Inr () :: (unit, _) res, d1)"
    using test_proof by (auto simp: prove_main_def then_do_Inr_iff write_expect_Inr_iff)
  obtain d2 where d2: "run_oneshot test_risc0 d1 = (Inr (), d2)"
    using test_wrap [OF d1] by blast
  have l: "circuit_id test_nssa = replicate 8 7" "length (circuit_id test_nssa) = 8"
    by (simp_all add: test_nssa_def demo_nssa_def)
  have files: "contents (seen_by_test d2) (ARTIFACTS @ ''/'' @ name) = contents d2 (''artifacts/'' @ name)" for name
    by (simp add: seen_by_test_def)
  obtain sb where "contents (seen_by_test d2) (ARTIFACTS @ ''/seal.bin'') = Some sb" "groth16_seal test_risc0 r = Some sb" for r
    using files_of_the_test [OF d1 l(2) d2 files test_proof] by (auto simp: test_risc0_def)
  then have sb: "contents d2 ''artifacts/seal.bin'' = Some ?sb"
    using files [of "''seal.bin''"] by (simp add: test_risc0_def)
  have len: "length (negate_g1 (take 64 ?sb)) = 64" by (simp add: negate_g1_def)
  have wire: "demo_wire_seal (take 4 ?sb @ negate_g1 (take 64 ?sb) @ drop 64 ?sb @ rest) = Some (?sl, rest)" for rest
    using len by (simp add: demo_wire_seal_def)
  have four: "take 4 ?sb = replicate 4 7" by simp
  note set_up = test_set_up(1-3) test_set_up(4) [folded four]
  have sl: "length ?sb = 256" "selector ?sl = take 4 ?sb" "selector ?sl = replicate 4 7" by simp_all
  note accepted = test_router_accepts [OF sl(3), folded l(1)]
  show ?thesis
    using proof_reaches_consumer [OF test_platform_ok d1 l(2) d2 files test_proof spending_output_ok sb sl(1,2) wire
        set_up test_creations, where other = "\<lambda>f ix. None"]
    by (simp only: accepted if_True) blast
qed

end
