(* ===== verification/Circuit_Test.thy ===== *)
theory Circuit_Test
  imports Proof_Artifacts Eligibility
begin

text \<open>
  The test of the confidential predicate over a shielded account
  (\<open>predicate-engine/integration_tests/tests/confidential_predicate.rs\<close>): it seeds the
  commitment of an account, proves the predicate about its balance in the privacy circuit,
  and applies the resulting transaction. The library's record of \<open>Proof_Artifacts\<close> is
  extended by the calls this test makes in addition; an output of the circuit stands for its
  bytes.
\<close>

section \<open>The test\<close>

record 'v circuit = "'v nssa" +
  epk_from_scalar :: "u8 list \<Rightarrow> 'v"
  message_from_output :: "('v \<times> 'v \<times> 'v) list \<Rightarrow> u8 list \<Rightarrow> 'v option"
  witness_for_message :: "'v \<Rightarrow> u8 list \<Rightarrow> 'v"
  transition_from_private :: "'v \<Rightarrow> 'v \<Rightarrow> 'v \<Rightarrow> 'v option"
  nonce_increment :: "'v \<Rightarrow> u8 list \<Rightarrow> 'v"
  proof_is_some :: "'v \<Rightarrow> bool"

definition test_setup :: "('v, 'm) circuit_scheme \<Rightarrow> u128 \<Rightarrow> ('e, 'v \<times> 'v account) res" where
  "test_setup l secret_balance =
     (let npk = subject_npk (nssa.truncate l) in
     bind_res (confidential_predicate_program (nssa.truncate l)) (\<lambda>program.
     let subject_account = \<lparr>acc_owner = program_id_of l program, acc_balance = secret_balance,
           acc_data = data_default l, acc_nonce = private_account_nonce_init l npk\<rparr>;
         commitment = commitment_new l npk subject_account;
         nullifier = nullifier_for_initialization l npk in
     bind_res (deploy_program (nssa.truncate l) (new_with_genesis_accounts l [(commitment, nullifier)])) (\<lambda>state.
       Inr (state, subject_account))))"

text \<open>The proof both tests ask for.\<close>

definition prove_threshold ::
  "('v, 'm) circuit_scheme \<Rightarrow> 'v \<Rightarrow> 'v account \<Rightarrow> u128 \<Rightarrow> ('e, u8 list \<times> u8 list) res"
where
  "prove_threshold l state subject_account threshold =
     (let npk = subject_npk (nssa.truncate l);
          shared_secret = shared_secret_new l (replicate 32 7) (subject_vpk (nssa.truncate l)) in
     bind_res (unwrap (serialize_instruction l (CheckBalanceOverThreshold threshold))) (\<lambda>instruction.
     bind_res (confidential_predicate_program (nssa.truncate l)) (\<lambda>program.
       unwrap (execute_and_prove l [(subject_account, True, npk)] instruction [1] [(npk, shared_secret)]
         [subject_nsk] [get_proof_for_commitment l state (commitment_new l npk subject_account)] program))))"

definition confidential_predicate_passes_over_shielded_balance :: "('v, 'm) circuit_scheme \<Rightarrow> ('e, unit) res" where
  "confidential_predicate_passes_over_shielded_balance l =
     (let npk = subject_npk (nssa.truncate l); vpk = subject_vpk (nssa.truncate l);
          epk = epk_from_scalar l (replicate 32 7) in
     bind_res (test_setup l 5000) (\<lambda>(state, subject_account).
     bind_res (prove_threshold l state subject_account 1000) (\<lambda>(output_bytes, proof_bytes).
     bind_res (unwrap (message_from_output l [(npk, vpk, epk)] output_bytes)) (\<lambda>message.
     let witness_set = witness_for_message l message proof_bytes in
     bind_res (unwrap (transition_from_private l state message witness_set)) (\<lambda>state.
     let subject_after = subject_account\<lparr>acc_nonce :=
           nonce_increment l (private_account_nonce_init l npk) subject_nsk\<rparr> in
       if proof_is_some l (get_proof_for_commitment l state (commitment_new l npk subject_after))
       then Inr () else Inl Panic)))))"

text \<open>This test is marked \<open>#[should_panic]\<close>.\<close>

definition confidential_predicate_fails_when_below_threshold :: "('v, 'm) circuit_scheme \<Rightarrow> ('e, unit) res" where
  "confidential_predicate_fails_when_below_threshold l =
     bind_res (test_setup l 500) (\<lambda>(state, subject_account).
     bind_res (prove_threshold l state subject_account 1000) (\<lambda>_. Inr ()))"

section \<open>The tests and the prove program\<close>

lemma truncate_fields [simp]:
  "predicate_elf (nssa.truncate l) = predicate_elf l" "program_new (nssa.truncate l) = program_new l"
  "program_id_of (nssa.truncate l) = program_id_of l" "npk_from (nssa.truncate l) = npk_from l"
  "vpk_from_scalar (nssa.truncate l) = vpk_from_scalar l" "data_default (nssa.truncate l) = data_default l"
  "private_account_nonce_init (nssa.truncate l) = private_account_nonce_init l"
  "commitment_new (nssa.truncate l) = commitment_new l"
  "nullifier_for_initialization (nssa.truncate l) = nullifier_for_initialization l"
  "new_with_genesis_accounts (nssa.truncate l) = new_with_genesis_accounts l"
  "transition_from_deployment (nssa.truncate l) = transition_from_deployment l"
  "shared_secret_new (nssa.truncate l) = shared_secret_new l"
  "serialize_instruction (nssa.truncate l) = serialize_instruction l"
  "get_proof_for_commitment (nssa.truncate l) = get_proof_for_commitment l"
  "execute_and_prove (nssa.truncate l) = execute_and_prove l"
  by (simp_all add: nssa.truncate_def)

text \<open>
  The prove program and the tests are written separately; the proof whose files the prove
  program writes is the one that the passing test applies to the state.
\<close>

theorem prove_program_makes_tested_proof:
  "prove_output (nssa.truncate l) =
     bind_res (test_setup l 5000) (\<lambda>(state, subject_account). prove_threshold l state subject_account 1000)"
  by (cases "program_new l (predicate_elf l)")
    (simp_all add: prove_output_def test_setup_def prove_threshold_def confidential_predicate_program_def unwrap_def
      deploy_program_def subject_npk_def subject_vpk_def Let_def split: option.split)

text \<open>So the prove program makes its proof whenever the test passes.\<close>

theorem passing_test_proves:
  assumes "confidential_predicate_passes_over_shielded_balance l = (Inr () :: ('e, _) res)"
  shows "\<exists>out. prove_output (nssa.truncate l) = (Inr out :: ('e, _) res)"
  using assms
  unfolding prove_program_makes_tested_proof confidential_predicate_passes_over_shielded_balance_def Let_def
  by (auto simp: bind_res_Inr_iff)

end
