(* ===== verification/Spec2Isabelle.thy ===== *)
theory Spec2Isabelle
  imports Sbpf_Run Sbpf_Effects Isa_Runs Sbpf_Hang Conformance Eligibility Journal_Tests Coordinator_Props
    Coordinator_Spec Front_Running Secret_Check Prover_Main Submission_Test Circuit_Test
begin

text \<open>
  Tuniq: verification development.

  Tuniq verifies predicates over private data on Solana. A predicate is proved in a zkVM, a
  service wraps the proof into a Groth16 seal, and an on-chain program, the coordinator,
  checks the seal with a verifier program, decodes a nullifier from the public journal of
  the proof, spends it, and reports the verification to a consumer program. The M6 part of
  the repository runs compiled Solana programs as predicates: an interpreter of their
  instruction set (sBPF) runs inside the zkVM guest. The repository is Rust; file names
  below are under \<open>src/\<close>.

  Parts and theories, each in the order of the code.

  Shared.
  \<^item> \<open>Prelude\<close>: the widths of the machine integers, the result type \<open>('e, 'a) res\<close> of code
    that returns an error or panics, code with effects on a state, little-endian words, the build
    target (width of \<open>usize\<close>, overflow checks), list updates.
  \<^item> \<open>Rust_Strings\<close>: strings as Unicode scalar values with byte lengths, slices that panic
    inside a character, \<open>trim\<close>, \<open>from_str_radix(_, 16)\<close>, \<open>{:08x}\<close>, the UTF-8 codec.
  \<^item> \<open>Rust_Format\<close>: what the programs print: decimal numbers, literal text, the derived
    \<open>Debug\<close>; a program that prints is its lines and how it ends.
  \<^item> \<open>Byte_Store\<close>: the locale \<open>byte_store\<close>, what a byte memory promises; the byte loops of
    the clients are proved once over it.
  \<^item> \<open>Replay_Guard\<close>: the locale \<open>once_only\<close>, the contract of a replay guard.
  \<^item> \<open>Simulation\<close>: the locale \<open>simulation\<close>, an implementation whose steps are steps of a
    specification or change nothing of it.
  \<^item> \<open>Finite_Machine\<close>: the locale \<open>finite_machine\<close>, a deterministic machine whose states stay
    in a finite set: when its runs go on for ever.

  The interpreter, \<open>m6-interpreter/interpreter/src/lib.rs\<close>.
  \<^item> \<open>Sbpf_Memory\<close>: \<open>Memory\<close> (\<open>in_range\<close>, \<open>resolve\<close>, loads and stores); interprets
    \<open>byte_store\<close>.
  \<^item> \<open>Sbpf_Syscalls\<close>: \<open>trait Syscalls\<close> as a record of functions and the two implementations
    (\<open>m6-interpreter/zkvm-guest/src/main.rs\<close>, \<open>m6-interpreter/conformance/src/main.rs\<close>);
    both interpret the locale \<open>copying_syscalls\<close>.
  \<^item> \<open>Sbpf_Vm\<close>: \<open>decode\<close>, every opcode arm, calls and exit, the dispatcher, \<open>step\<close> (a
    turn of the loop) and \<open>run\<close> (the loop).
  \<^item> \<open>Sbpf_Safety\<close>, \<open>Sbpf_Termination\<close>, \<open>Sbpf_Instr\<close>, \<open>Sbpf_Run\<close>, \<open>Sbpf_Effects\<close>: the
    invariant of the machine and that every turn keeps it; forward texts return; the
    arithmetic against a reference on naturals and integers, loads and stores; whole runs;
    the effect of each syscall.
  \<^item> \<open>Sbpf_Isa\<close>, \<open>Isa_Decode\<close>: the instruction set as the interpreter's specification,
    written without its opcode table: an instruction is read off the class, source and
    operation fields of the opcode, one definition serves both widths, and a machine is its
    registers, frames, program counter and the bytes it can see. \<open>Isa_Agreement\<close>,
    \<open>Isa_Refinement\<close>, \<open>Isa_Runs\<close>: each arm, each turn and whole runs against it, the latter
    by an interpretation of \<open>simulation\<close>.
  \<^item> \<open>Sbpf_Hang\<close>: the runs that never return, by an interpretation of \<open>finite_machine\<close> on the
    states of the interpreter.

  Around the interpreter.
  \<^item> \<open>Elf_Loader\<close>: \<open>load_text\<close>, the same function in the harness and the host prover.
  \<^item> \<open>Harness\<close>: input buffer, \<open>run_predicate\<close>, the guest's \<open>main\<close>.
  \<^item> \<open>Predicate_Run\<close>: the balance predicate (\<open>m6-interpreter/programs/balance-predicate/src/lib.rs\<close>),
    the host prover \<open>prove_predicate\<close> (\<open>m6-interpreter/prover/src/main.rs\<close>), and what
    the guest commits on the input the host writes, for any program text. The compiled
    predicate is not part of the repository, and nothing is stated of it.
  \<^item> \<open>Conformance\<close>: the suite and the gate of milestone M6.
  \<^item> \<open>Eligibility\<close>: \<open>shared-types/src/lib.rs\<close> and the confidential predicate
    (\<open>predicate-engine/src/check.rs\<close> and its guest binary).

  On chain, \<open>coordinator/programs\<close>.
  \<^item> \<open>Journal_Decode\<close>: \<open>journal_decode.rs\<close>, against an abstract parser of the circuit output
    and against its serialisation; \<open>Journal_Tests\<close>: its unit tests.
  \<^item> \<open>Ledger\<close>: accounts, events, and the platform the programs run on; the order of
    accounts that every transition respects.
  \<^item> \<open>Consumer\<close>, \<open>Coordinator\<close>: the handlers of both \<open>lib.rs\<close> files with their account
    constraints; the call of the consumer interprets the locale \<open>isolated_call\<close>.
  \<^item> \<open>Coordinator_Safety\<close>, \<open>Coordinator_Props\<close>: the ledger over time as the step relation
    \<open>chain_step\<close>, the invariants of its reachable states, replay protection by an
    interpretation of \<open>once_only\<close>, and the properties of the programs.
  \<^item> \<open>Coordinator_Spec\<close>: the registry of published journals and spent nullifiers that the
    programs implement, by an interpretation of \<open>simulation\<close>.
  \<^item> \<open>Front_Running\<close>: what another user can do with a submission that is not yet executed.
  \<^item> \<open>Program_Entry\<close>: the entry points, from instruction data and account list to handler;
    sequences of transactions.

  Off chain.
  \<^item> \<open>Image_Ids\<close>: the image id parser and printer of the prover and the client's parser.
  \<^item> \<open>Wrap_Service\<close>: \<open>prover/src/main.rs\<close>: \<open>wrap\<close>, the one-shot mode, the HTTP handler;
    \<open>Prover_Main\<close>: its \<open>main\<close> and the service behind its route.
  \<^item> \<open>G1_Negation\<close>, \<open>Devnet_Client\<close>: \<open>devnet-client/src/main.rs\<close>: \<open>negate_g1\<close>, the five
    instructions and the run against the coordinator and the consumer, through a node that
    may not answer, lose a transaction or lose its confirmation.
  \<^item> \<open>Submission\<close>, \<open>Submission_Test\<close>: the integration test
    \<open>coordinator/programs/coordinator/tests/verify_predicate.rs\<close>: the transactions it sends;
    the whole of it, after the prove program and the wrap. Whether the router accepts the seal is the
    router's choice; both outcomes are stated.
  \<^item> \<open>Proof_Artifacts\<close>, \<open>Secret_Check\<close>: the programs of
    \<open>predicate-engine/integration_tests/examples\<close>: \<open>prove.rs\<close> writes the files the wrap
    prover reads, \<open>verify.rs\<close> checks them, \<open>decode.rs\<close> searches the journal for the secret.
  \<^item> \<open>Circuit_Test\<close>: \<open>predicate-engine/integration_tests/tests/confidential_predicate.rs\<close>, both
    tests; the prove program makes the proof that the passing test applies.
\<close>

text \<open>
  Correspondence of state. A Rust struct is a record, an enum a datatype, a w-bit integer a \<open>w
  word\<close>. Mutation is an updated record that is returned; an error or a panic is a value of
  \<open>res\<close>. A Rust \<open>Vec<u8>\<close> or slice is a list of bytes; every index the
  code uses is checked in the model as Rust checks it, with a panic out of range. The
  \<open>unsafe\<close> accesses of the interpreter and the zkVM guest have a failure of their own,
  undefined behaviour, which the invariant of \<open>Sbpf_Safety\<close> excludes. The ledger holds
  what the two programs own as partial maps from addresses; a failed transaction leaves it as it
  was.

  Bounds and termination. The interpreter's loop has no budget, so \<open>run\<close> is a
  \<open>partial_function\<close> into the option type and \<open>None\<close> says that it runs
  forever; that runs return is proved where it holds (texts with forward jumps), and that a run does
  not return where it does not (a jump to itself). A run never returns exactly when it comes back to
  a machine it was in, and a run from a fresh machine has ended or never will after
  \<open>turns_enough\<close> turns, the number of machines it can be in: eleven registers, a program counter
  and a length of the return data of at most \<open>B\<close> (the size of the address space and the length
  of the text together), at most 64 frames and the bytes of the two regions. \<open>run_fuel\<close>
  of \<open>Sbpf_Vm\<close> is a tool of the proofs: \<open>run\<close> has a value exactly when some fuel gives it. The call
  depth (64), the sizes of heap and stack, the input buffer (65528 bytes fit) and the stored journal
  are the sources' own constants. The decoder's facts are about journals shorter than \<open>2 ^
  62\<close> bytes, far above the limit of an account on Solana, so that its index arithmetic cannot
  overflow.

  Parameters. Code that is not in the repository is an argument of the definitions: the zkVM's
  environment, prover and receipt verifier; the record \<open>platform\<close> (SHA-256, address
  derivation, the verifier router, the system program and the other programs); the record
  \<open>risc0\<close> of the wrap prover (receipts, their verification and compression, base64);
  the records \<open>nssa\<close> and \<open>circuit\<close> of the privacy circuit's library; the record \<open>svm\<close> of
  the simulated validator; the decoders of seals and of JSON; the client's files and its node.
  Facts that need it assume what is documented of these, for instance that distinct seeds give
  distinct addresses, and every such fact is applied to a concrete platform. Calls that may
  fail on a real chain (creating an account, a transaction, the router's verdict, the set-up of
  the simulated validator) are never assumed to succeed in general: a fact that needs one to
  succeed says so of that call, in the state in which the program makes it.

  Groups of properties. Interpreter: it implements the instruction set but for named exceptions,
  its runs and those of the instruction set have the same results, sandboxing, well-formed
  machine, loads and stores, calls, termination and the runs that never end; arithmetic and syscalls as lemmas. Journal: the
  decoder is exact, total and inverts the serialisation. Chain: the programs implement the
  registry, a submission succeeds, no replay, a copied proof can be spent by anyone, certified
  nullifiers, exact counts, fixed configuration, what a verification binds, that an honest one
  succeeds, which errors occur; the entry points. Off chain: image ids, the prover hands out
  verified seals only, the integration test on the files of the prove program and the wrap
  passes exactly when the router accepts the seal, the pre-flight check predicts the wrap, the
  client's point negation and its run. Predicates: the guest commits the run of the host's
  program; what the conformance suite and the M6 gate print, and what they cannot tell apart. Several facts show where the
  code departs from its comments: the upper half of \<open>lddw\<close>, the suite that accepts
  any completing program, the client whose verification never succeeds, the consumer that is the
  submitter's choice, the search for the secret that cannot see published bytes.

  Not modelled.
  \<^item> \<open>coordinator/programs/coordinator/src\<close>: \<open>state.rs\<close>, \<open>constants.rs\<close>, \<open>error.rs\<close>,
    \<open>instructions.rs\<close>, \<open>instructions/initialize.rs\<close> are remains of the project template;
    \<open>lib.rs\<close> does not declare them and they are not compiled.
  \<^item> The build scripts and the includes of generated image ids: their content does not exist
    before the build.
  \<^item> The listening socket of the service and the error streams; the progress lines of the
    prove program, the one-shot mode and the integration test. The output of the conformance suite,
    the M6 gate, the pre-flight check, the secret search and the client is modelled line by line.
  \<^item> The SPEL macro of the confidential predicate's guest binary, and Anchor's generated code
    beyond discriminators, argument decoding and account constraints: the order in which it
    validates the accounts of an instruction and its error for each constraint (the model
    raises missing accounts and a missing \<open>mut\<close> first and has one error for the other
    constraints).
\<close>

end
